(* ===== verification/RC_Prelude.thy ===== *)
theory RC_Prelude
  imports Main
begin

text \<open>
  Shared vocabulary of the development: the Go types the components use, the fixed-width
  arithmetic of durations and counters, decimal printing and parsing of integers
  (\<^verbatim>\<open>strconv\<close>), splitting of names at a separator (\<^verbatim>\<open>strings.Split\<close>), iteration
  orders of Go maps, and a small theory of state machines with an interface for invariants.
\<close>

section \<open>Collections of facts\<close>

named_theorems op_defs \<open>definitions of the operations of a component\<close>
named_theorems inv_defs \<open>definitions of the invariants of a component\<close>

section \<open>Go types\<close>

text \<open>A Go string and a byte slice are both sequences of bytes; a \<open>char\<close> is one byte.\<close>

type_synonym gostring = string
type_synonym bytes = string

text \<open>
  \<^verbatim>\<open>time.Duration\<close> and \<^verbatim>\<open>int64\<close> values are integers with the wrap-around of 64-bit two's
  complement written out where the code multiplies; \<^verbatim>\<open>uint64\<close> counters that only ever count
  up by one are natural numbers.
\<close>

type_synonym duration = int

definition wrap64 :: "int \<Rightarrow> int" where
  "wrap64 x = (x + 2 ^ 63) mod 2 ^ 64 - 2 ^ 63"

definition wrap32 :: "int \<Rightarrow> int" where
  "wrap32 x = (x + 2 ^ 31) mod 2 ^ 32 - 2 ^ 31"

lemma wrap64_bounds: "- (2 ^ 63) \<le> wrap64 x \<and> wrap64 x < 2 ^ 63"
  by (simp add: wrap64_def)

lemma wrap32_bounds: "- (2 ^ 31) \<le> wrap32 x \<and> wrap32 x < 2 ^ 31"
  by (simp add: wrap32_def)

lemma wrap64_id: "- (2 ^ 63) \<le> x \<Longrightarrow> x < 2 ^ 63 \<Longrightarrow> wrap64 x = x"
  by (simp add: wrap64_def)

lemma wrap32_id: "- (2 ^ 31) \<le> x \<Longrightarrow> x < 2 ^ 31 \<Longrightarrow> wrap32 x = x"
  by (simp add: wrap32_def)

text \<open>Go's integer division truncates towards zero.\<close>

definition go_div :: "int \<Rightarrow> int \<Rightarrow> int" where
  "go_div a b = sgn a * sgn b * (\<bar>a\<bar> div \<bar>b\<bar>)"

lemma go_div_nonneg: "0 \<le> a \<Longrightarrow> 0 < b \<Longrightarrow> go_div a b = a div b"
  by (cases "a = 0") (auto simp: go_div_def sgn_if)

definition goMillisecond :: duration where "goMillisecond = 1000000"
definition goSecond :: duration where "goSecond = 1000000000"

lemmas duration_units = goMillisecond_def goSecond_def

lemma units_nonzero [simp]: "goSecond \<noteq> 0" "goMillisecond \<noteq> 0"
  by (simp_all add: duration_units)

section \<open>Doubling backoff\<close>

text \<open>
  \<^verbatim>\<open>backoff = min(backoff*2, maxBackoff)\<close>: the statement shared by every retry loop of the
  RabbitMQ transport (reconnect, publisher rebuild, consumer rebuild, consumer restore).
\<close>

definition nextBackoff :: "duration \<Rightarrow> duration \<Rightarrow> duration" where
  "nextBackoff mx b = min (wrap64 (b * 2)) mx"

definition backoffSeq :: "duration \<Rightarrow> duration \<Rightarrow> nat \<Rightarrow> duration" where
  "backoffSeq initial mx n = (nextBackoff mx ^^ n) initial"

lemma backoffSeq_0 [simp]: "backoffSeq i m 0 = i"
  by (simp add: backoffSeq_def)

lemma backoffSeq_Suc [simp]: "backoffSeq i m (Suc n) = nextBackoff m (backoffSeq i m n)"
  by (simp add: backoffSeq_def)

lemma nextBackoff_range:
  assumes "0 < b" and "b \<le> mx" and "mx < 2 ^ 62"
  shows "nextBackoff mx b = min (b * 2) mx" and "b \<le> nextBackoff mx b"
    and "nextBackoff mx b \<le> mx"
proof -
  have "wrap64 (b * 2) = b * 2" using assms by (intro wrap64_id) auto
  then show "nextBackoff mx b = min (b * 2) mx" by (simp add: nextBackoff_def)
  then show "b \<le> nextBackoff mx b" and "nextBackoff mx b \<le> mx" using assms by auto
qed

lemma backoffSeq_closed:
  assumes "0 < i" and "i \<le> mx" and "mx < 2 ^ 62"
  shows "backoffSeq i mx n = min (i * 2 ^ n) mx"
proof (induction n)
  case 0
  then show ?case using assms by simp
next
  case (Suc n)
  have pos: "0 < i * 2 ^ n" using assms by simp
  then have "0 < min (i * 2 ^ n) mx" using assms by linarith
  with assms have "nextBackoff mx (min (i * 2 ^ n) mx) = min (min (i * 2 ^ n) mx * 2) mx"
    by (intro nextBackoff_range) auto
  with Suc pos assms show ?case by (auto simp: min_def)
qed

section \<open>Configuration defaults\<close>

text \<open>A pointer the code only passes on (a TLS configuration, a logger) is an object identity.\<close>

type_synonym objref = nat

text \<open>\<^verbatim>\<open>if x == zero { x = dflt }\<close>.\<close>

definition orDefault :: "'a \<Rightarrow> 'a \<Rightarrow> 'a \<Rightarrow> 'a" where
  "orDefault zero x dflt = (if x = zero then dflt else x)"

lemma orDefault_idem [simp]: "orDefault z (orDefault z x d) d = orDefault z x d"
  by (simp add: orDefault_def)

lemma orDefault_set [simp]: "d \<noteq> z \<Longrightarrow> orDefault z x d \<noteq> z"
  by (simp add: orDefault_def)

text \<open>A setting of the caller is kept: the zero value means it was not set.\<close>

definition kept :: "'a \<Rightarrow> 'a \<Rightarrow> 'a \<Rightarrow> bool" where
  "kept zero x y \<longleftrightarrow> x = zero \<or> y = x"

lemma kept_orDefault [simp]: "kept z x (orDefault z x d)"
  by (simp add: kept_def orDefault_def)

section \<open>Decimal numerals\<close>

text \<open>
  \<^verbatim>\<open>strconv.Itoa\<close> and \<^verbatim>\<open>strconv.FormatInt(_, 10)\<close>, and \<^verbatim>\<open>strconv.ParseInt(_, 10, 64)\<close>: an
  optional sign, at least one decimal digit, and a range check that fails with an error.
\<close>

definition digit_char :: "nat \<Rightarrow> char" where
  "digit_char d = char_of (48 + d)"

definition char_digit :: "char \<Rightarrow> nat option" where
  "char_digit c = (let n = (of_char c :: nat) in if 48 \<le> n \<and> n \<le> 57 then Some (n - 48) else None)"

fun show_nat :: "nat \<Rightarrow> string" where
  "show_nat n = (if n < 10 then [digit_char n] else show_nat (n div 10) @ [digit_char (n mod 10)])"

declare show_nat.simps [simp del]

definition formatInt :: "int \<Rightarrow> string" where
  "formatInt i = (if i < 0 then CHR ''-'' # show_nat (nat (- i)) else show_nat (nat i))"

fun parse_digits :: "nat \<Rightarrow> string \<Rightarrow> nat option" where
  "parse_digits acc [] = Some acc"
| "parse_digits acc (c # cs) =
     (case char_digit c of None \<Rightarrow> None | Some d \<Rightarrow> parse_digits (acc * 10 + d) cs)"

definition parseNat :: "string \<Rightarrow> nat option" where
  "parseNat cs = (if cs = [] then None else parse_digits 0 cs)"

definition parseInt64 :: "string \<Rightarrow> int option" where
  "parseInt64 s =
     (let (neg, ds) = (case s of [] \<Rightarrow> (False, [])
                       | c # cs \<Rightarrow> if c = CHR ''-'' then (True, cs)
                                  else if c = CHR ''+'' then (False, cs) else (False, s))
      in case parseNat ds of
           None \<Rightarrow> None
         | Some n \<Rightarrow> (let v = (if neg then - int n else int n)
                     in if - (2 ^ 63) \<le> v \<and> v < 2 ^ 63 then Some v else None))"

lemma char_digit_digit_char: "d < 10 \<Longrightarrow> char_digit (digit_char d) = Some d"
  by (simp add: char_digit_def digit_char_def)

lemma char_digit_sign [simp]: "char_digit CHR ''-'' = None" "char_digit CHR ''+'' = None"
  by (simp_all add: char_digit_def)

lemma digit_char_not_sign: "d < 10 \<Longrightarrow> digit_char d \<noteq> CHR ''-'' \<and> digit_char d \<noteq> CHR ''+''"
  using char_digit_digit_char [of d] by (metis char_digit_sign option.distinct(1))

lemma parse_digits_append:
  "parse_digits acc (xs @ ys) = Option.bind (parse_digits acc xs) (\<lambda>a. parse_digits a ys)"
  by (induction xs arbitrary: acc) (auto split: option.splits)

lemma show_nat_not_Nil [simp]: "show_nat n \<noteq> []"
  by (subst show_nat.simps) simp

lemma parse_digits_show_nat: "\<exists>k. \<forall>acc. parse_digits acc (show_nat n) = Some (acc * k + n)"
proof (induction n rule: show_nat.induct)
  case (1 n)
  show ?case
  proof (cases "n < 10")
    case True
    then show ?thesis
      by (intro exI [of _ 10]) (simp add: show_nat.simps [of n] char_digit_digit_char)
  next
    case False
    with 1 obtain k where k: "\<And>acc. parse_digits acc (show_nat (n div 10)) = Some (acc * k + n div 10)"
      by blast
    have "parse_digits acc (show_nat n) = Some (acc * (k * 10) + n)" for acc
      using False by (simp add: show_nat.simps [of n] parse_digits_append k char_digit_digit_char
        algebra_simps)
    then show ?thesis by blast
  qed
qed

lemma parseNat_show_nat [simp]: "parseNat (show_nat n) = Some n"
  using parse_digits_show_nat [of n] by (auto simp: parseNat_def)

lemma hd_show_nat_digit: "\<exists>d < 10. hd (show_nat n) = digit_char d"
proof (induction n rule: show_nat.induct)
  case (1 n)
  then show ?case
    by (cases "n < 10") (auto simp: show_nat.simps [of n] intro: exI [of _ n])
qed

lemma parseInt64_formatInt:
  assumes "- (2 ^ 63) \<le> i" and "i < 2 ^ 63"
  shows "parseInt64 (formatInt i) = Some i"
proof (cases "i < 0")
  case True
  with assms show ?thesis by (simp add: parseInt64_def formatInt_def)
next
  case False
  obtain d where "d < 10" and hd: "hd (show_nat (nat i)) = digit_char d"
    using hd_show_nat_digit by blast
  then have "hd (show_nat (nat i)) \<noteq> CHR ''-''" and "hd (show_nat (nat i)) \<noteq> CHR ''+''"
    using digit_char_not_sign by auto
  moreover obtain c cs where "show_nat (nat i) = c # cs" by (cases "show_nat (nat i)") auto
  ultimately show ?thesis
    using False assms parseNat_show_nat [of "nat i"]
    by (simp add: parseInt64_def formatInt_def)
qed

section \<open>Splitting at a separator\<close>

text \<open>\<^verbatim>\<open>strings.Split(s, sep)\<close> for a one-byte separator; the result is never empty.\<close>

fun splitOn :: "char \<Rightarrow> string \<Rightarrow> string list" where
  "splitOn sep [] = [[]]"
| "splitOn sep (c # cs) =
     (if c = sep then [] # splitOn sep cs
      else (case splitOn sep cs of [] \<Rightarrow> [[c]] | w # ws \<Rightarrow> (c # w) # ws))"

fun joinWith :: "char \<Rightarrow> string list \<Rightarrow> string" where
  "joinWith sep [] = []"
| "joinWith sep [w] = w"
| "joinWith sep (w # v # ws) = w @ sep # joinWith sep (v # ws)"

lemma splitOn_not_Nil [simp]: "splitOn sep s \<noteq> []"
  by (cases s) (auto split: list.splits)

lemma joinWith_Cons: "ws \<noteq> [] \<Longrightarrow> joinWith sep (w # ws) = w @ sep # joinWith sep ws"
  by (cases ws) auto

lemma joinWith_hd: "ws \<noteq> [] \<Longrightarrow> joinWith sep ((c # hd ws) # tl ws) = c # joinWith sep ws"
  by (cases ws; cases "tl ws") auto

lemma joinWith_splitOn: "joinWith sep (splitOn sep s) = s"
proof (induction s)
  case Nil
  then show ?case by simp
next
  case (Cons c cs)
  show ?case
  proof (cases "c = sep")
    case True
    then show ?thesis using Cons by (simp add: joinWith_Cons)
  next
    case False
    obtain w ws where s: "splitOn sep cs = w # ws" by (cases "splitOn sep cs") auto
    have "joinWith sep ((c # w) # ws) = c # joinWith sep (w # ws)" by (cases ws) auto
    then show ?thesis using False s Cons by simp
  qed
qed

lemma splitOn_inject: "splitOn sep a = splitOn sep b \<longleftrightarrow> a = b"
  by (metis joinWith_splitOn)

lemma splitOn_segments: "w \<in> set (splitOn sep s) \<Longrightarrow> sep \<notin> set w"
  by (induction s arbitrary: w) (auto split: if_splits list.splits)

lemma splitOn_chars: "w \<in> set (splitOn sep s) \<Longrightarrow> set w \<subseteq> set s"
  by (induction s arbitrary: w) (fastforce split: if_splits list.splits)+

section \<open>Iteration orders of Go maps\<close>

text \<open>
  Ranging over a Go map visits every key once in an order the runtime picks anew each time.
  The order is an argument of the operations that range over a map; \<open>keyOrder m ks\<close> says that
  \<open>ks\<close> is a possible one.
\<close>

definition keyOrder :: "('k \<rightharpoonup> 'v) \<Rightarrow> 'k list \<Rightarrow> bool" where
  "keyOrder m ks \<longleftrightarrow> distinct ks \<and> set ks = dom m"

text \<open>The keys a \<^verbatim>\<open>for range\<close> loop over \<open>m\<close> visits under the order \<open>ks\<close>, and the loop that copies them.\<close>

definition rangeKeys :: "('k \<rightharpoonup> 'v) \<Rightarrow> 'k list \<Rightarrow> 'k list" where
  "rangeKeys m ks = filter (\<lambda>k. m k \<noteq> None) ks"

definition copyKeys :: "('k \<rightharpoonup> 'v) \<Rightarrow> 'k list \<Rightarrow> 'k list" where
  "copyKeys m ks = foldl (\<lambda>out k. out @ [k]) [] (rangeKeys m ks)"

lemma foldl_snoc: "foldl (\<lambda>out k. if P k then out @ [k] else out) xs ks = xs @ filter P ks"
  by (induction ks arbitrary: xs) auto

text \<open>The loop that copies the entries of a map.\<close>

lemma foldl_upd: "foldl (\<lambda>out k. out(k := m k)) f ks = (\<lambda>x. if x \<in> set ks then m x else f x)"
  by (induction ks arbitrary: f) (auto simp: fun_eq_iff)

lemma copyKeys_rangeKeys [simp]: "copyKeys m ks = rangeKeys m ks"
  using foldl_snoc [of "\<lambda>_. True" "[]" "rangeKeys m ks"] by (simp add: copyKeys_def)

lemma rangeKeys_keyOrder [simp]: "keyOrder m ks \<Longrightarrow> rangeKeys m ks = ks"
  by (auto simp: rangeKeys_def keyOrder_def filter_id_conv)

lemma keyOrder_empty [simp]: "keyOrder Map.empty ks \<longleftrightarrow> ks = []"
  by (auto simp: keyOrder_def)

lemma keyOrder_insert: "m k = None \<Longrightarrow> keyOrder m ks \<Longrightarrow> keyOrder (m(k \<mapsto> v)) (ks @ [k])"
  by (auto simp: keyOrder_def dom_def)

lemma keyOrder_finite: "keyOrder m ks \<Longrightarrow> finite (dom m)"
  by (metis List.finite_set keyOrder_def)

lemma keyOrder_exists: "finite (dom m) \<Longrightarrow> \<exists>ks. keyOrder m ks"
  by (metis finite_distinct_list keyOrder_def)

section \<open>State machines\<close>

text \<open>
  The concurrent components are step relations; \<open>reach\<close> is the set of states a run can get to.
\<close>

inductive reach :: "('s \<Rightarrow> bool) \<Rightarrow> ('s \<Rightarrow> 's \<Rightarrow> bool) \<Rightarrow> 's \<Rightarrow> bool"
  for init :: "'s \<Rightarrow> bool" and step :: "'s \<Rightarrow> 's \<Rightarrow> bool"
where
  reach_init: "init s \<Longrightarrow> reach init step s"
| reach_step: "reach init step s \<Longrightarrow> step s t \<Longrightarrow> reach init step t"

lemma reach_mono:
  assumes "reach init step s" and "\<And>s t. step s t \<Longrightarrow> step' s t"
  shows "reach init step' s"
  using assms(1) by induction (auto intro: reach.intros assms(2))

text \<open>Runs of an executable machine: \<open>f e s\<close> is the state after event \<open>e\<close>, \<open>None\<close> when it cannot happen.\<close>

fun runTrace :: "('e \<Rightarrow> 's \<Rightarrow> 's option) \<Rightarrow> 'e list \<Rightarrow> 's \<Rightarrow> 's option" where
  "runTrace f [] s = Some s"
| "runTrace f (e # es) s = (case f e s of None \<Rightarrow> None | Some t \<Rightarrow> runTrace f es t)"

lemma runTrace_append: "runTrace f (es @ es') s = (case runTrace f es s of None \<Rightarrow> None | Some t \<Rightarrow> runTrace f es' t)"
  by (induction es arbitrary: s) (simp_all split: option.split)

lemma runTrace_reach:
  "runTrace f es s = Some t \<Longrightarrow> reach init step s \<Longrightarrow>
   (\<And>e u v. e \<in> set es \<Longrightarrow> f e u = Some v \<Longrightarrow> step u v) \<Longrightarrow> reach init step t"
proof (induction es arbitrary: s)
  case (Cons e es)
  obtain u where u: "f e s = Some u" "runTrace f es u = Some t"
    using Cons.prems(1) by (auto split: option.splits)
  have "reach init step u"
    using Cons.prems(2) Cons.prems(3) [of e s u] u(1) by (auto intro: reach_step)
  then show ?case by (rule Cons.IH [OF u(2)]) (auto intro: Cons.prems(3))
qed simp

locale machine_invariant =
  fixes init :: "'s \<Rightarrow> bool"
    and step :: "'s \<Rightarrow> 's \<Rightarrow> bool"
    and inv :: "'s \<Rightarrow> bool"
  assumes init_inv: "init s \<Longrightarrow> inv s"
    and step_inv: "inv s \<Longrightarrow> step s t \<Longrightarrow> inv t"
begin

lemma reach_inv: "reach init step s \<Longrightarrow> inv s"
  by (induction rule: reach.induct) (auto intro: init_inv step_inv)

end

end
