(* ===== verification/RC_Async.thy ===== *)
theory RC_Async
  imports RC_Prelude
begin

text \<open>
  The public vocabulary shared by both transports: the message types of
  \<^verbatim>\<open>pkg/async/types.go\<close>, the sentinel errors of \<^verbatim>\<open>pkg/async/errors.go\<close> (and of the packages
  that add their own), the wire headers of \<^verbatim>\<open>pkg/headers/headers.go\<close>, and what a user handler
  can do when it is called.
\<close>

section \<open>Errors\<close>

text \<open>
  A Go \<^verbatim>\<open>error\<close> is a value of this type. Each sentinel has its constructor, whose argument is
  the rest of the message when the code wraps the sentinel with \<^verbatim>\<open>fmt.Errorf("%w: ...")\<close>; a
  plain \<^verbatim>\<open>fmt.Errorf\<close> or an error of a library is \<open>ErrOther\<close>; \<open>Wrapped prefix e\<close> is
  \<^verbatim>\<open>fmt.Errorf("prefix: %w", e)\<close>; \<open>Joined es\<close> is \<^verbatim>\<open>errors.Join\<close>.
\<close>

datatype goerror =
    ErrDuplicateHandler gostring
  | ErrQueryTimeout
  | ErrBrokerUnavailable gostring
  | ErrDeserialize gostring
  | ErrWildcardNotSupported gostring
  | ErrRegistrationClosed
  | ErrNotConnected
  | CtxCanceled
  | CtxDeadlineExceeded
  | ErrTopicMissing gostring
  | ErrBrokerUnreachable gostring
  | ErrPayloadTooLarge gostring
  | ErrOther gostring
  | Wrapped gostring goerror
  | Joined "goerror list"

text \<open>\<^verbatim>\<open>errors.Is\<close> against one of the two context errors follows wrapping and joining.\<close>

fun isCtxError :: "goerror \<Rightarrow> bool" where
  "isCtxError CtxCanceled = True"
| "isCtxError CtxDeadlineExceeded = True"
| "isCtxError (Wrapped p e) = isCtxError e"
| "isCtxError (Joined es) = list_ex isCtxError es"
| "isCtxError _ = False"

definition hexDigit :: "nat \<Rightarrow> char" where
  "hexDigit n = (if n < 10 then digit_char n else char_of (87 + n))"

text \<open>The verb \<^verbatim>\<open>%q\<close>: double quotes around the text, with quotes, backslashes and control bytes escaped.\<close>

definition quoteByte :: "char \<Rightarrow> string" where
  "quoteByte c =
     (let n = (of_char c :: nat) in
      if n = 34 \<or> n = 92 then [CHR 0x5C, c]
      else if n = 10 then CHR 0x5C # ''n''
      else if n = 9 then CHR 0x5C # ''t''
      else if n = 13 then CHR 0x5C # ''r''
      else if n < 32 \<or> n = 127 then CHR 0x5C # CHR ''x'' # [hexDigit (n div 16), hexDigit (n mod 16)]
      else [c])"

definition goQuote :: "gostring \<Rightarrow> gostring" where
  "goQuote s = CHR 0x22 # concat (map quoteByte s) @ [CHR 0x22]"

fun joinLines :: "string list \<Rightarrow> string" where
  "joinLines [] = []"
| "joinLines [x] = x"
| "joinLines (x # y # zs) = x @ CHR 0x0A # joinLines (y # zs)"

text \<open>The method \<^verbatim>\<open>Error()\<close>.\<close>

fun errorText :: "goerror \<Rightarrow> gostring" where
  "errorText (ErrDuplicateHandler d) = ''reactive-commons: handler already registered for this name: '' @ d"
| "errorText ErrQueryTimeout = ''reactive-commons: query timed out waiting for reply''"
| "errorText (ErrBrokerUnavailable d) = ''reactive-commons: broker connection unavailable: '' @ d"
| "errorText (ErrDeserialize d) = ''reactive-commons: failed to deserialize message payload: '' @ d"
| "errorText (ErrWildcardNotSupported d) =
     ''reactive-commons: wildcards are not supported in query handler names: '' @ d"
| "errorText ErrRegistrationClosed = ''reactive-commons: handler registration is closed after Start''"
| "errorText ErrNotConnected = ''reactive-commons: not connected to broker''"
| "errorText CtxCanceled = ''context canceled''"
| "errorText CtxDeadlineExceeded = ''context deadline exceeded''"
| "errorText (ErrTopicMissing d) = ''kafka: required topic does not exist: '' @ d"
| "errorText (ErrBrokerUnreachable d) = ''kafka: bootstrap brokers unreachable: '' @ d"
| "errorText (ErrPayloadTooLarge d) = ''kafka: payload exceeds MaxMessageBytes: '' @ d"
| "errorText (ErrOther d) = d"
| "errorText (Wrapped p e) = p @ '': '' @ errorText e"
| "errorText (Joined es) = joinLines (map errorText es)"

section \<open>Messages\<close>

record 'a DomainEvent =
  ev_Name :: gostring
  ev_EventID :: gostring
  ev_Data :: 'a

record 'a Command =
  cmd_Name :: gostring
  cmd_CommandID :: gostring
  cmd_Data :: 'a

record 'a AsyncQuery =
  q_Resource :: gostring
  q_QueryData :: 'a

record 'a Notification =
  n_Name :: gostring
  n_EventID :: gostring
  n_Data :: 'a

record From =
  CorrelationID :: gostring
  ReplyID :: gostring

text \<open>
  The first-phase envelope; an absent \<^verbatim>\<open>data\<close> or \<^verbatim>\<open>queryData\<close> is the empty raw message.
\<close>

record RawEnvelope =
  env_Name :: gostring
  env_EventID :: gostring
  env_CommandID :: gostring
  env_Resource :: gostring
  env_Data :: bytes
  env_QueryData :: bytes

definition emptyEnvelope :: RawEnvelope where
  "emptyEnvelope = \<lparr>env_Name = [], env_EventID = [], env_CommandID = [], env_Resource = [],
     env_Data = [], env_QueryData = []\<rparr>"

section \<open>Wire headers\<close>

definition hdr_ReplyID :: gostring where "hdr_ReplyID = ''x-reply_id''"
definition hdr_CorrelationID :: gostring where "hdr_CorrelationID = ''x-correlation-id''"
definition hdr_CompletionOnlySignal :: gostring where
  "hdr_CompletionOnlySignal = ''x-empty-completion''"
definition hdr_ServedQueryID :: gostring where "hdr_ServedQueryID = ''x-serveQuery-id''"
definition hdr_SourceApplication :: gostring where "hdr_SourceApplication = ''sourceApplication''"
definition hdr_ReplyTimeoutMillis :: gostring where
  "hdr_ReplyTimeoutMillis = ''x-reply-timeout-millis''"
definition hdr_ReplyError :: gostring where "hdr_ReplyError = ''x-reply-error''"

lemmas header_names = hdr_ReplyID_def hdr_CorrelationID_def hdr_CompletionOnlySignal_def
  hdr_ServedQueryID_def hdr_SourceApplication_def hdr_ReplyTimeoutMillis_def hdr_ReplyError_def

section \<open>Handlers\<close>

text \<open>A call of a user handler returns a value, returns an error, or panics.\<close>

datatype 'r hresult = HOk 'r | HErr goerror | HPanic gostring

type_synonym eventHandler = "bytes DomainEvent \<Rightarrow> unit hresult"
type_synonym commandHandler = "bytes Command \<Rightarrow> unit hresult"
type_synonym notificationHandler = "bytes Notification \<Rightarrow> unit hresult"
type_synonym 'r queryHandler = "bytes AsyncQuery \<Rightarrow> From \<Rightarrow> 'r hresult"

end
