(* ===== verification/Retry_Loops.thy ===== *)
theory Retry_Loops
  imports RC_Prelude
begin

text \<open>
  What the four retry loops of the RabbitMQ transport have in common (reconnect, rebuild of the
  publisher channel, rebuild of a consumer channel, restore of the consumers after a reconnect):
  sleep, try, and on failure double the delay up to a cap. A loop is given by the list of the
  outcomes its rounds meet and yields the list of its sleeps.
\<close>

text \<open>The number of rounds a loop makes: up to and including the first that does not fail.\<close>

fun rounds :: "('o \<Rightarrow> bool) \<Rightarrow> 'o list \<Rightarrow> nat" where
  "rounds failed [] = 0"
| "rounds failed (x # xs) = (if failed x then Suc (rounds failed xs) else 1)"

lemma rounds_le: "rounds failed xs \<le> length xs"
  by (induction xs) auto

lemma rounds_all_failed: "list_all failed xs \<Longrightarrow> rounds failed xs = length xs"
  by (induction xs) auto

lemma rounds_first_success:
  "list_all failed xs \<Longrightarrow> \<not> failed y \<Longrightarrow> rounds failed (xs @ y # ys) = Suc (length xs)"
  by (induction xs) auto

text \<open>
  The contract of a retry loop: \<open>sleeps b xs\<close> are the pauses of the loop entered with delay \<open>b\<close>
  when its rounds meet the outcomes \<open>xs\<close>. A round whose outcome is \<open>failed\<close> sleeps, then the
  delay doubles; any other outcome ends the loop, with or without the sleep of that round.
\<close>

locale retry_loop =
  fixes sleeps :: "duration \<Rightarrow> 'o list \<Rightarrow> duration list"
    and failed :: "'o \<Rightarrow> bool"
    and mx :: duration
  assumes sleeps_Nil: "sleeps b [] = []"
    and sleeps_failed: "failed x \<Longrightarrow> sleeps b (x # xs) = b # sleeps (nextBackoff mx b) xs"
    and sleeps_stop: "\<not> failed x \<Longrightarrow> sleeps b (x # xs) = [] \<or> sleeps b (x # xs) = [b]"
begin

lemma sleeps_schedule:
  "\<exists>n. n \<le> rounds failed xs \<and> rounds failed xs \<le> Suc n \<and>
     sleeps (backoffSeq i mx k) xs = map (\<lambda>j. backoffSeq i mx (k + j)) [0..<n]"
proof (induction xs arbitrary: k)
  case Nil
  then show ?case by (auto simp: sleeps_Nil)
next
  case (Cons x xs)
  show ?case
  proof (cases "failed x")
    case True
    obtain n where n: "n \<le> rounds failed xs" "rounds failed xs \<le> Suc n"
      "sleeps (backoffSeq i mx (Suc k)) xs = map (\<lambda>j. backoffSeq i mx (Suc k + j)) [0..<n]"
      using Cons [of "Suc k"] by blast
    have "sleeps (backoffSeq i mx k) (x # xs) = map (\<lambda>j. backoffSeq i mx (k + j)) [0..<Suc n]"
      using n(3) by (simp add: sleeps_failed [OF True] map_upt_Suc del: upt_Suc backoffSeq_Suc flip: backoffSeq_Suc)
    then show ?thesis using n(1,2) True by (intro exI [of _ "Suc n"]) simp
  next
    case False
    show ?thesis
      using sleeps_stop [OF False, of "backoffSeq i mx k" xs]
    proof
      assume "sleeps (backoffSeq i mx k) (x # xs) = []"
      then show ?thesis using False by (intro exI [of _ 0]) simp
    next
      assume "sleeps (backoffSeq i mx k) (x # xs) = [backoffSeq i mx k]"
      then show ?thesis using False by (intro exI [of _ 1]) simp
    qed
  qed
qed

text \<open>The sleeps are \<open>i\<close>, \<open>2 * i\<close>, \<open>4 * i\<close>, \<dots>, each capped, and there are as many as rounds (the last may be missing).\<close>

lemma sleeps_capped_doubling:
  assumes "0 < i" and "i \<le> mx" and "mx < 2 ^ 62"
  shows "\<exists>n. n \<le> rounds failed xs \<and> rounds failed xs \<le> Suc n \<and>
     sleeps i xs = map (\<lambda>j. min (i * 2 ^ j) mx) [0..<n]"
  using sleeps_schedule [of xs i 0] by (simp add: backoffSeq_closed [OF assms])

end

end
