(* ===== verification/Rabbit_Sender.thy ===== *)
theory Rabbit_Sender
  imports RC_Async Retry_Loops
begin

text \<open>
  The publisher of the RabbitMQ transport (\<^verbatim>\<open>internal/rabbit/sender.go\<close>) as a concurrent system:
  any number of \<^verbatim>\<open>SendWithConfirm\<close> and \<^verbatim>\<open>SendNoConfirm\<close> calls, one watcher per channel
  generation, the rebuild of a dead channel, and the broker. A critical section of the code (the
  statements between \<^verbatim>\<open>s.mu.Lock\<close> and \<^verbatim>\<open>s.mu.Unlock\<close>) is one operation on the state; everything
  between two critical sections can be interleaved with the other goroutines.

  The AMQP library and the broker are represented by what the code relies on: a channel in confirm
  mode numbers the publishes it accepts 1, 2, 3, \<dots>, whoever issued them; it gives a verdict only
  on tags it has assigned, one per tag; a closed channel stays closed and accepts no publish.
\<close>

section \<open>State\<close>

type_synonym chan = nat
type_synonym call = nat

text \<open>
  Where a call is. \<open>Registered t c\<close>: tag \<open>t\<close> registered, the channel snapshot is \<open>c\<close>, the context
  check and the publish are still to come. \<open>RolledBack e\<close>: the tag is rolled back, the slot is
  still held, \<open>e\<close> will be returned. \<open>Waiting t\<close>: in the final \<^verbatim>\<open>select\<close>. \<open>Returned None\<close> is a nil
  error. The \<open>N\<close> states belong to \<^verbatim>\<open>SendNoConfirm\<close>.
\<close>

datatype pc =
    Idle
  | WaitSlot
  | GotSlot
  | Registered nat "chan option"
  | RolledBack goerror
  | Published nat
  | Waiting nat
  | Returned "goerror option"
  | NWaitSlot
  | NGotSlot
  | NReady "chan option"
  | NSent "goerror option"
  | NReturned "goerror option"

text \<open>The fields of the struct \<^verbatim>\<open>Sender\<close>; \<open>publishSem\<close> names the call that holds the slot.\<close>

record sender =
  s_ch :: "chan option"
  nextTag :: nat
  pending :: "nat \<rightharpoonup> call"
  s_gen :: nat
  publishSem :: "call option"

text \<open>
  The system: the sender, the program points and result channels of the calls (buffer of one; the
  inner option is the error, \<open>None\<close> for nil), the watchers, the rebuild in progress (expected
  generation and fresh channel), and the broker's side of every channel: whether it is open, the
  publishes it accepted in order (\<open>None\<close> for a publish nobody waits for), and its verdicts by
  delivery tag (True for ack).
\<close>

record senderSys = sender +
  pcs :: "call \<Rightarrow> pc"
  resultCh :: "call \<Rightarrow> goerror option option"
  watchers :: "nat \<rightharpoonup> chan"
  rebuilding :: "(nat \<times> chan) option"
  chanOpen :: "chan \<Rightarrow> bool"
  pubs :: "chan \<Rightarrow> call option list"
  settled :: "chan \<Rightarrow> (nat \<times> bool) set"
  nextChan :: chan

definition initSys :: senderSys where
  "initSys = \<lparr>s_ch = None, nextTag = 0, pending = Map.empty, s_gen = 0, publishSem = None,
     pcs = (\<lambda>_. Idle), resultCh = (\<lambda>_. None), watchers = Map.empty, rebuilding = None,
     chanOpen = (\<lambda>_. False), pubs = (\<lambda>_. []), settled = (\<lambda>_. {}), nextChan = 0\<rparr>"

section \<open>Operations\<close>

definition errSenderChannelClosed :: goerror where
  "errSenderChannelClosed = ErrBrokerUnavailable ''publisher channel closed by broker''"

definition setPc :: "call \<Rightarrow> pc \<Rightarrow> senderSys \<Rightarrow> senderSys" where
  "setPc w p s = s\<lparr>pcs := (pcs s)(w := p)\<rparr>"

text \<open>A non-blocking send on a result channel: \<^verbatim>\<open>select { case ch <- v: default: }\<close>.\<close>

definition trySend :: "call \<Rightarrow> goerror option \<Rightarrow> senderSys \<Rightarrow> senderSys" where
  "trySend w v s =
     (if resultCh s w = None then s\<lparr>resultCh := (resultCh s)(w := Some v)\<rparr> else s)"

text \<open>One round of the loop of \<^verbatim>\<open>failPendingLocked\<close>, and the whole function.\<close>

definition failOne :: "senderSys \<Rightarrow> nat \<Rightarrow> senderSys" where
  "failOne s tag =
     (case pending s tag of
        None \<Rightarrow> s
      | Some w \<Rightarrow> (let s' = trySend w (Some errSenderChannelClosed) s
                  in s'\<lparr>pending := (pending s')(tag := None)\<rparr>))"

definition failPendingLocked :: "nat list \<Rightarrow> senderSys \<Rightarrow> senderSys" where
  "failPendingLocked ks s = (foldl failOne s (rangeKeys (pending s) ks))\<lparr>nextTag := 0\<rparr>"

text \<open>The registration section of \<^verbatim>\<open>SendWithConfirm\<close>; \<^verbatim>\<open>make(chan error, 1)\<close> is an empty result channel.\<close>

definition registerSend :: "call \<Rightarrow> senderSys \<Rightarrow> senderSys" where
  "registerSend w s =
     (let tag = nextTag s + 1
      in setPc w (Registered tag (s_ch s))
           (s\<lparr>nextTag := tag, pending := (pending s)(tag \<mapsto> w), resultCh := (resultCh s)(w := None)\<rparr>))"

definition rollbackTag :: "nat \<Rightarrow> call \<Rightarrow> senderSys \<Rightarrow> senderSys" where
  "rollbackTag tag w s =
     (if pending s tag = Some w
      then (let s' = s\<lparr>pending := (pending s)(tag := None)\<rparr>
            in if nextTag s' = tag then s'\<lparr>nextTag := nextTag s' - 1\<rparr> else s')
      else s)"

definition abandonWait :: "nat \<Rightarrow> call \<Rightarrow> senderSys \<Rightarrow> senderSys" where
  "abandonWait tag w s =
     (if pending s tag = Some w then s\<lparr>pending := (pending s)(tag := None)\<rparr> else s)"

definition nackError :: "nat \<Rightarrow> goerror" where
  "nackError tag = ErrBrokerUnavailable (''broker nacked delivery tag '' @ formatInt (int tag))"

text \<open>
  \<^verbatim>\<open>dispatchConfirm\<close>: the blocking send of the verdict follows the critical section; it is
  modelled together with it because the waiter has just been removed from the pending map, so no
  other goroutine can send on its channel in between (\<open>dispatch_never_blocks\<close> below).
\<close>

definition dispatchConfirm :: "nat \<Rightarrow> nat \<Rightarrow> bool \<Rightarrow> senderSys \<Rightarrow> senderSys" where
  "dispatchConfirm gen tag ack s =
     (if s_gen s \<noteq> gen then s
      else case pending s tag of
             None \<Rightarrow> s
           | Some w \<Rightarrow>
               (let s' = s\<lparr>pending := (pending s)(tag := None)\<rparr>
                in s'\<lparr>resultCh := (resultCh s')(w := Some (if ack then None else Some (nackError tag)))\<rparr>))"

text \<open>The critical section of \<^verbatim>\<open>onChannelClosed\<close>.\<close>

definition onChannelClosed :: "nat \<Rightarrow> nat list \<Rightarrow> senderSys \<Rightarrow> senderSys" where
  "onChannelClosed gen ks s = (if s_gen s \<noteq> gen then s else failPendingLocked ks s)"

text \<open>
  \<^verbatim>\<open>rebuild\<close> in its parts: a channel opened in confirm mode with its listeners registered, its
  installation in the second critical section, and giving it up because the generation moved on
  or the connection is down.
\<close>

definition rebuildOpen :: "nat \<Rightarrow> senderSys \<Rightarrow> senderSys" where
  "rebuildOpen expectedGen s =
     (let c = nextChan s
      in s\<lparr>nextChan := c + 1, chanOpen := (chanOpen s)(c := True), rebuilding := Some (expectedGen, c)\<rparr>)"

definition rebuildInstall :: "nat list \<Rightarrow> chan \<Rightarrow> senderSys \<Rightarrow> senderSys" where
  "rebuildInstall ks c s =
     (let s1 = failPendingLocked ks s;
          s2 = s1\<lparr>s_ch := Some c, s_gen := s_gen s1 + 1\<rparr>
      in s2\<lparr>rebuilding := None, watchers := (watchers s2)(s_gen s2 \<mapsto> c)\<rparr>)"

definition rebuildDiscard :: "chan \<Rightarrow> senderSys \<Rightarrow> senderSys" where
  "rebuildDiscard c s = s\<lparr>rebuilding := None, chanOpen := (chanOpen s)(c := False)\<rparr>"

text \<open>The broker accepts a publish on a channel.\<close>

definition accept :: "chan \<Rightarrow> call option \<Rightarrow> senderSys \<Rightarrow> senderSys" where
  "accept c w s = s\<lparr>pubs := (pubs s)(c := pubs s c @ [w])\<rparr>"

section \<open>Steps\<close>

datatype event =
    Call call
  | AcquireSlot call
  | SlotCtxDone call goerror
  | Register call
  | CtxErrBeforePublish call goerror
  | NilChannel call
  | PublishOk call
  | PublishErr call gostring
  | ReleaseSlot call
  | ReceiveResult call
  | WaitCtxDone call goerror
  | Confirm nat nat bool
  | ChannelClosed nat "nat list"
  | ReconnectDrain "nat list"
  | RebuildOpen nat
  | RebuildInstall "nat list"
  | RebuildDiscard
  | BrokerSettle chan nat bool
  | BrokerClose chan
  | NCall call
  | NAcquireSlot call
  | NSlotCtxDone call goerror
  | NSnapshot call
  | NNilChannel call
  | NPublishOk call
  | NPublishErr call goerror
  | NReleaseSlot call

text \<open>The events of \<^verbatim>\<open>SendNoConfirm\<close>.\<close>

fun isNoConfirm :: "event \<Rightarrow> bool" where
  "isNoConfirm (NCall w) = True"
| "isNoConfirm (NAcquireSlot w) = True"
| "isNoConfirm (NSlotCtxDone w e) = True"
| "isNoConfirm (NSnapshot w) = True"
| "isNoConfirm (NNilChannel w) = True"
| "isNoConfirm (NPublishOk w) = True"
| "isNoConfirm (NPublishErr w e) = True"
| "isNoConfirm (NReleaseSlot w) = True"
| "isNoConfirm _ = False"

definition notInitialized :: goerror where
  "notInitialized = ErrBrokerUnavailable ''publisher channel not initialized''"

text \<open>\<open>fire e s\<close> is the state after event \<open>e\<close>, or \<open>None\<close> when the event cannot happen in \<open>s\<close>.\<close>

fun fire :: "event \<Rightarrow> senderSys \<Rightarrow> senderSys option" where
  "fire (Call w) s = (if pcs s w = Idle then Some (setPc w WaitSlot s) else None)"
| "fire (AcquireSlot w) s =
     (if pcs s w = WaitSlot \<and> publishSem s = None
      then Some (setPc w GotSlot (s\<lparr>publishSem := Some w\<rparr>)) else None)"
| "fire (SlotCtxDone w e) s =
     (if pcs s w = WaitSlot \<and> isCtxError e then Some (setPc w (Returned (Some e)) s) else None)"
| "fire (Register w) s = (if pcs s w = GotSlot then Some (registerSend w s) else None)"
| "fire (CtxErrBeforePublish w e) s =
     (case pcs s w of
        Registered t c \<Rightarrow>
          if isCtxError e then Some (setPc w (RolledBack e) (rollbackTag t w s)) else None
      | _ \<Rightarrow> None)"
| "fire (NilChannel w) s =
     (case pcs s w of
        Registered t None \<Rightarrow> Some (setPc w (RolledBack notInitialized) (rollbackTag t w s))
      | _ \<Rightarrow> None)"
| "fire (PublishOk w) s =
     (case pcs s w of
        Registered t (Some c) \<Rightarrow>
          if chanOpen s c then Some (setPc w (Published t) (accept c (Some w) s)) else None
      | _ \<Rightarrow> None)"
| "fire (PublishErr w d) s =
     (case pcs s w of
        Registered t (Some c) \<Rightarrow>
          Some (setPc w (RolledBack (ErrBrokerUnavailable d)) (rollbackTag t w s))
      | _ \<Rightarrow> None)"
| "fire (ReleaseSlot w) s =
     (case pcs s w of
        RolledBack e \<Rightarrow> Some (setPc w (Returned (Some e)) (s\<lparr>publishSem := None\<rparr>))
      | Published t \<Rightarrow> Some (setPc w (Waiting t) (s\<lparr>publishSem := None\<rparr>))
      | _ \<Rightarrow> None)"
| "fire (ReceiveResult w) s =
     (case (pcs s w, resultCh s w) of
        (Waiting t, Some r) \<Rightarrow> Some (setPc w (Returned r) (s\<lparr>resultCh := (resultCh s)(w := None)\<rparr>))
      | _ \<Rightarrow> None)"
| "fire (WaitCtxDone w e) s =
     (case pcs s w of
        Waiting t \<Rightarrow>
          if isCtxError e then Some (setPc w (Returned (Some e)) (abandonWait t w s)) else None
      | _ \<Rightarrow> None)"
| "fire (Confirm gen tag ack) s =
     (case watchers s gen of
        Some c \<Rightarrow> if (tag, ack) \<in> settled s c then Some (dispatchConfirm gen tag ack s) else None
      | None \<Rightarrow> None)"
| "fire (ChannelClosed gen ks) s =
     (case watchers s gen of
        Some c \<Rightarrow> if \<not> chanOpen s c \<and> (s_gen s = gen \<longrightarrow> distinct ks \<and> set ks = dom (pending s))
                  then Some ((onChannelClosed gen ks s)\<lparr>watchers := (watchers s)(gen := None)\<rparr>)
                  else None
      | None \<Rightarrow> None)"
| "fire (ReconnectDrain ks) s =
     (if distinct ks \<and> set ks = dom (pending s) then Some (failPendingLocked ks s) else None)"
| "fire (RebuildOpen expectedGen) s =
     (if rebuilding s = None \<and> s_gen s = expectedGen then Some (rebuildOpen expectedGen s) else None)"
| "fire (RebuildInstall ks) s =
     (case rebuilding s of
        Some (expectedGen, c) \<Rightarrow>
          if s_gen s = expectedGen \<and> distinct ks \<and> set ks = dom (pending s)
          then Some (rebuildInstall ks c s) else None
      | None \<Rightarrow> None)"
| "fire RebuildDiscard s =
     (case rebuilding s of Some (expectedGen, c) \<Rightarrow> Some (rebuildDiscard c s) | None \<Rightarrow> None)"
| "fire (BrokerSettle c tag ack) s =
     (if 1 \<le> tag \<and> tag \<le> length (pubs s c) \<and> (tag, True) \<notin> settled s c \<and> (tag, False) \<notin> settled s c
      then Some (s\<lparr>settled := (settled s)(c := insert (tag, ack) (settled s c))\<rparr>) else None)"
| "fire (BrokerClose c) s = Some (s\<lparr>chanOpen := (chanOpen s)(c := False)\<rparr>)"
| "fire (NCall w) s = (if pcs s w = Idle then Some (setPc w NWaitSlot s) else None)"
| "fire (NAcquireSlot w) s =
     (if pcs s w = NWaitSlot \<and> publishSem s = None
      then Some (setPc w NGotSlot (s\<lparr>publishSem := Some w\<rparr>)) else None)"
| "fire (NSlotCtxDone w e) s =
     (if pcs s w = NWaitSlot \<and> isCtxError e then Some (setPc w (NReturned (Some e)) s) else None)"
| "fire (NSnapshot w) s = (if pcs s w = NGotSlot then Some (setPc w (NReady (s_ch s)) s) else None)"
| "fire (NNilChannel w) s =
     (case pcs s w of
        NReady None \<Rightarrow> Some (setPc w (NSent (Some notInitialized)) s)
      | _ \<Rightarrow> None)"
| "fire (NPublishOk w) s =
     (case pcs s w of
        NReady (Some c) \<Rightarrow>
          if chanOpen s c then Some (setPc w (NSent None) (accept c None s)) else None
      | _ \<Rightarrow> None)"
| "fire (NPublishErr w e) s =
     (case pcs s w of NReady (Some c) \<Rightarrow> Some (setPc w (NSent (Some e)) s) | _ \<Rightarrow> None)"
| "fire (NReleaseSlot w) s =
     (case pcs s w of
        NSent r \<Rightarrow> Some (setPc w (NReturned r) (s\<lparr>publishSem := None\<rparr>))
      | _ \<Rightarrow> None)"

text \<open>
  \<^verbatim>\<open>Reconnect\<close> drains the pending calls while the current channel is alive. It is meant to run on the
  dead channel of a lost connection, but a self-heal may have installed a channel of the new
  connection before the hook runs.
\<close>

fun drainsLive :: "event \<Rightarrow> senderSys \<Rightarrow> bool" where
  "drainsLive (ReconnectDrain ks) s = (case s_ch s of None \<Rightarrow> False | Some c \<Rightarrow> chanOpen s c)"
| "drainsLive _ s = False"

text \<open>
  Runs: \<open>fullStep\<close> is the whole sender; \<open>sendStep\<close> leaves out \<^verbatim>\<open>SendNoConfirm\<close> and the drain of a live channel.
\<close>

definition sendStep :: "senderSys \<Rightarrow> senderSys \<Rightarrow> bool" where
  "sendStep s t \<longleftrightarrow> (\<exists>e. \<not> isNoConfirm e \<and> \<not> drainsLive e s \<and> fire e s = Some t)"

definition fullStep :: "senderSys \<Rightarrow> senderSys \<Rightarrow> bool" where
  "fullStep s t \<longleftrightarrow> (\<exists>e. fire e s = Some t)"

section \<open>What the operations do\<close>

lemma failOne_eq:
  "failOne s k = s\<lparr>pending := (pending s)(k := None),
     resultCh := (\<lambda>w. if pending s k = Some w \<and> resultCh s w = None
                      then Some (Some errSenderChannelClosed) else resultCh s w)\<rparr>"
  by (rule senderSys.equality)
    (auto simp: failOne_def trySend_def Let_def fun_eq_iff split: option.splits)

lemma foldl_failOne:
  "foldl failOne s ks = s\<lparr>pending := (\<lambda>t. if t \<in> set ks then None else pending s t),
     resultCh := (\<lambda>w. if (\<exists>t \<in> set ks. pending s t = Some w) \<and> resultCh s w = None
                      then Some (Some errSenderChannelClosed) else resultCh s w)\<rparr>"
proof (induction ks arbitrary: s)
  case Nil
  then show ?case by simp
next
  case (Cons k ks)
  show ?case
    unfolding foldl_Cons Cons
    by (rule senderSys.equality) (auto simp: failOne_eq fun_eq_iff)
qed

lemma failPendingLocked_eq:
  assumes "distinct ks" and "set ks = dom (pending s)"
  shows "failPendingLocked ks s = s\<lparr>pending := Map.empty, nextTag := 0,
     resultCh := (\<lambda>w. if w \<in> ran (pending s) \<and> resultCh s w = None
                      then Some (Some errSenderChannelClosed) else resultCh s w)\<rparr>"
proof -
  have "keyOrder (pending s) ks" using assms by (simp add: keyOrder_def)
  moreover have "(\<lambda>t. if t \<in> dom (pending s) then None else pending s t) = Map.empty"
    by (auto simp: fun_eq_iff)
  moreover have "(\<exists>t \<in> dom (pending s). pending s t = Some w) \<longleftrightarrow> w \<in> ran (pending s)" for w
    by (auto simp: ran_def)
  ultimately show ?thesis by (simp add: failPendingLocked_def foldl_failOne assms(2))
qed

lemmas sender_ops = setPc_def registerSend_def rollbackTag_def abandonWait_def dispatchConfirm_def
  onChannelClosed_def rebuildOpen_def rebuildInstall_def rebuildDiscard_def accept_def Let_def

section \<open>Invariants of the whole sender\<close>

text \<open>The program points between acquiring and releasing the publish slot.\<close>

fun holdsSlot :: "pc \<Rightarrow> bool" where
  "holdsSlot GotSlot = True"
| "holdsSlot (Registered t c) = True"
| "holdsSlot (RolledBack e) = True"
| "holdsSlot (Published t) = True"
| "holdsSlot NGotSlot = True"
| "holdsSlot (NReady c) = True"
| "holdsSlot (NSent r) = True"
| "holdsSlot _ = False"

text \<open>The tag a call is responsible for.\<close>

fun tagOf :: "pc \<Rightarrow> nat option" where
  "tagOf (Registered t c) = Some t"
| "tagOf (Published t) = Some t"
| "tagOf (Waiting t) = Some t"
| "tagOf _ = None"

text \<open>A result channel with a value in its buffer.\<close>

definition hasResult :: "(call \<Rightarrow> 'a option) \<Rightarrow> call \<Rightarrow> bool" where
  "hasResult r w \<longleftrightarrow> r w \<noteq> None"

lemma hasResult_simps [simp]:
  "hasResult (r(v \<mapsto> x)) w \<longleftrightarrow> w = v \<or> hasResult r w"
  "hasResult (r(v := None)) w \<longleftrightarrow> w \<noteq> v \<and> hasResult r w"
  "hasResult (\<lambda>w. if w \<in> A \<and> r w = None then Some x else r w) w \<longleftrightarrow> w \<in> A \<or> hasResult r w"
  by (auto simp: hasResult_def)

definition slotInv :: "senderSys \<Rightarrow> bool" where
  "slotInv s \<longleftrightarrow> (\<forall>w. holdsSlot (pcs s w) \<longrightarrow> publishSem s = Some w)"

definition pendingInv :: "senderSys \<Rightarrow> bool" where
  "pendingInv s \<longleftrightarrow>
     (\<forall>t w. pending s t = Some w \<longrightarrow>
        tagOf (pcs s w) = Some t \<and> 1 \<le> t \<and> t \<le> nextTag s \<and> \<not> hasResult (resultCh s) w) \<and>
     (\<forall>w t. tagOf (pcs s w) = Some t \<longrightarrow> pending s t = Some w \<or> hasResult (resultCh s) w) \<and>
     (\<forall>w t c. pending s t = Some w \<longrightarrow> pcs s w = Registered t c \<longrightarrow> nextTag s = t)"

lemma pendingInvD:
  assumes "pendingInv s" and "pending s t = Some w"
  shows "tagOf (pcs s w) = Some t" and "1 \<le> t" and "t \<le> nextTag s" and "\<not> hasResult (resultCh s) w"
    and "pcs s w = Registered t c \<Longrightarrow> nextTag s = t"
  using assms by (auto simp: pendingInv_def)

lemma pendingInvI:
  assumes "\<And>t w. pending s t = Some w \<Longrightarrow>
      tagOf (pcs s w) = Some t \<and> 1 \<le> t \<and> t \<le> nextTag s \<and> \<not> hasResult (resultCh s) w"
    and "\<And>w t. tagOf (pcs s w) = Some t \<Longrightarrow> pending s t = Some w \<or> hasResult (resultCh s) w"
    and "\<And>w t c. pending s t = Some w \<Longrightarrow> pcs s w = Registered t c \<Longrightarrow> nextTag s = t"
  shows "pendingInv s"
  using assms unfolding pendingInv_def by blast

lemma pendingInv_waits:
  "pendingInv s \<Longrightarrow> tagOf (pcs s w) = Some t \<Longrightarrow> pending s t = Some w \<or> hasResult (resultCh s) w"
  by (auto simp: pendingInv_def)

lemma pendingInv_frame [simp]:
  "pendingInv (s\<lparr>s_ch := a\<rparr>) = pendingInv s" "pendingInv (s\<lparr>s_gen := b\<rparr>) = pendingInv s"
  "pendingInv (s\<lparr>publishSem := c\<rparr>) = pendingInv s" "pendingInv (s\<lparr>watchers := d\<rparr>) = pendingInv s"
  "pendingInv (s\<lparr>rebuilding := e\<rparr>) = pendingInv s" "pendingInv (s\<lparr>chanOpen := f\<rparr>) = pendingInv s"
  "pendingInv (s\<lparr>pubs := g\<rparr>) = pendingInv s" "pendingInv (s\<lparr>settled := h\<rparr>) = pendingInv s"
  "pendingInv (s\<lparr>nextChan := i\<rparr>) = pendingInv s"
  by (simp_all add: pendingInv_def)

definition baseInv :: "senderSys \<Rightarrow> bool" where
  "baseInv s \<longleftrightarrow> slotInv s \<and> pendingInv s"

lemma baseInv_init: "baseInv initSys"
  by (simp add: baseInv_def slotInv_def pendingInv_def initSys_def)

lemma slotInv_fire: "fire e s = Some t \<Longrightarrow> slotInv s \<Longrightarrow> slotInv t"
  by (cases e)
    (auto simp: slotInv_def sender_ops failPendingLocked_eq split: if_splits pc.splits option.splits,
      (metis holdsSlot.simps(3,4,7) option.inject)+)

lemma pendingInv_failPending:
  assumes "pendingInv s" and "distinct ks" and "set ks = dom (pending s)"
  shows "pendingInv (failPendingLocked ks s)"
proof -
  have "w \<in> ran (pending s) \<or> hasResult (resultCh s) w" if "tagOf (pcs s w) = Some t" for w t
    using pendingInv_waits [OF assms(1) that] by (auto intro: ranI)
  then show ?thesis by (simp add: pendingInv_def failPendingLocked_eq [OF assms(2,3)])
qed


lemma pendingInv_settle:
  assumes "pendingInv s" and "pending s u = Some w"
  shows "pendingInv (s\<lparr>pending := (pending s)(u := None), resultCh := (resultCh s)(w \<mapsto> x)\<rparr>)"
    (is "pendingInv ?t")
proof -
  have uniq: "u' \<noteq> u \<Longrightarrow> pending s u' \<noteq> Some w" for u'
    using pendingInvD(1) [OF assms(1), of u' w] pendingInvD(1) [OF assms] by auto
  have pend: "pending ?t u' = Some v \<longleftrightarrow> pending s u' = Some v \<and> v \<noteq> w" for u' v
    using uniq [of u'] assms(2) by (cases "u' = u") auto
  have [simp]: "pcs ?t = pcs s" "nextTag ?t = nextTag s" "resultCh ?t = (resultCh s)(w \<mapsto> x)"
    by simp_all
  show ?thesis
  proof (rule pendingInvI)
    show "tagOf (pcs ?t v) = Some u' \<and> 1 \<le> u' \<and> u' \<le> nextTag ?t \<and> \<not> hasResult (resultCh ?t) v"
      if "pending ?t u' = Some v" for u' v
      using that [unfolded pend] pendingInvD(1-4) [OF assms(1), of u' v] by simp
    show "pending ?t u' = Some v \<or> hasResult (resultCh ?t) v" if "tagOf (pcs ?t v) = Some u'" for u' v
      unfolding pend using that pendingInv_waits [OF assms(1), of v u'] by auto
    show "nextTag ?t = u'" if "pending ?t u' = Some v" "pcs ?t v = Registered u' c" for u' v c
      using that(1) [unfolded pend] that(2) pendingInvD(5) [OF assms(1), of u' v c] by simp
  qed
qed

lemma pendingInv_leave:
  assumes "pendingInv s" and "tagOf (pcs s w) = Some u" and "tagOf p = None"
  shows "pendingInv (setPc w p (abandonWait u w s))" (is "pendingInv ?t")
proof -
  have uniq: "u' \<noteq> u \<Longrightarrow> pending s u' \<noteq> Some w" for u'
    using pendingInvD(1) [OF assms(1), of u' w] assms(2) by auto
  have pend: "pending ?t u' = Some v \<longleftrightarrow> pending s u' = Some v \<and> v \<noteq> w" for u' v
    using uniq [of u'] by (cases "u' = u") (auto simp: setPc_def abandonWait_def)
  have [simp]: "pcs ?t v = (if v = w then p else pcs s v)" "nextTag ?t = nextTag s"
    "resultCh ?t = resultCh s" for v
    by (auto simp: setPc_def abandonWait_def)
  show ?thesis
  proof (rule pendingInvI)
    show "tagOf (pcs ?t v) = Some u' \<and> 1 \<le> u' \<and> u' \<le> nextTag ?t \<and> \<not> hasResult (resultCh ?t) v"
      if "pending ?t u' = Some v" for u' v
      using that pendingInvD(1-4) [OF assms(1), of u' v] by (simp add: pend)
    show "pending ?t u' = Some v \<or> hasResult (resultCh ?t) v" if "tagOf (pcs ?t v) = Some u'" for u' v
      using that pendingInv_waits [OF assms(1), of v u'] assms(3) by (auto simp: pend split: if_splits)
    show "nextTag ?t = u'" if "pending ?t u' = Some v" "pcs ?t v = Registered u' c" for u' v c
      using that pendingInvD(5) [OF assms(1), of u' v c] by (simp add: pend)
  qed
qed

lemma slotInv_solo:
  "slotInv s \<Longrightarrow> holdsSlot (pcs s v) \<Longrightarrow> holdsSlot (pcs s w) \<Longrightarrow> v = w"
  by (metis option.inject slotInv_def)

lemma pendingInv_rollback:
  assumes "pendingInv s" and "slotInv s" and "pcs s w = Registered u c" and "tagOf p = None"
  shows "pendingInv (setPc w p (rollbackTag u w s))"
proof (cases "pending s u = Some w")
  case False
  then have "rollbackTag u w s = abandonWait u w s" by (simp add: rollbackTag_def abandonWait_def)
  then show ?thesis using pendingInv_leave [of s w u p] assms by simp
next
  case True
  let ?t = "setPc w p (abandonWait u w s)"
  have top: "nextTag s = u" using pendingInvD(5) [OF assms(1) True] assms(3) by blast
  have inv: "pendingInv ?t" using pendingInv_leave [of s w u p] assms by simp
  have gone: "pending ?t u = None" using True by (simp add: setPc_def abandonWait_def)
  have "pendingInv (?t\<lparr>nextTag := u - 1\<rparr>)"
  proof (rule pendingInvI; simp)
    show "tagOf (pcs ?t v) = Some u' \<and> Suc 0 \<le> u' \<and> u' \<le> u - Suc 0 \<and> \<not> hasResult (resultCh ?t) v"
      if p: "pending ?t u' = Some v" for u' v
    proof -
      have "u' \<le> u" using pendingInvD(3) [OF inv p] top by (simp add: setPc_def abandonWait_def split: if_splits)
      moreover have "u' \<noteq> u" using gone p by auto
      ultimately show ?thesis using pendingInvD(1,2,4) [OF inv p] by auto
    qed
    show "pending ?t u' = Some v \<or> hasResult (resultCh ?t) v" if "tagOf (pcs ?t v) = Some u'" for u' v
      using pendingInv_waits [OF inv that] .
    show "u - Suc 0 = u'" if "pending ?t u' = Some v" "pcs ?t v = Registered u' c'" for u' v c'
      using that slotInv_solo [OF assms(2), of v w] assms(3,4)
      by (auto simp: setPc_def abandonWait_def split: if_splits)
  qed
  moreover have "setPc w p (rollbackTag u w s) = ?t\<lparr>nextTag := u - 1\<rparr>"
    using True top
    by (intro senderSys.equality) (auto simp: rollbackTag_def abandonWait_def setPc_def Let_def)
  ultimately show ?thesis by simp
qed

text \<open>A call that moves on without touching its tag.\<close>

lemma pendingInv_setPc:
  assumes "pendingInv s" and "tagOf p = tagOf (pcs s w)" and "\<And>u c. p \<noteq> Registered u c"
  shows "pendingInv (setPc w p s)" (is "pendingInv ?t")
proof (rule pendingInvI)
  have [simp]: "pcs ?t v = (if v = w then p else pcs s v)" "nextTag ?t = nextTag s"
    "resultCh ?t = resultCh s" "pending ?t = pending s" for v
    by (auto simp: setPc_def)
  show "tagOf (pcs ?t v) = Some u' \<and> 1 \<le> u' \<and> u' \<le> nextTag ?t \<and> \<not> hasResult (resultCh ?t) v"
    if "pending ?t u' = Some v" for u' v
    using that pendingInvD(1-4) [OF assms(1), of u' v] assms(2) by auto
  show "pending ?t u' = Some v \<or> hasResult (resultCh ?t) v" if "tagOf (pcs ?t v) = Some u'" for u' v
    using that pendingInv_waits [OF assms(1), of v u'] assms(2) by (auto split: if_splits)
  show "nextTag ?t = u'" if "pending ?t u' = Some v" "pcs ?t v = Registered u' c" for u' v c
    using that pendingInvD(5) [OF assms(1), of u' v c] assms(3) [of u' c] by (auto split: if_splits)
qed

lemma pendingInv_receive:
  assumes "pendingInv s" and "pcs s w = Waiting u" and "resultCh s w = Some r"
  shows "pendingInv (setPc w (Returned r) (s\<lparr>resultCh := (resultCh s)(w := None)\<rparr>))"
    (is "pendingInv ?t")
proof (rule pendingInvI)
  have np: "pending s u' \<noteq> Some w" for u'
    using pendingInvD(4) [OF assms(1), of u' w] assms(3) by (auto simp: hasResult_def)
  have [simp]: "pcs ?t v = (if v = w then Returned r else pcs s v)" "nextTag ?t = nextTag s"
    "resultCh ?t = (resultCh s)(w := None)" "pending ?t = pending s" for v
    by (auto simp: setPc_def)
  show "tagOf (pcs ?t v) = Some u' \<and> 1 \<le> u' \<and> u' \<le> nextTag ?t \<and> \<not> hasResult (resultCh ?t) v"
    if "pending ?t u' = Some v" for u' v
    using that np pendingInvD(1-4) [OF assms(1), of u' v] by auto
  show "pending ?t u' = Some v \<or> hasResult (resultCh ?t) v" if "tagOf (pcs ?t v) = Some u'" for u' v
    using that pendingInv_waits [OF assms(1), of v u'] by (auto split: if_splits)
  show "nextTag ?t = u'" if "pending ?t u' = Some v" "pcs ?t v = Registered u' c" for u' v c
    using that pendingInvD(5) [OF assms(1), of u' v c] by (simp split: if_splits)
qed

lemma pendingInv_fire:
  assumes "fire e s = Some t" and "slotInv s" and "pendingInv s"
  shows "pendingInv t"
proof (cases e)
  case (Register w)
  then have pc: "pcs s w = GotSlot" and t: "t = registerSend w s"
    using assms(1) by (auto split: if_splits)
  have fresh: "pending s (Suc (nextTag s)) = None"
    using pendingInvD(3) [OF assms(3), of "Suc (nextTag s)"]
    by (cases "pending s (Suc (nextTag s))") auto
  have others: "pending s u \<noteq> Some w" for u
    using pendingInvD(1) [OF assms(3), of u w] pc by auto
  have solo: "pcs s v \<noteq> Registered u c" for v u c
    using assms(2) pc by (auto simp: slotInv_def) (metis holdsSlot.simps(1,2) option.inject pc.distinct)
  show ?thesis
    using assms(3) fresh others solo unfolding t
    by (auto simp: pendingInv_def sender_ops intro: le_SucI) (metis option.distinct(1))
next
  case (ChannelClosed gen ks)
  with assms pendingInv_failPending [of s ks] show ?thesis
    by (auto simp: onChannelClosed_def split: if_splits option.splits)
next
  case (ReconnectDrain ks)
  with assms pendingInv_failPending [of s ks] show ?thesis by (auto split: if_splits)
next
  case (RebuildInstall ks)
  with assms pendingInv_failPending [of s ks] show ?thesis
    by (auto simp: rebuildInstall_def Let_def split: if_splits option.splits)
next
  case (Confirm g tag ack)
  with assms show ?thesis
    by (auto simp: dispatchConfirm_def Let_def pendingInv_settle split: if_splits option.splits)
next
  case (CtxErrBeforePublish w x)
  with assms show ?thesis by (auto simp: pendingInv_rollback split: if_splits pc.splits)
next
  case (NilChannel w)
  with assms show ?thesis by (auto simp: pendingInv_rollback split: pc.splits option.splits)
next
  case (PublishErr w x)
  with assms show ?thesis by (auto simp: pendingInv_rollback split: pc.splits option.splits)
next
  case (WaitCtxDone w x)
  with assms show ?thesis by (auto simp: pendingInv_leave split: if_splits pc.splits)
next
  case (ReceiveResult w)
  with assms show ?thesis by (auto simp: pendingInv_receive split: pc.splits option.splits)
qed (use assms in \<open>auto simp: pendingInv_setPc accept_def rebuildOpen_def rebuildDiscard_def Let_def
      split: if_splits pc.splits option.splits\<close>)

interpretation wholeSender: machine_invariant "\<lambda>s. s = initSys" fullStep baseInv
  by unfold_locales
    (auto simp: fullStep_def baseInv_def baseInv_init [unfolded baseInv_def]
      intro: slotInv_fire pendingInv_fire)

section \<open>Alignment of delivery tags without \<^verbatim>\<open>SendNoConfirm\<close>\<close>

text \<open>The broker acked the publish that call \<open>w\<close> made.\<close>

definition confirmed :: "senderSys \<Rightarrow> call \<Rightarrow> bool" where
  "confirmed s w \<longleftrightarrow>
     (\<exists>c t. 1 \<le> t \<and> t \<le> length (pubs s c) \<and> pubs s c ! (t - 1) = Some w \<and> (t, True) \<in> settled s c)"

definition chanInv :: "senderSys \<Rightarrow> bool" where
  "chanInv s \<longleftrightarrow>
     (\<forall>c. nextChan s \<le> c \<longrightarrow> pubs s c = [] \<and> \<not> chanOpen s c) \<and>
     (\<forall>c. s_ch s = Some c \<longrightarrow> c < nextChan s) \<and>
     (\<forall>w t c. pcs s w = Registered t (Some c) \<longrightarrow> c < nextChan s) \<and>
     (\<forall>g c. watchers s g = Some c \<longrightarrow> g \<le> s_gen s) \<and>
     (\<forall>c. watchers s (s_gen s) = Some c \<longrightarrow> s_ch s = Some c) \<and>
     (\<forall>g c. rebuilding s = Some (g, c) \<longrightarrow> c < nextChan s \<and> pubs s c = [] \<and> s_ch s \<noteq> Some c \<and>
        (\<forall>w t. pcs s w \<noteq> Registered t (Some c))) \<and>
     (\<forall>c t b. (t, b) \<in> settled s c \<longrightarrow> 1 \<le> t \<and> t \<le> length (pubs s c))"

definition alignInv :: "senderSys \<Rightarrow> bool" where
  "alignInv s \<longleftrightarrow>
     (\<forall>w t co. pending s t = Some w \<longrightarrow> pcs s w = Registered t co \<longrightarrow> co = s_ch s) \<and>
     (\<forall>c. s_ch s = Some c \<longrightarrow> chanOpen s c \<longrightarrow> (\<forall>w t. pcs s w \<noteq> Registered t (Some c)) \<longrightarrow>
        nextTag s = length (pubs s c)) \<and>
     (\<forall>c w t. s_ch s = Some c \<longrightarrow> chanOpen s c \<longrightarrow> pcs s w = Registered t (Some c) \<longrightarrow>
        t = Suc (length (pubs s c)) \<and> pending s t = Some w) \<and>
     (\<forall>t w. pending s t = Some w \<longrightarrow> pcs s w = Published t \<or> pcs s w = Waiting t \<longrightarrow>
        (\<exists>c. s_ch s = Some c \<and> t \<le> length (pubs s c) \<and> pubs s c ! (t - 1) = Some w))"

definition soundInv :: "senderSys \<Rightarrow> bool" where
  "soundInv s \<longleftrightarrow>
     (\<forall>w t. resultCh s w = Some None \<longrightarrow> pcs s w = Published t \<or> pcs s w = Waiting t \<longrightarrow> confirmed s w) \<and>
     (\<forall>w t c. resultCh s w = Some None \<longrightarrow> pcs s w = Registered t (Some c) \<longrightarrow> \<not> chanOpen s c) \<and>
     (\<forall>w. pcs s w = Returned None \<longrightarrow> confirmed s w)"

lemma chanInv_frame [simp]:
  "chanInv (s\<lparr>nextTag := a\<rparr>) = chanInv s" "chanInv (s\<lparr>pending := b\<rparr>) = chanInv s"
  "chanInv (s\<lparr>publishSem := c\<rparr>) = chanInv s" "chanInv (s\<lparr>resultCh := d\<rparr>) = chanInv s"
  by (simp_all add: chanInv_def)

lemma chanInv_setPc: "chanInv s \<Longrightarrow> (\<And>u c. p \<noteq> Registered u (Some c)) \<Longrightarrow> chanInv (setPc w p s)"
  by (auto simp: chanInv_def setPc_def)

lemma chanInv_register: "chanInv s \<Longrightarrow> chanInv (registerSend w s)"
  by (auto simp: chanInv_def registerSend_def setPc_def Let_def)

lemma chanInv_rollback: "chanInv s \<Longrightarrow> chanInv (rollbackTag u w s)"
  by (simp add: rollbackTag_def Let_def)

lemma chanInv_accept:
  "chanInv s \<Longrightarrow> pcs s w = Registered u (Some c) \<Longrightarrow> chanInv (accept c x s)"
  by (auto simp: chanInv_def accept_def le_SucI) (metis leD)+

lemma chanInv_close: "chanInv s \<Longrightarrow> chanInv (s\<lparr>chanOpen := (chanOpen s)(c := False)\<rparr>)"
  by (auto simp: chanInv_def)

lemma chanInv_closed:
  assumes "chanInv s" and "s_gen s = g \<Longrightarrow> distinct ks \<and> set ks = dom (pending s)"
  shows "chanInv ((onChannelClosed g ks s)\<lparr>watchers := (watchers s)(g := None)\<rparr>)"
  using assms by (auto simp: chanInv_def onChannelClosed_def failPendingLocked_eq)

lemma chanInv_settle:
  "chanInv s \<Longrightarrow> 1 \<le> u \<Longrightarrow> u \<le> length (pubs s c) \<Longrightarrow>
   chanInv (s\<lparr>settled := (settled s)(c := insert (u, b) (settled s c))\<rparr>)"
  by (fastforce simp: chanInv_def)

lemma chanInv_open: "chanInv s \<Longrightarrow> chanInv (rebuildOpen g s)"
  by (auto simp: chanInv_def rebuildOpen_def Let_def less_SucI) (metis less_irrefl le_less)+

lemma chanInv_discard: "chanInv s \<Longrightarrow> chanInv (rebuildDiscard c s)"
  by (auto simp: chanInv_def rebuildDiscard_def)

lemma chanInv_install:
  assumes "chanInv s" and "rebuilding s = Some (g, c)" and "distinct ks" and "set ks = dom (pending s)"
  shows "chanInv (rebuildInstall ks c s)"
  using assms by (auto simp: chanInv_def rebuildInstall_def Let_def failPendingLocked_eq le_SucI)

lemmas chanInv_ops = chanInv_setPc chanInv_register chanInv_rollback chanInv_accept chanInv_close
  chanInv_closed chanInv_settle chanInv_open chanInv_discard chanInv_install

lemma chanInv_fire:
  assumes "fire e s = Some t" and "\<not> isNoConfirm e" and "chanInv s"
  shows "chanInv t"
  using assms
  by (cases e)
    (auto simp: chanInv_ops abandonWait_def dispatchConfirm_def Let_def failPendingLocked_eq
      split: if_splits pc.splits option.splits)


lemma alignInvI:
  assumes "\<And>w t co. pending s t = Some w \<Longrightarrow> pcs s w = Registered t co \<Longrightarrow> co = s_ch s"
    and "\<And>c. s_ch s = Some c \<Longrightarrow> chanOpen s c \<Longrightarrow> (\<And>w t. pcs s w \<noteq> Registered t (Some c)) \<Longrightarrow>
      nextTag s = length (pubs s c)"
    and "\<And>c w t. s_ch s = Some c \<Longrightarrow> chanOpen s c \<Longrightarrow> pcs s w = Registered t (Some c) \<Longrightarrow>
      t = Suc (length (pubs s c)) \<and> pending s t = Some w"
    and "\<And>t w. pending s t = Some w \<Longrightarrow> pcs s w = Published t \<or> pcs s w = Waiting t \<Longrightarrow>
      \<exists>c. s_ch s = Some c \<and> t \<le> length (pubs s c) \<and> pubs s c ! (t - 1) = Some w"
  shows "alignInv s"
  using assms unfolding alignInv_def by blast

lemma alignInvD:
  assumes "alignInv s"
  shows "pending s t = Some w \<Longrightarrow> pcs s w = Registered t co \<Longrightarrow> co = s_ch s"
    and "s_ch s = Some c \<Longrightarrow> chanOpen s c \<Longrightarrow> (\<And>w t. pcs s w \<noteq> Registered t (Some c)) \<Longrightarrow>
      nextTag s = length (pubs s c)"
    and "s_ch s = Some c \<Longrightarrow> chanOpen s c \<Longrightarrow> pcs s w = Registered t (Some c) \<Longrightarrow>
      t = Suc (length (pubs s c)) \<and> pending s t = Some w"
    and "pending s t = Some w \<Longrightarrow> pcs s w = Published t \<or> pcs s w = Waiting t \<Longrightarrow>
      \<exists>c. s_ch s = Some c \<and> t \<le> length (pubs s c) \<and> pubs s c ! (t - 1) = Some w"
  using assms unfolding alignInv_def by blast+

lemma alignInv_frame [simp]:
  "alignInv (s\<lparr>publishSem := a\<rparr>) = alignInv s" "alignInv (s\<lparr>resultCh := b\<rparr>) = alignInv s"
  "alignInv (s\<lparr>watchers := c\<rparr>) = alignInv s" "alignInv (s\<lparr>rebuilding := d\<rparr>) = alignInv s"
  "alignInv (s\<lparr>settled := e\<rparr>) = alignInv s" "alignInv (s\<lparr>nextChan := f\<rparr>) = alignInv s"
  by (simp_all add: alignInv_def)

text \<open>Draining a dead channel, and a freshly installed one.\<close>

lemma alignInv_drained:
  assumes "pending s = Map.empty" and "nextTag s = 0"
    and "\<And>c. s_ch s = Some c \<Longrightarrow>
      \<not> chanOpen s c \<or> pubs s c = [] \<and> (\<forall>w t. pcs s w \<noteq> Registered t (Some c))"
  shows "alignInv s"
  using assms by (intro alignInvI) force+

text \<open>
  Steps that leave the channel, the counter and the publishes in progress alone: waiters may leave,
  channels may close, a published call may go on to wait.
\<close>

lemma alignInv_transfer:
  assumes "alignInv s" and ch: "s_ch t = s_ch s" and "nextTag t = nextTag s" and "pubs t = pubs s"
    and cl: "\<And>c. s_ch s = Some c \<Longrightarrow> chanOpen t c \<Longrightarrow> chanOpen s c"
    and reg: "\<And>v u c. pcs t v = Registered u c \<longleftrightarrow> pcs s v = Registered u c"
    and sent: "\<And>v u. pcs t v = Published u \<or> pcs t v = Waiting u \<Longrightarrow> pcs s v = Published u \<or> pcs s v = Waiting u"
    and pend: "\<And>v u. pending t u = Some v \<Longrightarrow> pending s u = Some v"
    and keep: "\<And>v u c. s_ch s = Some c \<Longrightarrow> chanOpen s c \<Longrightarrow> pending s u = Some v \<Longrightarrow>
      pcs s v = Registered u (Some c) \<Longrightarrow> pending t u = Some v"
  shows "alignInv t"
proof (rule alignInvI; unfold ch assms(3,4) reg)
  show "co = s_ch s" if "pending t u = Some v" "pcs s v = Registered u co" for v u co
    using alignInvD(1) [OF assms(1) pend [OF that(1)] that(2)] .
  show "nextTag s = length (pubs s c)"
    if "s_ch s = Some c" "chanOpen t c" "\<And>v u. pcs s v \<noteq> Registered u (Some c)" for c
    using alignInvD(2) [OF assms(1) that(1) cl [OF that(1,2)] that(3)] .
  show "u = Suc (length (pubs s c)) \<and> pending t u = Some v"
    if "s_ch s = Some c" "chanOpen t c" "pcs s v = Registered u (Some c)" for c v u
    using alignInvD(3) [OF assms(1) that(1) cl [OF that(1,2)] that(3)] keep that cl by blast
  show "\<exists>c. s_ch s = Some c \<and> u \<le> length (pubs s c) \<and> pubs s c ! (u - 1) = Some v"
    if "pending t u = Some v" "pcs t v = Published u \<or> pcs t v = Waiting u" for u v
    using alignInvD(4) [OF assms(1) pend [OF that(1)] sent [OF that(2)]] .
qed

lemma alignInv_setPc:
  assumes "alignInv s" and "\<And>u c. pcs s w \<noteq> Registered u c" and "\<And>u c. p \<noteq> Registered u c"
    and "\<And>u. p \<noteq> Published u" and "\<And>u. p = Waiting u \<Longrightarrow> pcs s w = Published u"
  shows "alignInv (setPc w p s)"
  by (rule alignInv_transfer [OF assms(1)])
    (use assms(2-) in \<open>auto simp: setPc_def split: if_splits\<close>)

lemma alignInv_forget:
  assumes "alignInv s" and "\<And>c w. s_ch s = Some c \<Longrightarrow> chanOpen s c \<Longrightarrow> pending s u = Some w \<Longrightarrow>
    pcs s w \<noteq> Registered u (Some c)"
  shows "alignInv (s\<lparr>pending := (pending s)(u := None)\<rparr>)"
  by (rule alignInv_transfer [OF assms(1)]) (use assms(2) in \<open>auto split: if_splits\<close>)

lemma alignInv_close: "alignInv s \<Longrightarrow> alignInv (s\<lparr>chanOpen := (chanOpen s)(c := False)\<rparr>)"
  by (rule alignInv_transfer) (auto split: if_splits)

lemma alignInv_open:
  assumes "alignInv s" and "chanInv s"
  shows "alignInv (rebuildOpen g s)"
proof -
  have "s_ch s \<noteq> Some (nextChan s)" using assms(2) by (auto simp: chanInv_def)
  then show ?thesis
    by (intro alignInv_transfer [OF assms(1)]) (auto simp: rebuildOpen_def Let_def split: if_splits)
qed

lemma alignInv_register:
  assumes "alignInv s" and "pendingInv s" and "slotInv s" and "pcs s w = GotSlot"
  shows "alignInv (registerSend w s)" (is "alignInv ?t")
proof -
  have solo: "pcs s v \<noteq> Registered u c" for v u c
    using slotInv_solo [OF assms(3), of v w] assms(4) by auto
  have others: "pending s u \<noteq> Some w" for u
    using pendingInvD(1) [OF assms(2), of u w] assms(4) by auto
  have pcs: "pcs ?t v = (if v = w then Registered (Suc (nextTag s)) (s_ch s) else pcs s v)" for v
    by (simp add: registerSend_def setPc_def Let_def)
  have [simp]: "s_ch ?t = s_ch s" "chanOpen ?t = chanOpen s" "nextTag ?t = Suc (nextTag s)"
    "pubs ?t = pubs s" "pending ?t = (pending s)(Suc (nextTag s) \<mapsto> w)"
    by (simp_all add: registerSend_def setPc_def Let_def)
  show ?thesis
  proof (rule alignInvI)
    show "co = s_ch ?t" if "pcs ?t v = Registered t co" for v t co
      using that solo [of v t co] by (simp add: pcs split: if_splits)
    show "nextTag ?t = length (pubs ?t c)"
      if "s_ch ?t = Some c" "\<And>v t. pcs ?t v \<noteq> Registered t (Some c)" for c
      using that(1) that(2) [of w "Suc (nextTag s)"] by (simp add: pcs)
    show "t = Suc (length (pubs ?t c)) \<and> pending ?t t = Some v"
      if "s_ch ?t = Some c" "chanOpen ?t c" "pcs ?t v = Registered t (Some c)" for c v t
      using that solo alignInvD(2) [OF assms(1), of c] by (simp add: pcs split: if_splits)
    show "\<exists>c. s_ch ?t = Some c \<and> t \<le> length (pubs ?t c) \<and> pubs ?t c ! (t - 1) = Some v"
      if "pending ?t t = Some v" "pcs ?t v = Published t \<or> pcs ?t v = Waiting t" for t v
      using that alignInvD(4) [OF assms(1), of t v] by (simp add: pcs split: if_splits)
  qed
qed


text \<open>The rollback of a publish that never reached the broker gives the tag back.\<close>

lemma alignInv_rollback:
  assumes "alignInv s" and "pendingInv s" and "slotInv s" and "pcs s w = Registered u co"
    and p: "\<And>v c. p \<noteq> Registered v c" "\<And>v. p \<noteq> Published v" "\<And>v. p \<noteq> Waiting v"
  shows "alignInv (setPc w p (rollbackTag u w s))" (is "alignInv ?t")
proof -
  have solo: "v = w" if "pcs s v = Registered u' c" for v u' c
    using slotInv_solo [OF assms(3), of v w] assms(4) that by auto
  have pcs: "pcs ?t v = (if v = w then p else pcs s v)" for v
    by (simp add: setPc_def rollbackTag_def Let_def)
  have reg: "pcs ?t v \<noteq> Registered u' c" for v u' c
    using p(1) solo [of v u' c] by (auto simp: pcs)
  have [simp]: "s_ch ?t = s_ch s" "chanOpen ?t = chanOpen s" "pubs ?t = pubs s"
    by (simp_all add: setPc_def rollbackTag_def Let_def)
  have pend: "pending s u' = Some v" if "pending ?t u' = Some v" for u' v
    using that by (auto simp: setPc_def rollbackTag_def Let_def split: if_splits)
  show ?thesis
  proof (rule alignInvI)
    show "nextTag ?t = length (pubs ?t c)" if c: "s_ch ?t = Some c" "chanOpen ?t c" for c
    proof (cases "co = Some c")
      case True
      then have "u = Suc (length (pubs s c))" and here: "pending s u = Some w"
        using alignInvD(3) [OF assms(1), of c w u] c assms(4) by auto
      moreover have "nextTag s = u" using pendingInvD(5) [OF assms(2) here assms(4)] .
      ultimately show ?thesis by (simp add: setPc_def rollbackTag_def Let_def)
    next
      case False
      then have "pending s u \<noteq> Some w" using alignInvD(1) [OF assms(1), of u w co] assms(4) c by auto
      moreover have "pcs s v \<noteq> Registered u' (Some c)" for v u'
        using solo [of v u' "Some c"] assms(4) False by auto
      ultimately show ?thesis
        using alignInvD(2) [OF assms(1), of c] c by (simp add: setPc_def rollbackTag_def)
    qed
    show "\<exists>c. s_ch ?t = Some c \<and> u' \<le> length (pubs ?t c) \<and> pubs ?t c ! (u' - 1) = Some v"
      if "pending ?t u' = Some v" "pcs ?t v = Published u' \<or> pcs ?t v = Waiting u'" for u' v
      using alignInvD(4) [OF assms(1) pend [OF that(1)]] that(2) p(2,3) [of u']
      by (auto simp: pcs split: if_splits)
  qed (use reg in auto)
qed

text \<open>The publish itself: on the current channel the broker assigns the very tag registered.\<close>

lemma alignInv_publish:
  assumes "alignInv s" and "pendingInv s" and "slotInv s" and "pcs s w = Registered u (Some c)"
    and "chanOpen s c"
  shows "alignInv (setPc w (Published u) (accept c (Some w) s))" (is "alignInv ?t")
proof -
  have solo: "v = w" if "pcs s v = Registered u' c'" for v u' c'
    using slotInv_solo [OF assms(3), of v w] assms(4) that by auto
  have pcs: "pcs ?t v = (if v = w then Published u else pcs s v)" for v
    by (simp add: setPc_def accept_def)
  have reg: "pcs ?t v \<noteq> Registered u' c'" for v u' c'
    using solo [of v u' c'] by (auto simp: pcs)
  have [simp]: "s_ch ?t = s_ch s" "chanOpen ?t = chanOpen s" "pending ?t = pending s"
    "nextTag ?t = nextTag s" "pubs ?t = (pubs s)(c := pubs s c @ [Some w])"
    by (simp_all add: setPc_def accept_def)
  show ?thesis
  proof (rule alignInvI)
    show "nextTag ?t = length (pubs ?t c')" if c': "s_ch ?t = Some c'" "chanOpen ?t c'" for c'
    proof (cases "c' = c")
      case True
      with alignInvD(3) [OF assms(1), of c w u] c' assms(4)
      have "u = Suc (length (pubs s c))" and here: "pending s u = Some w" by auto
      then show ?thesis
        using pendingInvD(5) [OF assms(2) here assms(4)] True by (simp add: setPc_def accept_def)
    next
      case False
      then have "pcs s v \<noteq> Registered u' (Some c')" for v u'
        using solo [of v u' "Some c'"] assms(4) by auto
      then show ?thesis using alignInvD(2) [OF assms(1), of c'] c' False by simp
    qed
    show "\<exists>c'. s_ch ?t = Some c' \<and> u' \<le> length (pubs ?t c') \<and> pubs ?t c' ! (u' - 1) = Some v"
      if "pending ?t u' = Some v" "pcs ?t v = Published u' \<or> pcs ?t v = Waiting u'" for u' v
    proof (cases "v = w")
      case True
      then have u': "u' = u" using that(2) by (simp add: pcs)
      then have here: "s_ch s = Some c"
        using alignInvD(1) [OF assms(1), of u w "Some c"] that(1) assms(4) True by simp
      then show ?thesis using alignInvD(3) [OF assms(1) here assms(5,4)] u' True
        by (simp add: setPc_def accept_def nth_append)
    next
      case False
      have "pending s u' = Some v" "pcs s v = Published u' \<or> pcs s v = Waiting u'"
        using that False by (simp_all add: pcs)
      from alignInvD(4) [OF assms(1) this] obtain c' where "s_ch s = Some c'" "u' \<le> length (pubs s c')" "pubs s c' ! (u' - 1) = Some v" by blast
      moreover have "1 \<le> u'" using pendingInvD(2) [OF assms(2)] that(1) by simp
      ultimately show ?thesis by (auto simp: nth_append)
    qed
  qed (use reg in auto)
qed

text \<open>A confirmation read by the watcher of the current generation is not for a publish in progress.\<close>

lemma alignInv_confirm:
  assumes "alignInv s" and "chanInv s" and "watchers s g = Some c" and "(u, b) \<in> settled s c"
  shows "alignInv (dispatchConfirm g u b s)"
proof (cases "s_gen s = g")
  case True
  have "s_ch s = Some c" "u \<le> length (pubs s c)"
    using assms(2-4) True unfolding chanInv_def by blast+
  then have "pcs s w \<noteq> Registered u (Some c')" if "s_ch s = Some c'" "chanOpen s c'" for c' w
    using alignInvD(3) [OF assms(1) that, of w u] that(1) by auto
  then show ?thesis
    using alignInv_forget [OF assms(1), of u] assms(1) True
    by (simp add: dispatchConfirm_def Let_def split: option.split)
qed (simp add: dispatchConfirm_def assms(1))

lemma alignInv_fire:
  assumes "fire e s = Some t" and "\<not> isNoConfirm e" and "slotInv s" and "pendingInv s" and "chanInv s"
    and "alignInv s" and "\<not> drainsLive e s"
  shows "alignInv t"
proof (cases e)
  case (Register w)
  with assms show ?thesis by (auto simp: alignInv_register split: if_splits)
next
  case (CtxErrBeforePublish w x)
  with assms show ?thesis by (auto simp: alignInv_rollback split: if_splits pc.splits)
next
  case (NilChannel w)
  with assms show ?thesis by (auto simp: alignInv_rollback split: pc.splits option.splits)
next
  case (PublishErr w x)
  with assms show ?thesis by (auto simp: alignInv_rollback split: pc.splits option.splits)
next
  case (PublishOk w)
  with assms show ?thesis by (auto simp: alignInv_publish split: if_splits pc.splits option.splits)
next
  case (WaitCtxDone w x)
  then obtain u where w: "pcs s w = Waiting u" and t: "t = setPc w (Returned (Some x)) (abandonWait u w s)"
    using assms(1) by (auto split: pc.splits if_splits)
  have "alignInv (abandonWait u w s)"
    using assms(6) w by (auto simp: abandonWait_def intro!: alignInv_forget)
  then show ?thesis unfolding t by (rule alignInv_setPc) (auto simp: abandonWait_def w)
next
  case (Confirm g u b)
  with assms show ?thesis by (auto simp: alignInv_confirm split: option.splits if_splits)
next
  case (ChannelClosed g ks)
  then obtain c where c: "watchers s g = Some c" "\<not> chanOpen s c"
    and ks: "s_gen s = g \<Longrightarrow> distinct ks \<and> set ks = dom (pending s)"
    and t: "t = (onChannelClosed g ks s)\<lparr>watchers := (watchers s)(g := None)\<rparr>"
    using assms(1) by (auto split: option.splits if_splits)
  have "s_gen s = g \<Longrightarrow> s_ch s = Some c" using assms(5) c(1) by (auto simp: chanInv_def)
  then show ?thesis
    unfolding t using ks c(2) assms(6)
    by (auto simp: onChannelClosed_def failPendingLocked_eq intro: alignInv_drained)
next
  case (ReconnectDrain ks)
  with assms(1,7) show ?thesis
    by (auto simp: failPendingLocked_eq split: if_splits option.splits intro: alignInv_drained)
next
  case (RebuildOpen g)
  with assms show ?thesis by (auto simp: alignInv_open split: if_splits)
next
  case (RebuildInstall ks)
  with assms(1,5) show ?thesis
    by (auto simp: rebuildInstall_def Let_def failPendingLocked_eq chanInv_def
        split: if_splits option.splits intro!: alignInv_drained)
next
  case RebuildDiscard
  with assms(1) show ?thesis
    by (intro alignInv_transfer [OF assms(6)]) (auto simp: rebuildDiscard_def split: option.splits if_splits)
next
  case (BrokerClose c)
  with assms show ?thesis by (auto simp: alignInv_close)
qed (use assms in \<open>auto intro!: alignInv_setPc split: if_splits pc.splits option.splits\<close>)

section \<open>A nil result means the broker acked\<close>

lemma confirmed_mono:
  assumes "confirmed s w" and "\<And>c. \<exists>xs. pubs t c = pubs s c @ xs" and "\<And>c. settled s c \<subseteq> settled t c"
  shows "confirmed t w"
proof -
  obtain c u where c: "1 \<le> u" "u \<le> length (pubs s c)" "pubs s c ! (u - 1) = Some w" "(u, True) \<in> settled s c"
    using assms(1) by (auto simp: confirmed_def)
  obtain xs where "pubs t c = pubs s c @ xs" using assms(2) by blast
  then have "u \<le> length (pubs t c) \<and> pubs t c ! (u - 1) = Some w"
    using c by (auto simp: nth_append)
  then show ?thesis using c assms(3) unfolding confirmed_def by blast
qed

lemma fire_history:
  assumes "fire e s = Some t"
  shows "\<exists>xs. pubs t c = pubs s c @ xs" and "settled s c \<subseteq> settled t c"
  using assms
  by (cases e; auto simp: sender_ops failPendingLocked_def foldl_failOne
      split: if_splits pc.splits option.splits)+

lemmas confirmed_fire = confirmed_mono [OF _ fire_history]

lemma soundInvI:
  assumes "\<And>w u. resultCh s w = Some None \<Longrightarrow> pcs s w = Published u \<or> pcs s w = Waiting u \<Longrightarrow> confirmed s w"
    and "\<And>w u c. resultCh s w = Some None \<Longrightarrow> pcs s w = Registered u (Some c) \<Longrightarrow> \<not> chanOpen s c"
    and "\<And>w. pcs s w = Returned None \<Longrightarrow> confirmed s w"
  shows "soundInv s"
  using assms unfolding soundInv_def by blast

lemma soundInvD:
  assumes "soundInv s"
  shows "resultCh s w = Some None \<Longrightarrow> pcs s w = Published u \<or> pcs s w = Waiting u \<Longrightarrow> confirmed s w"
    and "resultCh s w = Some None \<Longrightarrow> pcs s w = Registered u (Some c) \<Longrightarrow> \<not> chanOpen s c"
    and "pcs s w = Returned None \<Longrightarrow> confirmed s w"
  using assms unfolding soundInv_def by blast+

text \<open>Steps that create no new nil result and open no channel a publish in progress refers to.\<close>

lemma soundInv_transfer:
  assumes "fire e s = Some t" and "soundInv s"
    and res: "\<And>w. resultCh t w = Some None \<Longrightarrow> resultCh s w = Some None"
    and sent: "\<And>v u. resultCh s v = Some None \<Longrightarrow> pcs t v = Published u \<or> pcs t v = Waiting u \<Longrightarrow>
      pcs s v = Published u \<or> pcs s v = Waiting u"
    and reg: "\<And>v u c. resultCh t v = Some None \<Longrightarrow> pcs t v = Registered u (Some c) \<Longrightarrow>
      pcs s v = Registered u (Some c) \<and> (chanOpen t c \<longrightarrow> chanOpen s c)"
    and ret: "\<And>v. pcs t v = Returned None \<Longrightarrow> pcs s v = Returned None"
  shows "soundInv t"
proof (rule soundInvI)
  show "confirmed t v" if "resultCh t v = Some None" "pcs t v = Published u \<or> pcs t v = Waiting u" for v u
    using confirmed_fire [OF soundInvD(1) [OF assms(2) res [OF that(1)] sent [OF res [OF that(1)] that(2)]] assms(1,1)] .
  show "\<not> chanOpen t c" if "resultCh t v = Some None" "pcs t v = Registered u (Some c)" for v u c
    using soundInvD(2) [OF assms(2) res [OF that(1)], of u c] reg [OF that] by blast
  show "confirmed t v" if "pcs t v = Returned None" for v
    using confirmed_fire [OF soundInvD(3) [OF assms(2) ret [OF that]] assms(1,1)] .
qed

lemma soundInv_confirm:
  assumes "fire (Confirm g u b) s = Some t" and "pendingInv s" and "chanInv s" and "alignInv s"
    and "soundInv s"
  shows "soundInv t"
proof -
  obtain c where c: "watchers s g = Some c" "(u, b) \<in> settled s c" and t: "t = dispatchConfirm g u b s"
    using assms(1) by (auto split: option.splits if_splits)
  show ?thesis
  proof (cases "s_gen s = g \<and> b \<and> pending s u \<noteq> None")
    case False
    then show ?thesis
      by (intro soundInv_transfer [OF assms(1,5)])
        (auto simp: t dispatchConfirm_def Let_def split: if_splits option.splits)
  next
    case True
    then obtain w where w: "pending s u = Some w" and b: "b" by blast
    have cur: "s_ch s = Some c" and len: "1 \<le> u" "u \<le> length (pubs s c)"
      using assms(3) c True unfolding chanInv_def by blast+
    have t': "t = s\<lparr>pending := (pending s)(u := None), resultCh := (resultCh s)(w \<mapsto> None)\<rparr>"
      using True w by (simp add: t dispatchConfirm_def Let_def)
    have tag: "tagOf (pcs s w) = Some u" using pendingInvD(1) [OF assms(2) w] .
    have conf: "confirmed s w" if "pcs s w = Published u \<or> pcs s w = Waiting u"
      using alignInvD(4) [OF assms(4) w that] cur c(2) len b unfolding confirmed_def by auto
    show ?thesis
    proof (rule soundInvI)
      show "confirmed t v" if "resultCh t v = Some None" "pcs t v = Published k \<or> pcs t v = Waiting k" for v k
        using that conf tag soundInvD(1) [OF assms(5), of v k] confirmed_fire [OF _ assms(1,1), of v]
        by (cases "v = w") (auto simp: t')
      show "\<not> chanOpen t d" if "resultCh t v = Some None" "pcs t v = Registered k (Some d)" for v k d
      proof (cases "v = w")
        case True
        then have "k = u" "d = c"
          using that(2) tag alignInvD(1) [OF assms(4) w, of "Some d"] cur by (auto simp: t')
        then show ?thesis
          using alignInvD(3) [OF assms(4) cur, of w u] that(2) len True by (auto simp: t')
      next
        case False
        then show ?thesis using that soundInvD(2) [OF assms(5), of v k d] by (auto simp: t')
      qed
      show "confirmed t v" if "pcs t v = Returned None" for v
        using that soundInvD(3) [OF assms(5), of v] confirmed_fire [OF _ assms(1,1), of v] by (simp add: t')
    qed
  qed
qed

lemma soundInv_fire:
  assumes "fire e s = Some t" and "\<not> isNoConfirm e" and "pendingInv s" and "chanInv s"
    and "alignInv s" and "soundInv s"
  shows "soundInv t"
proof (cases e)
  case (Confirm g u b)
  with assms show ?thesis using soundInv_confirm by blast
next
  case (PublishOk w)
  then obtain u c where c: "pcs s w = Registered u (Some c)" "chanOpen s c"
    and t: "t = setPc w (Published u) (accept c (Some w) s)"
    using assms(1) by (auto split: pc.splits option.splits if_splits)
  then have "resultCh s w \<noteq> Some None" using soundInvD(2) [OF assms(6)] by blast
  then show ?thesis
    by (intro soundInv_transfer [OF assms(1,6)]) (auto simp: t setPc_def accept_def split: if_splits)
next
  case (ReceiveResult w)
  then obtain u r where w: "pcs s w = Waiting u" "resultCh s w = Some r"
    and t: "t = setPc w (Returned r) (s\<lparr>resultCh := (resultCh s)(w := None)\<rparr>)"
    using assms(1) by (auto split: pc.splits option.splits)
  have conf: "confirmed t v" if "confirmed s v" for v using confirmed_fire [OF that assms(1,1)] .
  show ?thesis
    using w conf soundInvD [OF assms(6)]
    by (intro soundInvI) (auto simp: t setPc_def split: if_splits)
next
  case (RebuildOpen g)
  have "pcs s v \<noteq> Registered u (Some (nextChan s))" for v u
    using assms(4) unfolding chanInv_def by blast
  with RebuildOpen assms(1) show ?thesis
    by (intro soundInv_transfer [OF assms(1,6)]) (auto simp: rebuildOpen_def Let_def split: if_splits)
qed ((rule soundInv_transfer [OF assms(1,6)];
      use assms(1,2) in \<open>auto simp: sender_ops failPendingLocked_eq split: if_splits pc.splits option.splits\<close>)+)

definition alignedInv :: "senderSys \<Rightarrow> bool" where
  "alignedInv s \<longleftrightarrow> slotInv s \<and> pendingInv s \<and> chanInv s \<and> alignInv s \<and> soundInv s"

interpretation confirmSender: machine_invariant "\<lambda>s. s = initSys" sendStep alignedInv
proof unfold_locales
  show "alignedInv s" if "s = initSys" for s
    using that baseInv_init
    by (simp add: alignedInv_def baseInv_def chanInv_def alignInv_def soundInv_def initSys_def)
  show "alignedInv t" if "alignedInv s" "sendStep s t" for s t
    using that unfolding alignedInv_def sendStep_def
    by (blast intro: slotInv_fire pendingInv_fire chanInv_fire alignInv_fire soundInv_fire)
qed


section \<open>The rebuild schedule\<close>

text \<open>
  The outcome of one \<^verbatim>\<open>rebuild\<close> of the retry loop: an error, or nil with \<^verbatim>\<open>installed\<close>. Every round of
  \<^verbatim>\<open>retryRebuild\<close> sleeps first.
\<close>

datatype rebuildRound = RebuildFails goerror | RebuildReturns bool

definition rebuildDelay :: duration where "rebuildDelay = goSecond"
definition rebuildMaxDelay :: duration where "rebuildMaxDelay = 30 * goSecond"

fun retryRebuild :: "duration \<Rightarrow> rebuildRound list \<Rightarrow> duration list" where
  "retryRebuild backoff [] = []"
| "retryRebuild backoff (RebuildFails e # rs) = backoff # retryRebuild (nextBackoff rebuildMaxDelay backoff) rs"
| "retryRebuild backoff (RebuildReturns installed # rs) = [backoff]"

fun rebuildFails :: "rebuildRound \<Rightarrow> bool" where
  "rebuildFails (RebuildFails e) = True"
| "rebuildFails (RebuildReturns i) = False"

interpretation rebuild: retry_loop retryRebuild rebuildFails rebuildMaxDelay
proof unfold_locales
  show "rebuildFails x \<Longrightarrow> retryRebuild b (x # xs) = b # retryRebuild (nextBackoff rebuildMaxDelay b) xs"
    for x b xs by (cases x) auto
  show "\<not> rebuildFails x \<Longrightarrow> retryRebuild b (x # xs) = [] \<or> retryRebuild b (x # xs) = [b]"
    for x b xs by (cases x) auto
qed simp

section \<open>Properties\<close>

definition goodTrace :: "event list" where
  "goodTrace = [RebuildOpen 0, RebuildInstall [], Call 7, AcquireSlot 7, Register 7, PublishOk 7, ReleaseSlot 7,
     BrokerSettle 0 1 True, Confirm 1 1 True, ReceiveResult 7]"

definition badTrace :: "event list" where
  "badTrace = [RebuildOpen 0, RebuildInstall [], NCall 0, NAcquireSlot 0, NSnapshot 0, NPublishOk 0,
     NReleaseSlot 0, Call 1, AcquireSlot 1, Register 1, PublishOk 1, ReleaseSlot 1,
     BrokerSettle 0 1 True, Confirm 1 1 True, ReceiveResult 1, BrokerSettle 0 2 False]"

lemmas trace_eval = initSys_def sender_ops failPendingLocked_def rangeKeys_def

fun isDrain :: "event \<Rightarrow> bool" where
  "isDrain (ReconnectDrain ks) = True"
| "isDrain _ = False"

lemma drainsLive_isDrain: "drainsLive e s \<Longrightarrow> isDrain e"
  by (cases e) auto

lemma sendTrace_reach:
  assumes "runTrace fire es initSys = Some t" and "list_all (\<lambda>e. \<not> isNoConfirm e \<and> \<not> isDrain e) es"
  shows "reach (\<lambda>s. s = initSys) sendStep t"
  by (rule runTrace_reach [OF assms(1)])
    (use assms(2) in \<open>auto simp: sendStep_def list_all_iff intro: reach_init dest: drainsLive_isDrain\<close>)

lemma fullTrace_reach:
  assumes "runTrace fire es initSys = Some t"
  shows "reach (\<lambda>s. s = initSys) fullStep t"
  by (rule runTrace_reach [OF assms]) (auto simp: fullStep_def intro: reach_init)



text \<open>Delivery tags stay aligned: when a call of the confirm-only sender publishes on the current
  channel, the tag the broker assigns to that publish is the tag the call registered.\<close>

theorem registered_tag_is_broker_tag:
  assumes "reach (\<lambda>s. s = initSys) sendStep s" and "pcs s w = Registered u (Some c)"
    and "s_ch s = Some c" and "fire (PublishOk w) s = Some t"
  shows "length (pubs t c) = u \<and> pubs t c ! (u - 1) = Some w \<and> pending t u = Some w"
proof -
  have "alignInv s" using confirmSender.reach_inv [OF assms(1)] by (simp add: alignedInv_def)
  then show ?thesis
    using alignInvD(3) [of s c w u] assms(2-4)
    by (auto simp: setPc_def accept_def nth_append split: if_splits)
qed

theorem registered_tag_is_broker_tag_witness:
  "\<exists>s t. reach (\<lambda>s. s = initSys) sendStep s \<and> fire (PublishOk 7) s = Some t \<and>
     length (pubs t 0) = 1 \<and> pubs t 0 ! (1 - 1) = Some 7 \<and> pending t 1 = Some 7"
proof -
  obtain s where run: "runTrace fire (take 5 goodTrace) initSys = Some s"
    and s: "pcs s 7 = Registered 1 (Some 0)" "s_ch s = Some 0" "chanOpen s 0"
    by (simp add: goodTrace_def trace_eval)
  then obtain t where t: "fire (PublishOk 7) s = Some t" by simp
  have "reach (\<lambda>s. s = initSys) sendStep s"
    by (rule sendTrace_reach [OF run]) (simp add: goodTrace_def)
  with registered_tag_is_broker_tag [OF this s(1,2) t] t show ?thesis by blast
qed

text \<open>With \<^verbatim>\<open>SendNoConfirm\<close> on the same confirm-mode channel the alignment is lost: its publish
  consumes a delivery tag of the broker but not \<^verbatim>\<open>nextTag\<close>. There is a run in which call 1 of
  \<^verbatim>\<open>SendWithConfirm\<close> returns nil although the broker nacked its message.\<close>

theorem noConfirm_breaks_alignment:
  "\<exists>s. reach (\<lambda>s. s = initSys) fullStep s \<and> pcs s 1 = Returned None \<and>
     pubs s 0 ! (2 - 1) = Some 1 \<and> (2, False) \<in> settled s 0 \<and> \<not> confirmed s 1"
proof -
  obtain s where run: "runTrace fire badTrace initSys = Some s" and s: "pcs s 1 = Returned None"
    "pubs s = (\<lambda>_. [])(0 := [None, Some 1])" "settled s = (\<lambda>_. {})(0 := {(2, False), (1, True)})"
    by (simp add: badTrace_def trace_eval)
  have "reach (\<lambda>s. s = initSys) fullStep s"
    by (rule fullTrace_reach [OF run])
  moreover have "\<not> confirmed s 1" using s by (auto simp: confirmed_def split: if_splits)
  ultimately show ?thesis using s by (intro exI [of _ s]) simp
qed

text \<open>A second way to lose the alignment: \<^verbatim>\<open>Reconnect\<close> resets \<^verbatim>\<open>nextTag\<close> of a channel that is alive. Call 0
  is published on the channel a self-heal installed; the reconnect hook then drains it and resets the
  counter; call 1 registers tag 1 on the same channel, is released by the confirm of call 0, and
  returns nil although the broker nacked its own message.\<close>

definition drainTrace :: "event list" where
  "drainTrace = [RebuildOpen 0, RebuildInstall [], BrokerClose 0, ChannelClosed 1 [], RebuildOpen 1, RebuildInstall [],
     Call 0, AcquireSlot 0, Register 0, PublishOk 0, ReleaseSlot 0, ReconnectDrain [1], ReceiveResult 0,
     Call 1, AcquireSlot 1, Register 1, PublishOk 1, ReleaseSlot 1, BrokerSettle 1 1 True, Confirm 2 1 True, ReceiveResult 1,
     BrokerSettle 1 2 False]"

theorem live_drain_breaks_alignment:
  "list_all (\<lambda>e. \<not> isNoConfirm e) drainTrace \<and>
   (\<exists>s. runTrace fire drainTrace initSys = Some s \<and> pcs s 0 = Returned (Some errSenderChannelClosed) \<and> pcs s 1 = Returned None \<and>
     pubs s 1 ! (2 - 1) = Some 1 \<and> (2, False) \<in> settled s 1 \<and> \<not> confirmed s 1)"
proof -
  obtain s where run: "runTrace fire drainTrace initSys = Some s"
    and s: "pcs s 0 = Returned (Some errSenderChannelClosed)" "pcs s 1 = Returned None"
    "pubs s = (\<lambda>_. [])(1 := [Some 0, Some 1])" "settled s = (\<lambda>_. {})(1 := {(2, False), (1, True)})"
    by (simp add: drainTrace_def trace_eval failOne_def trySend_def eval_nat_numeral)
  have "\<not> confirmed s 1" using s by (auto simp: confirmed_def split: if_splits)
  moreover have "list_all (\<lambda>e. \<not> isNoConfirm e) drainTrace" by (simp add: drainTrace_def)
  ultimately show ?thesis using run s by auto
qed

text \<open>C2: No waiter is lost, in the whole sender: a call waiting for its confirm is in the pending map
  under its tag, or its result is there to be received; and what takes a channel out of service
  (its close seen by its watcher, the drain of \<^verbatim>\<open>Reconnect\<close>, the installation of a fresh channel)
  leaves every waiting call with a result to receive.\<close>

theorem no_waiter_lost:
  assumes "reach (\<lambda>s. s = initSys) fullStep s" and "pcs s w = Waiting u"
  shows "(pending s u = Some w \<or> fire (ReceiveResult w) s \<noteq> None) \<and>
    (\<forall>e t. fire e s = Some t \<and> (\<exists>ks. e \<in> {ChannelClosed (s_gen s) ks, ReconnectDrain ks, RebuildInstall ks})
       \<longrightarrow> fire (ReceiveResult w) t \<noteq> None)"
proof -
  have inv: "pendingInv s" using wholeSender.reach_inv [OF assms(1)] by (simp add: baseInv_def)
  then have here: "pending s u = Some w \<or> hasResult (resultCh s) w"
    using pendingInv_waits [of s w u] assms(2) by simp
  have "fire (ReceiveResult w) t \<noteq> None"
    if "fire e s = Some t" "e \<in> {ChannelClosed (s_gen s) ks, ReconnectDrain ks, RebuildInstall ks}" for e t ks
  proof -
    have "pcs t w = Waiting u" and "hasResult (resultCh t) w"
      using that here assms(2)
      by (auto simp: onChannelClosed_def rebuildInstall_def Let_def failPendingLocked_eq hasResult_def ran_def
          split: if_splits option.splits)
    then show ?thesis by (auto simp: hasResult_def)
  qed
  with here assms(2) show ?thesis by (auto simp: hasResult_def)
qed

theorem no_waiter_lost_witness:
  "\<exists>s t. reach (\<lambda>s. s = initSys) fullStep s \<and> pcs s 7 = Waiting 1 \<and> pending s 1 = Some 7 \<and>
     fire (ChannelClosed 1 [1]) s = Some t \<and> fire (ReceiveResult 7) t \<noteq> None"
proof -
  obtain s where run: "runTrace fire (take 7 goodTrace @ [BrokerClose 0]) initSys = Some s"
    and s: "pcs s 7 = Waiting 1" "pending s 1 = Some 7" "s_gen s = 1" "fire (ChannelClosed 1 [1]) s \<noteq> None"
    by (simp add: goodTrace_def trace_eval)
  then obtain t where t: "fire (ChannelClosed 1 [1]) s = Some t" by auto
  have "reach (\<lambda>s. s = initSys) fullStep s"
    by (rule fullTrace_reach [OF run])
  moreover have "fire (ReceiveResult 7) t \<noteq> None"
    using no_waiter_lost [OF calculation s(1), THEN conjunct2, rule_format, of "ChannelClosed 1 [1]" t] s(3) t
    by auto
  ultimately show ?thesis using s(1,2) t by blast
qed

text \<open>C22: Bookkeeping of the whole sender: at most one call is between acquiring and releasing the
  publish slot; an entry of the pending map belongs to the one call responsible for that tag, the
  tag lies between 1 and \<^verbatim>\<open>nextTag\<close>, and the result channel of that call is empty, so neither the
  verdict of \<^verbatim>\<open>dispatchConfirm\<close> blocks nor the drain of \<^verbatim>\<open>failPendingLocked\<close> drops its error; and
  while the publish is in progress the entry is the newest (the claim of \<^verbatim>\<open>rollbackTag\<close>'s comment).\<close>

theorem pending_entries:
  assumes "reach (\<lambda>s. s = initSys) fullStep s"
  shows "(\<forall>v w. holdsSlot (pcs s v) \<and> holdsSlot (pcs s w) \<longrightarrow> v = w) \<and>
    (\<forall>u w. pending s u = Some w \<longrightarrow>
       tagOf (pcs s w) = Some u \<and> 1 \<le> u \<and> u \<le> nextTag s \<and> resultCh s w = None) \<and>
    (\<forall>u w c. pending s u = Some w \<and> pcs s w = Registered u c \<longrightarrow> nextTag s = u)"
proof -
  have "slotInv s" "pendingInv s" using wholeSender.reach_inv [OF assms] by (simp_all add: baseInv_def)
  then have "\<forall>u w. pending s u = Some w \<longrightarrow> resultCh s w = None"
    using pendingInvD(4) by (auto simp: hasResult_def)
  then show ?thesis
    using pendingInvD(1-3,5) [OF \<open>pendingInv s\<close>] slotInv_solo [OF \<open>slotInv s\<close>] by blast
qed

theorem pending_entries_witness:
  "\<exists>s. reach (\<lambda>s. s = initSys) fullStep s \<and> pending s 1 = Some 7 \<and> pcs s 7 = Registered 1 (Some 0) \<and>
     nextTag s = 1 \<and> resultCh s 7 = None"
proof -
  obtain s where run: "runTrace fire (take 5 goodTrace) initSys = Some s"
    and s: "pcs s 7 = Registered 1 (Some 0)" "pending s 1 = Some 7"
    by (simp add: goodTrace_def trace_eval)
  have "reach (\<lambda>s. s = initSys) fullStep s"
    by (rule fullTrace_reach [OF run])
  with pending_entries [OF this] s show ?thesis by blast
qed

end
