(* ===== verification/Rabbit_Config.thy ===== *)
theory Rabbit_Config
  imports RC_Async
begin

text \<open>
  Configuration of the RabbitMQ transport: the public \<^verbatim>\<open>RabbitConfig\<close> (\<^verbatim>\<open>rabbit/config.go\<close>) with its
  defaults and validation, the internal \<^verbatim>\<open>Config\<close> (\<^verbatim>\<open>internal/rabbit/config.go\<close>), and the
  conversion \<^verbatim>\<open>NewApplication\<close> applies (\<^verbatim>\<open>rabbit/builder.go\<close>). Pointers to a TLS configuration or
  a logger are object identities; \<open>slogDefault\<close> is the process-wide default logger.
\<close>

record RabbitConfig =
  rc_Host :: gostring
  rc_Port :: int
  rc_Username :: gostring
  rc_Password :: gostring
  rc_VirtualHost :: gostring
  rc_AppName :: gostring
  rc_ConnectionName :: gostring
  rc_DomainEventsExchange :: gostring
  rc_DirectMessagesExchange :: gostring
  rc_GlobalReplyExchange :: gostring
  rc_PrefetchCount :: int
  rc_ReplyTimeout :: duration
  rc_WriteTimeout :: duration
  rc_PersistentEvents :: bool
  rc_PersistentCommands :: bool
  rc_PersistentQueries :: bool
  rc_WithDLQRetry :: bool
  rc_RetryDelay :: duration
  rc_QueueType :: gostring
  rc_TLS :: "objref option"
  rc_Logger :: "objref option"

record Config =
  Host :: gostring
  Port :: int
  Username :: gostring
  Password :: gostring
  VHost :: gostring
  AppName :: gostring
  cfg_TLS :: "objref option"
  ConnectionName :: gostring
  DomainEventsExchange :: gostring
  DirectMessagesExchange :: gostring
  GlobalReplyExchange :: gostring
  PrefetchCount :: int
  ReplyTimeout :: duration
  WriteTimeout :: duration
  PersistentEvents :: bool
  PersistentCommands :: bool
  PersistentQueries :: bool
  WithDLQRetry :: bool
  RetryDelay :: duration
  QueueType :: gostring
  cfg_Logger :: "objref option"

definition WithDefaults :: "objref \<Rightarrow> RabbitConfig \<Rightarrow> RabbitConfig" where
  "WithDefaults slogDefault cfg = cfg\<lparr>
     rc_Host := orDefault [] (rc_Host cfg) ''localhost'',
     rc_Port := orDefault 0 (rc_Port cfg) 5672,
     rc_Username := orDefault [] (rc_Username cfg) ''guest'',
     rc_Password := orDefault [] (rc_Password cfg) ''guest'',
     rc_VirtualHost := orDefault [] (rc_VirtualHost cfg) ''/'',
     rc_DomainEventsExchange := orDefault [] (rc_DomainEventsExchange cfg) ''domainEvents'',
     rc_DirectMessagesExchange := orDefault [] (rc_DirectMessagesExchange cfg) ''directMessages'',
     rc_GlobalReplyExchange := orDefault [] (rc_GlobalReplyExchange cfg) ''globalReply'',
     rc_PrefetchCount := orDefault 0 (rc_PrefetchCount cfg) 250,
     rc_ReplyTimeout := orDefault 0 (rc_ReplyTimeout cfg) (15 * goSecond),
     rc_WriteTimeout := orDefault 0 (rc_WriteTimeout cfg) (30 * goSecond),
     rc_RetryDelay := (if \<not> rc_WithDLQRetry cfg \<or> rc_RetryDelay cfg = 0 then 1 * goSecond else rc_RetryDelay cfg),
     rc_QueueType := orDefault [] (rc_QueueType cfg) ''classic'',
     rc_ConnectionName := orDefault [] (rc_ConnectionName cfg) (rc_AppName cfg),
     rc_Logger := orDefault None (rc_Logger cfg) (Some slogDefault)\<rparr>"

definition NewConfigWithDefaults :: "objref \<Rightarrow> RabbitConfig" where
  "NewConfigWithDefaults slogDefault = \<lparr>
     rc_Host = ''localhost'', rc_Port = 5672, rc_Username = ''guest'', rc_Password = ''guest'',
     rc_VirtualHost = ''/'', rc_AppName = [], rc_ConnectionName = [],
     rc_DomainEventsExchange = ''domainEvents'', rc_DirectMessagesExchange = ''directMessages'',
     rc_GlobalReplyExchange = ''globalReply'', rc_PrefetchCount = 250,
     rc_ReplyTimeout = 15 * goSecond, rc_WriteTimeout = 30 * goSecond,
     rc_PersistentEvents = True, rc_PersistentCommands = True, rc_PersistentQueries = False,
     rc_WithDLQRetry = False, rc_RetryDelay = 1 * goSecond, rc_QueueType = ''classic'',
     rc_TLS = None, rc_Logger = Some slogDefault\<rparr>"

definition Validate :: "RabbitConfig \<Rightarrow> goerror option" where
  "Validate cfg =
     (if rc_AppName cfg = [] then Some (ErrOther ''reactive-commons: RabbitConfig.AppName is required'')
      else if rc_QueueType cfg \<in> {[], ''classic'', ''quorum''} then None
      else Some (ErrOther (''reactive-commons: RabbitConfig.QueueType must be '' @ goQuote ''classic''
             @ '' or '' @ goQuote ''quorum'' @ '', got '' @ goQuote (rc_QueueType cfg))))"

definition toInternalConfig :: "objref \<Rightarrow> RabbitConfig \<Rightarrow> Config" where
  "toInternalConfig slogDefault cfg = \<lparr>
     Host = rc_Host cfg, Port = rc_Port cfg, Username = rc_Username cfg, Password = rc_Password cfg,
     VHost = rc_VirtualHost cfg, AppName = rc_AppName cfg, cfg_TLS = rc_TLS cfg,
     ConnectionName = rc_ConnectionName cfg, DomainEventsExchange = rc_DomainEventsExchange cfg,
     DirectMessagesExchange = rc_DirectMessagesExchange cfg,
     GlobalReplyExchange = rc_GlobalReplyExchange cfg, PrefetchCount = rc_PrefetchCount cfg,
     ReplyTimeout = rc_ReplyTimeout cfg, WriteTimeout = rc_WriteTimeout cfg,
     PersistentEvents = rc_PersistentEvents cfg, PersistentCommands = rc_PersistentCommands cfg,
     PersistentQueries = rc_PersistentQueries cfg, WithDLQRetry = rc_WithDLQRetry cfg,
     RetryDelay = rc_RetryDelay cfg, QueueType = rc_QueueType cfg,
     cfg_Logger = (case rc_Logger cfg of None \<Rightarrow> Some slogDefault | Some l \<Rightarrow> Some l)\<rparr>"

text \<open>\<^verbatim>\<open>NewApplication\<close> up to the call of \<^verbatim>\<open>NewRabbitApp\<close>: an error, or the configuration it passes on.\<close>

definition NewApplication :: "objref \<Rightarrow> RabbitConfig \<Rightarrow> goerror + Config" where
  "NewApplication slogDefault cfg =
     (let cfg' = WithDefaults slogDefault cfg
      in case Validate cfg' of Some e \<Rightarrow> Inl e | None \<Rightarrow> Inr (toInternalConfig slogDefault cfg'))"

section \<open>Properties\<close>

lemma WithDefaults_idem: "WithDefaults l (WithDefaults l cfg) = WithDefaults l cfg"
  by (simp add: WithDefaults_def)

text \<open>A configuration the transport can run with: nothing it reads is left at its zero value.\<close>

definition resolved :: "Config \<Rightarrow> bool" where
  "resolved c \<longleftrightarrow> Host c \<noteq> [] \<and> Port c \<noteq> 0 \<and> Username c \<noteq> [] \<and> Password c \<noteq> [] \<and> VHost c \<noteq> [] \<and>
     AppName c \<noteq> [] \<and> ConnectionName c \<noteq> [] \<and> DomainEventsExchange c \<noteq> [] \<and>
     DirectMessagesExchange c \<noteq> [] \<and> GlobalReplyExchange c \<noteq> [] \<and> PrefetchCount c \<noteq> 0 \<and>
     ReplyTimeout c \<noteq> 0 \<and> WriteTimeout c \<noteq> 0 \<and> RetryDelay c \<noteq> 0 \<and>
     QueueType c \<in> {''classic'', ''quorum''} \<and> cfg_Logger c \<noteq> None"

text \<open>The fields the caller set reach the transport unchanged.\<close>

definition keepsSettings :: "RabbitConfig \<Rightarrow> Config \<Rightarrow> bool" where
  "keepsSettings cfg c \<longleftrightarrow>
     kept [] (rc_Host cfg) (Host c) \<and> kept 0 (rc_Port cfg) (Port c) \<and>
     kept [] (rc_Username cfg) (Username c) \<and> kept [] (rc_Password cfg) (Password c) \<and>
     kept [] (rc_VirtualHost cfg) (VHost c) \<and> AppName c = rc_AppName cfg \<and> cfg_TLS c = rc_TLS cfg \<and>
     kept [] (rc_ConnectionName cfg) (ConnectionName c) \<and>
     kept [] (rc_DomainEventsExchange cfg) (DomainEventsExchange c) \<and>
     kept [] (rc_DirectMessagesExchange cfg) (DirectMessagesExchange c) \<and>
     kept [] (rc_GlobalReplyExchange cfg) (GlobalReplyExchange c) \<and>
     kept 0 (rc_PrefetchCount cfg) (PrefetchCount c) \<and> kept 0 (rc_ReplyTimeout cfg) (ReplyTimeout c) \<and>
     kept 0 (rc_WriteTimeout cfg) (WriteTimeout c) \<and> PersistentEvents c = rc_PersistentEvents cfg \<and>
     PersistentCommands c = rc_PersistentCommands cfg \<and> PersistentQueries c = rc_PersistentQueries cfg \<and>
     WithDLQRetry c = rc_WithDLQRetry cfg \<and> kept [] (rc_QueueType cfg) (QueueType c) \<and>
     kept None (rc_Logger cfg) (cfg_Logger c)"

lemma toInternalConfig_keeps: "keepsSettings cfg (toInternalConfig l (WithDefaults l cfg))"
proof -
  have "kept None lg (case orDefault None lg (Some l) of None \<Rightarrow> Some l | Some a \<Rightarrow> Some a)" for lg
    by (cases lg) (simp_all add: orDefault_def kept_def)
  then show ?thesis by (simp add: keepsSettings_def toInternalConfig_def WithDefaults_def)
qed

lemma toInternalConfig_resolved:
  assumes "rc_AppName cfg \<noteq> []" and "rc_QueueType cfg \<in> {[], ''classic'', ''quorum''}"
  shows "resolved (toInternalConfig l (WithDefaults l cfg))"
proof -
  have "orDefault [] (rc_QueueType cfg) ''classic'' \<in> {''classic'', ''quorum''}"
    using assms(2) by (auto simp: orDefault_def)
  then show ?thesis
    using assms(1) by (simp add: resolved_def toInternalConfig_def WithDefaults_def split: option.split)
qed

lemma Validate_WithDefaults:
  "Validate (WithDefaults l cfg) = None \<longleftrightarrow>
     rc_AppName cfg \<noteq> [] \<and> rc_QueueType cfg \<in> {[], ''classic'', ''quorum''}"
  by (auto simp: Validate_def WithDefaults_def orDefault_def)

text \<open>C40: \<^verbatim>\<open>NewApplication\<close> accepts exactly the configurations with an application name and a queue
  type that is empty, classic or quorum; the internal configuration it builds has no field left at
  its zero value, keeps every value the caller set, and has the caller's retry delay when DLQ retry
  is on and one second otherwise. Applying the defaults twice changes nothing.\<close>

theorem NewApplication_resolves:
  "WithDefaults l (WithDefaults l cfg) = WithDefaults l cfg \<and>
   (case NewApplication l cfg of
      Inl e \<Rightarrow> \<not> (rc_AppName cfg \<noteq> [] \<and> rc_QueueType cfg \<in> {[], ''classic'', ''quorum''})
    | Inr c \<Rightarrow> rc_AppName cfg \<noteq> [] \<and> rc_QueueType cfg \<in> {[], ''classic'', ''quorum''} \<and>
        resolved c \<and> keepsSettings cfg c \<and>
        RetryDelay c = (if rc_WithDLQRetry cfg \<and> rc_RetryDelay cfg \<noteq> 0 then rc_RetryDelay cfg else goSecond))"
proof (cases "Validate (WithDefaults l cfg)")
  case None
  then have ok: "rc_AppName cfg \<noteq> []" "rc_QueueType cfg \<in> {[], ''classic'', ''quorum''}"
    using Validate_WithDefaults by blast+
  have "RetryDelay (toInternalConfig l (WithDefaults l cfg)) =
      (if rc_WithDLQRetry cfg \<and> rc_RetryDelay cfg \<noteq> 0 then rc_RetryDelay cfg else goSecond)"
    by (simp add: toInternalConfig_def WithDefaults_def)
  with None ok toInternalConfig_resolved [OF ok] toInternalConfig_keeps WithDefaults_idem show ?thesis
    by (simp add: NewApplication_def Let_def)
next
  case (Some e)
  then have "\<not> (rc_AppName cfg \<noteq> [] \<and> rc_QueueType cfg \<in> {[], ''classic'', ''quorum''})"
    using Validate_WithDefaults [of l cfg] by simp
  with Some WithDefaults_idem show ?thesis by (simp add: NewApplication_def Let_def)
qed

end
