(* ===== verification/ReplyRouter.thy ===== *)
theory ReplyRouter
  imports RC_Async
begin

text \<open>
  Correlation of query replies with their waiting callers
  (\<^verbatim>\<open>internal/replyrouter/replyrouter.go\<close>), shared by both transports. A reply channel has a buffer
  of one; \<^verbatim>\<open>Route\<close> is two steps, the load of the channel and the non-blocking send, because another
  goroutine may register or deregister in between.
\<close>

record ReplyPayload =
  p_Body :: bytes
  p_IsError :: bool
  p_IsEmpty :: bool

type_synonym replyChan = nat

text \<open>
  The router (\<open>channels\<close>, the \<^verbatim>\<open>sync.Map\<close>), the channels it made with their buffers, and the \<^verbatim>\<open>Route\<close>
  calls that have loaded a channel and not yet sent. Two histories are kept for the statements: the
  correlation id each channel was made for, and the replies passed to \<^verbatim>\<open>Route\<close>.
\<close>

record router =
  channels :: "gostring \<rightharpoonup> replyChan"
  buffer :: "replyChan \<Rightarrow> ReplyPayload option"
  nextReplyChan :: replyChan

record routerSys = router +
  inRoute :: "nat \<rightharpoonup> (replyChan \<times> gostring \<times> ReplyPayload)"
  madeFor :: "replyChan \<Rightarrow> gostring"
  routed :: "(gostring \<times> ReplyPayload) list"

definition NewReplyRouter :: routerSys where
  "NewReplyRouter = \<lparr>channels = Map.empty, buffer = (\<lambda>_. None), nextReplyChan = 0,
     inRoute = Map.empty, madeFor = (\<lambda>_. []), routed = []\<rparr>"

definition Register :: "gostring \<Rightarrow> routerSys \<Rightarrow> replyChan \<times> routerSys" where
  "Register correlationID s =
     (let ch = nextReplyChan s
      in (ch, s\<lparr>channels := (channels s)(correlationID \<mapsto> ch), nextReplyChan := Suc ch,
               buffer := (buffer s)(ch := None), madeFor := (madeFor s)(ch := correlationID)\<rparr>))"

text \<open>\<^verbatim>\<open>Route\<close>, first the load, then the \<^verbatim>\<open>select\<close> with its \<^verbatim>\<open>default\<close>.\<close>

definition Route_load :: "nat \<Rightarrow> gostring \<Rightarrow> ReplyPayload \<Rightarrow> routerSys \<Rightarrow> routerSys" where
  "Route_load i correlationID payload s =
     (let s' = s\<lparr>routed := routed s @ [(correlationID, payload)]\<rparr>
      in case channels s correlationID of
           None \<Rightarrow> s'
         | Some ch \<Rightarrow> s'\<lparr>inRoute := (inRoute s)(i \<mapsto> (ch, correlationID, payload))\<rparr>)"

definition Route_send :: "nat \<Rightarrow> routerSys \<Rightarrow> routerSys" where
  "Route_send i s =
     (case inRoute s i of
        None \<Rightarrow> s
      | Some (ch, cid, payload) \<Rightarrow>
          (let s' = s\<lparr>inRoute := (inRoute s)(i := None)\<rparr>
           in if buffer s ch = None then s'\<lparr>buffer := (buffer s)(ch \<mapsto> payload)\<rparr> else s'))"

definition Route :: "gostring \<Rightarrow> ReplyPayload \<Rightarrow> routerSys \<Rightarrow> routerSys" where
  "Route correlationID payload s = Route_send 0 (Route_load 0 correlationID payload s)"

definition Deregister :: "gostring \<Rightarrow> routerSys \<Rightarrow> routerSys" where
  "Deregister correlationID s = s\<lparr>channels := (channels s)(correlationID := None)\<rparr>"

text \<open>
  \<^verbatim>\<open>AwaitReply\<close>: \<open>received\<close> is what the \<^verbatim>\<open>select\<close> took, a payload or the end of the context.
  \<open>errorMessage\<close> is the library's decoding of the error body (\<open>None\<close> when it is not JSON). The result
  is an error, or the raw message, which is nil for a completion-only reply.
\<close>

definition AwaitReply :: "(bytes \<Rightarrow> gostring option) \<Rightarrow> ReplyPayload option \<Rightarrow> goerror + bytes option" where
  "AwaitReply errorMessage received =
     (case received of
        None \<Rightarrow> Inl ErrQueryTimeout
      | Some p \<Rightarrow>
          if p_IsError p
          then (case errorMessage (p_Body p) of
                  None \<Rightarrow> Inl (ErrOther (''reactive-commons: query handler error: '' @ p_Body p))
                | Some m \<Rightarrow> Inl (ErrOther (''reactive-commons: query handler error: '' @ m)))
          else if p_IsEmpty p then Inr None
          else Inr (Some (p_Body p)))"

section \<open>Interleavings\<close>

datatype revent =
    RegisterEv gostring
  | LoadEv nat gostring ReplyPayload
  | SendEv nat
  | ReceiveEv replyChan
  | DeregisterEv gostring

fun rfire :: "revent \<Rightarrow> routerSys \<Rightarrow> routerSys option" where
  "rfire (RegisterEv cid) s = Some (snd (Register cid s))"
| "rfire (LoadEv i cid p) s = (if inRoute s i = None then Some (Route_load i cid p s) else None)"
| "rfire (SendEv i) s = (if inRoute s i = None then None else Some (Route_send i s))"
| "rfire (ReceiveEv ch) s =
     (if buffer s ch = None then None else Some (s\<lparr>buffer := (buffer s)(ch := None)\<rparr>))"
| "rfire (DeregisterEv cid) s = Some (Deregister cid s)"

definition routerStep :: "routerSys \<Rightarrow> routerSys \<Rightarrow> bool" where
  "routerStep s t \<longleftrightarrow> (\<exists>e. rfire e s = Some t)"

definition routerInv :: "routerSys \<Rightarrow> bool" where
  "routerInv s \<longleftrightarrow>
     (\<forall>cid ch. channels s cid = Some ch \<longrightarrow> madeFor s ch = cid \<and> ch < nextReplyChan s) \<and>
     (\<forall>i ch cid p. inRoute s i = Some (ch, cid, p) \<longrightarrow>
        madeFor s ch = cid \<and> ch < nextReplyChan s \<and> (cid, p) \<in> set (routed s)) \<and>
     (\<forall>ch p. buffer s ch = Some p \<longrightarrow> ch < nextReplyChan s \<and> (madeFor s ch, p) \<in> set (routed s))"

lemma routerInvD:
  assumes "routerInv s"
  shows "channels s cid = Some ch \<Longrightarrow> madeFor s ch = cid \<and> ch < nextReplyChan s"
    and "inRoute s i = Some (ch, cid, p) \<Longrightarrow>
      madeFor s ch = cid \<and> ch < nextReplyChan s \<and> (cid, p) \<in> set (routed s)"
    and "buffer s ch = Some p \<Longrightarrow> ch < nextReplyChan s \<and> (madeFor s ch, p) \<in> set (routed s)"
  using assms unfolding routerInv_def by blast+

lemma routerInv_register:
  assumes "routerInv s"
  shows "routerInv (snd (Register cid s))"
  unfolding routerInv_def Register_def Let_def
  by (auto dest: routerInvD [OF assms] split: if_splits intro: less_SucI)

lemma routerInv_send: "routerInv s \<Longrightarrow> routerInv (Route_send i s)"
  by (fastforce simp: routerInv_def Route_send_def Let_def split: option.splits if_splits)

lemma routerInv_load: "routerInv s \<Longrightarrow> routerInv (Route_load i cid p s)"
  by (auto simp: routerInv_def Route_load_def Let_def split: option.splits)

lemma routerInv_fire:
  assumes "rfire e s = Some t" and "routerInv s"
  shows "routerInv t"
proof (cases e)
  case (ReceiveEv ch)
  with assms show ?thesis by (auto simp: routerInv_def split: if_splits)
next
  case (DeregisterEv cid)
  with assms show ?thesis by (auto simp: routerInv_def Deregister_def split: if_splits)
qed (use assms in \<open>auto intro: routerInv_register routerInv_send routerInv_load split: if_splits\<close>)

interpretation router: machine_invariant "\<lambda>s. s = NewReplyRouter" routerStep routerInv
proof unfold_locales
  show "routerInv s" if "s = NewReplyRouter" for s
    by (simp add: that routerInv_def NewReplyRouter_def)
  show "routerInv t" if "routerInv s" "routerStep s t" for s t
    using that routerInv_fire unfolding routerStep_def by blast
qed

section \<open>Properties\<close>

text \<open>C23: Replies are not mixed up: whatever a caller receives on its reply channel was passed to
  \<^verbatim>\<open>Route\<close> under the very correlation id the channel was registered for, under every interleaving
  of registrations, routes, deregistrations and receives.\<close>

theorem reply_isolation:
  assumes "reach (\<lambda>s. s = NewReplyRouter) routerStep s" and "buffer s ch = Some p"
  shows "(madeFor s ch, p) \<in> set (routed s)"
  using router.reach_inv [OF assms(1)] assms(2) by (auto simp: routerInv_def)

theorem reply_isolation_witness:
  "\<exists>s. reach (\<lambda>s. s = NewReplyRouter) routerStep s \<and>
     buffer s 0 = Some \<lparr>p_Body = ''42'', p_IsError = False, p_IsEmpty = False\<rparr> \<and>
     (''id-1'', \<lparr>p_Body = ''42'', p_IsError = False, p_IsEmpty = False\<rparr>) \<in> set (routed s)"
proof -
  let ?p = "\<lparr>p_Body = ''42'', p_IsError = False, p_IsEmpty = False\<rparr>"
  let ?es = "[RegisterEv ''id-1'', LoadEv 5 ''id-1'' ?p, SendEv 5]"
  obtain s where run: "runTrace rfire ?es NewReplyRouter = Some s"
    and s: "buffer s 0 = Some ?p" "madeFor s 0 = ''id-1''"
    by (simp add: Register_def Route_load_def Route_send_def NewReplyRouter_def Let_def)
  have "reach (\<lambda>s. s = NewReplyRouter) routerStep s"
    by (rule runTrace_reach [OF run]) (auto simp: routerStep_def intro: reach_init)
  with reply_isolation [OF this s(1)] s show ?thesis by auto
qed

text \<open>The first reply wins and late ones are dropped: after \<^verbatim>\<open>Register\<close> and a reply, the caller
  receives exactly that reply whatever is routed afterwards, decoded by \<^verbatim>\<open>AwaitReply\<close>'s conventions;
  after \<^verbatim>\<open>Deregister\<close> a reply changes no buffer.\<close>

theorem first_reply_wins:
  "(let (ch, s1) = Register cid s; s2 = Route cid p s1 in
      buffer s2 ch = Some p \<and> buffer (Route cid q s2) ch = Some p \<and>
      buffer (Route cid q (Deregister cid s2)) = buffer s2) \<and>
   AwaitReply em None = Inl ErrQueryTimeout \<and>
   AwaitReply em (Some p) =
     (if p_IsError p
      then Inl (ErrOther (''reactive-commons: query handler error: ''
                  @ (case em (p_Body p) of None \<Rightarrow> p_Body p | Some msg \<Rightarrow> msg)))
      else Inr (if p_IsEmpty p then None else Some (p_Body p)))"
  by (simp add: Register_def Route_def Route_load_def Route_send_def Deregister_def AwaitReply_def Let_def
      split: option.split)

end
