(* ===== verification/Rabbit_Gateway.thy ===== *)
theory Rabbit_Gateway
  imports Rabbit_Config ReplyRouter
begin

text \<open>
  The publishing side of the RabbitMQ transport: the gateway for commands, queries and replies
  (\<^verbatim>\<open>internal/rabbit/gateway.go\<close>), the event bus (\<^verbatim>\<open>internal/rabbit/eventbus.go\<close>) and the first phase
  of the converter (\<^verbatim>\<open>internal/rabbit/converter.go\<close>).

  \<^verbatim>\<open>encoding/json\<close> is a parameter: \<open>marshal\<close> gives the bytes of a value or the library's error text.
  The publisher is the interface \<^verbatim>\<open>messageSender\<close>: \<open>send\<close> gives the error of one publish. Every
  operation returns its result and the publishes it attempted, in order.
\<close>

section \<open>Headers and contexts\<close>

text \<open>
  Values of an AMQP table as far as the code tells them apart. A \<^verbatim>\<open>float64\<close> is represented by its
  integer part and is one whose integer part is an \<^verbatim>\<open>int64\<close> (Go leaves the conversion of others open).
\<close>

datatype hval =
    HNil
  | HString gostring
  | HBytes bytes
  | HInt int
  | HInt32 int
  | HInt64 int
  | HFloat64 int
  | HOther gostring

type_synonym table = "gostring \<rightharpoonup> hval"

definition headerString :: "table \<Rightarrow> gostring \<Rightarrow> gostring" where
  "headerString headers key = (case headers key of Some (HString s) \<Rightarrow> s | _ \<Rightarrow> [])"

text \<open>The number of milliseconds a header value stands for, before the check that it is positive.\<close>

fun headerMillis :: "hval \<Rightarrow> int option" where
  "headerMillis HNil = None"
| "headerMillis (HString n) = parseInt64 n"
| "headerMillis (HBytes n) = parseInt64 n"
| "headerMillis (HInt n) = Some n"
| "headerMillis (HInt32 n) = Some n"
| "headerMillis (HInt64 n) = Some n"
| "headerMillis (HFloat64 n) = Some n"
| "headerMillis (HOther d) = None"

definition headerDurationMillis :: "table \<Rightarrow> gostring \<Rightarrow> duration option" where
  "headerDurationMillis headers key =
     (case headers key of
        None \<Rightarrow> None
      | Some v \<Rightarrow> (case headerMillis v of
                    None \<Rightarrow> None
                  | Some ms \<Rightarrow> if ms \<le> 0 then None else Some (wrap64 (ms * goMillisecond))))"

text \<open>A context is its deadline, in nanoseconds on the clock \<open>now\<close> reads.\<close>

type_synonym ctx = "int option"

definition withTimeout :: "int \<Rightarrow> ctx \<Rightarrow> duration \<Rightarrow> ctx" where
  "withTimeout now ctx d = (case ctx of None \<Rightarrow> Some (now + d) | Some t \<Rightarrow> Some (min t (now + d)))"

section \<open>Publishing\<close>

record publishing =
  pb_Body :: bytes
  pb_Exchange :: gostring
  pb_RoutingKey :: gostring
  pb_Headers :: table
  pb_Persistent :: bool
  pb_Confirm :: bool
  pb_Ctx :: ctx

definition SendWithConfirm :: "ctx \<Rightarrow> bytes \<Rightarrow> gostring \<Rightarrow> gostring \<Rightarrow> table \<Rightarrow> bool \<Rightarrow> publishing" where
  "SendWithConfirm ctx body exchange routingKey headers persistent =
     \<lparr>pb_Body = body, pb_Exchange = exchange, pb_RoutingKey = routingKey, pb_Headers = headers,
      pb_Persistent = persistent, pb_Confirm = True, pb_Ctx = ctx\<rparr>"

definition SendNoConfirm :: "ctx \<Rightarrow> bytes \<Rightarrow> gostring \<Rightarrow> gostring \<Rightarrow> table \<Rightarrow> bool \<Rightarrow> publishing" where
  "SendNoConfirm ctx body exchange routingKey headers persistent =
     \<lparr>pb_Body = body, pb_Exchange = exchange, pb_RoutingKey = routingKey, pb_Headers = headers,
      pb_Persistent = persistent, pb_Confirm = False, pb_Ctx = ctx\<rparr>"

type_synonym sendFn = "publishing \<Rightarrow> goerror option"
type_synonym 'v marshalFn = "'v \<Rightarrow> gostring + bytes"

definition ToMessage :: "'v marshalFn \<Rightarrow> 'v \<Rightarrow> goerror + bytes" where
  "ToMessage marshal v = (case marshal v of Inl e \<Rightarrow> Inl (ErrDeserialize e) | Inr b \<Rightarrow> Inr b)"

definition Emit :: "'d DomainEvent marshalFn \<Rightarrow> sendFn \<Rightarrow> Config \<Rightarrow> ctx \<Rightarrow> 'd DomainEvent \<Rightarrow>
    goerror option \<times> publishing list" where
  "Emit marshal send cfg ctx event =
     (case ToMessage marshal event of
        Inl e \<Rightarrow> (Some e, [])
      | Inr body \<Rightarrow>
          (let headers = [hdr_SourceApplication \<mapsto> HString (AppName cfg)];
               pb = SendWithConfirm ctx body (DomainEventsExchange cfg) (ev_Name event) headers (PersistentEvents cfg)
           in (send pb, [pb])))"

definition EmitNotification :: "'d Notification marshalFn \<Rightarrow> sendFn \<Rightarrow> Config \<Rightarrow> ctx \<Rightarrow> 'd Notification \<Rightarrow>
    goerror option \<times> publishing list" where
  "EmitNotification marshal send cfg ctx n =
     (case ToMessage marshal n of
        Inl e \<Rightarrow> (Some e, [])
      | Inr body \<Rightarrow>
          (let headers = [hdr_SourceApplication \<mapsto> HString (AppName cfg)];
               pb = SendNoConfirm ctx body (DomainEventsExchange cfg) (n_Name n) headers False
           in (send pb, [pb])))"

record gateway =
  gw_cfg :: Config
  gw_replyQueue :: gostring
  gw_hasRouter :: bool

definition newGateway :: "Config \<Rightarrow> gateway" where
  "newGateway cfg = \<lparr>gw_cfg = cfg, gw_replyQueue = [], gw_hasRouter = False\<rparr>"

definition withReplySupport :: "gostring \<Rightarrow> gateway \<Rightarrow> gateway" where
  "withReplySupport replyQueue g = g\<lparr>gw_replyQueue := replyQueue, gw_hasRouter := True\<rparr>"

definition SendCommand :: "'d Command marshalFn \<Rightarrow> sendFn \<Rightarrow> gateway \<Rightarrow> ctx \<Rightarrow> 'd Command \<Rightarrow> gostring \<Rightarrow>
    goerror option \<times> publishing list" where
  "SendCommand marshal send g ctx cmd targetService =
     (case ToMessage marshal cmd of
        Inl e \<Rightarrow> (Some e, [])
      | Inr body \<Rightarrow>
          (let headers = [hdr_SourceApplication \<mapsto> HString (AppName (gw_cfg g))];
               pb = SendWithConfirm ctx body (DirectMessagesExchange (gw_cfg g)) targetService headers
                      (PersistentCommands (gw_cfg g))
           in (send pb, [pb])))"

section \<open>Queries\<close>

definition notStarted :: goerror where
  "notStarted = ErrOther (''reactive-commons: reply queue not initialized '' @ [CHR 0xE2, CHR 0x80, CHR 0x94]
     @ '' call Start() first'')"

definition requestCtx :: "gateway \<Rightarrow> int \<Rightarrow> ctx \<Rightarrow> ctx" where
  "requestCtx g now ctx =
     (if ctx = None \<and> ReplyTimeout (gw_cfg g) > 0 then withTimeout now ctx (ReplyTimeout (gw_cfg g)) else ctx)"

definition timeoutMs :: "int \<Rightarrow> ctx \<Rightarrow> gostring" where
  "timeoutMs now replyCtx =
     (case replyCtx of
        None \<Rightarrow> ''0''
      | Some deadline \<Rightarrow>
          (let ms = go_div (deadline - now) goMillisecond
           in formatInt (if ms < 0 then 0 else ms)))"

definition queryHeaders :: "gateway \<Rightarrow> gostring \<Rightarrow> gostring \<Rightarrow> gostring \<Rightarrow> table" where
  "queryHeaders g correlationID resource timeout =
     [hdr_ReplyID \<mapsto> HString (gw_replyQueue g), hdr_CorrelationID \<mapsto> HString correlationID,
      hdr_ServedQueryID \<mapsto> HString resource, hdr_ReplyTimeoutMillis \<mapsto> HString timeout,
      hdr_SourceApplication \<mapsto> HString (AppName (gw_cfg g))]"

text \<open>
  \<^verbatim>\<open>RequestReply\<close>. \<open>uuid\<close> is the fresh correlation id, \<open>now\<close> the clock, \<open>meanwhile\<close> what the rest of the
  program does with the reply router between the publish and the end of the wait (for a delivery
  that is the reply listener's \<^verbatim>\<open>Route\<close>; nothing at all for a timeout).
\<close>

definition RequestReply :: "'d AsyncQuery marshalFn \<Rightarrow> (bytes \<Rightarrow> gostring option) \<Rightarrow> sendFn \<Rightarrow>
    (publishing \<Rightarrow> routerSys \<Rightarrow> routerSys) \<Rightarrow> int \<Rightarrow> gostring \<Rightarrow> gateway \<Rightarrow> ctx \<Rightarrow> 'd AsyncQuery \<Rightarrow> gostring \<Rightarrow>
    routerSys \<Rightarrow> (goerror + bytes option) \<times> publishing list \<times> routerSys" where
  "RequestReply marshal errorMessage send meanwhile now uuid g ctx query targetService rs =
     (if gw_replyQueue g = [] \<or> \<not> gw_hasRouter g then (Inl notStarted, [], rs)
      else
        (let (ch, rs1) = Register uuid rs
         in case ToMessage marshal query of
              Inl e \<Rightarrow> (Inl e, [], Deregister uuid rs1)
            | Inr body \<Rightarrow>
                (let replyCtx = requestCtx g now ctx;
                     headers = queryHeaders g uuid (q_Resource query) (timeoutMs now replyCtx);
                     pb = SendWithConfirm replyCtx body (DirectMessagesExchange (gw_cfg g))
                            (targetService @ ''.query'') headers (PersistentQueries (gw_cfg g))
                 in case send pb of
                      Some e \<Rightarrow> (Inl e, [pb], Deregister uuid rs1)
                    | None \<Rightarrow>
                        (let rs2 = meanwhile pb rs1
                         in (AwaitReply errorMessage (buffer rs2 ch), [pb], Deregister uuid rs2)))))"

text \<open>\<^verbatim>\<open>Reply\<close>: \<open>None\<close> is a nil response.\<close>

definition Reply :: "'r marshalFn \<Rightarrow> sendFn \<Rightarrow> gateway \<Rightarrow> ctx \<Rightarrow> 'r option \<Rightarrow> From \<Rightarrow>
    goerror option \<times> publishing list" where
  "Reply marshal send g ctx response from =
     (let headers = [hdr_CorrelationID \<mapsto> HString (CorrelationID from),
                     hdr_SourceApplication \<mapsto> HString (AppName (gw_cfg g))];
          pub = (\<lambda>body hs. let pb = SendWithConfirm ctx body (GlobalReplyExchange (gw_cfg g)) (ReplyID from) hs False
                           in (send pb, [pb]))
      in case response of
           None \<Rightarrow> pub ''null'' (headers(hdr_CompletionOnlySignal \<mapsto> HString ''true''))
         | Some r \<Rightarrow> (case marshal r of
                        Inl e \<Rightarrow> (Some (Wrapped ''reactive-commons: marshal query reply'' (ErrOther e)), [])
                      | Inr body \<Rightarrow> pub body headers))"

text \<open>\<open>marshalError\<close> is \<^verbatim>\<open>json.Marshal(map[string]string{"errorMessage": errMsg})\<close>.\<close>

definition replyError :: "gostring marshalFn \<Rightarrow> sendFn \<Rightarrow> gateway \<Rightarrow> ctx \<Rightarrow> gostring \<Rightarrow> From \<Rightarrow>
    goerror option \<times> publishing list" where
  "replyError marshalError send g ctx errMsg from =
     (case marshalError errMsg of
        Inl e \<Rightarrow> (Some (Wrapped ''reactive-commons: marshal error reply'' (ErrOther e)), [])
      | Inr body \<Rightarrow>
          (let headers = [hdr_CorrelationID \<mapsto> HString (CorrelationID from), hdr_ReplyError \<mapsto> HString ''true'',
                          hdr_SourceApplication \<mapsto> HString (AppName (gw_cfg g))];
               pb = SendWithConfirm ctx body (GlobalReplyExchange (gw_cfg g)) (ReplyID from) headers False
           in (send pb, [pb])))"

definition replyContext :: "gateway \<Rightarrow> int \<Rightarrow> ctx \<Rightarrow> table \<Rightarrow> ctx" where
  "replyContext g now ctx headers =
     (case headerDurationMillis headers hdr_ReplyTimeoutMillis of
        Some d \<Rightarrow> withTimeout now ctx d
      | None \<Rightarrow> if ReplyTimeout (gw_cfg g) > 0 then withTimeout now ctx (ReplyTimeout (gw_cfg g)) else ctx)"

section \<open>Properties\<close>

lemma queryHeaders_lookup [simp]:
  "queryHeaders g cid res t hdr_ReplyTimeoutMillis = Some (HString t)"
  "queryHeaders g cid res t hdr_CorrelationID = Some (HString cid)"
  "queryHeaders g cid res t hdr_ReplyID = Some (HString (gw_replyQueue g))"
  by (simp_all add: queryHeaders_def header_names)

text \<open>The timeout header round trip: a query published with a deadline \<open>remaining\<close> nanoseconds away
  tells the service that answers it to bound its reply by the whole milliseconds of what remains,
  never more than the caller will wait; a deadline that has passed or is less than a millisecond
  away is not transmitted as a bound.\<close>

theorem timeout_header_roundtrip:
  assumes "\<bar>deadline - now\<bar> < 2 ^ 63"
  shows "headerDurationMillis (queryHeaders g cid res (timeoutMs now (Some deadline))) hdr_ReplyTimeoutMillis =
    (if deadline - now < goMillisecond then None
     else Some ((deadline - now) div goMillisecond * goMillisecond))"
proof -
  let ?d = "deadline - now" and ?ms = "(deadline - now) div goMillisecond"
  show ?thesis
  proof (cases "goMillisecond \<le> ?d")
    case True
    then have pos: "0 < ?ms" and q: "go_div ?d goMillisecond = ?ms"
      by (auto simp: go_div_nonneg goMillisecond_def)
    have le: "?ms * goMillisecond \<le> ?d" "?ms \<le> ?d"
      using True by (auto simp: goMillisecond_def)
    then have "parseInt64 (formatInt ?ms) = Some ?ms"
      using assms pos by (intro parseInt64_formatInt) auto
    moreover have "wrap64 (?ms * goMillisecond) = ?ms * goMillisecond"
      using le assms pos by (intro wrap64_id) (auto simp: goMillisecond_def)
    ultimately show ?thesis
      using True pos q by (simp add: timeoutMs_def headerDurationMillis_def Let_def)
  next
    case False
    have "go_div ?d goMillisecond \<le> 0"
    proof (cases "0 \<le> ?d")
      case True
      with False show ?thesis by (simp add: go_div_nonneg goMillisecond_def)
    next
      case False
      then show ?thesis by (simp add: go_div_def goMillisecond_def)
    qed
    then have "timeoutMs now (Some deadline) = formatInt 0" by (auto simp: timeoutMs_def Let_def)
    moreover have "parseInt64 (formatInt 0) = Some 0" by (intro parseInt64_formatInt) auto
    ultimately show ?thesis using False by (simp add: headerDurationMillis_def)
  qed
qed

theorem timeout_header_roundtrip_witness:
  "headerDurationMillis (queryHeaders (newGateway (toInternalConfig 0 (NewConfigWithDefaults 0))) ''id'' ''res''
      (timeoutMs 1000 (Some 15000001000))) hdr_ReplyTimeoutMillis = Some 15000000000"
  using timeout_header_roundtrip [of 15000001000 1000 "newGateway (toInternalConfig 0 (NewConfigWithDefaults 0))"
      "''id''" "''res''"]
  by (simp add: goMillisecond_def)

text \<open>The duration of the header is computed in 64 bits: for a number of milliseconds up to
  \<open>9223372036854\<close> (292 years) it is exact, whatever form the header has; one more and it wraps
  around to a negative duration, which makes the reply context expire at once.\<close>

theorem header_duration_range:
  assumes "headers key = Some v" and "headerMillis v = Some ms" and "0 < ms" and "ms \<le> 9223372036854"
  shows "headerDurationMillis headers key = Some (ms * 1000000) \<and>
    headerDurationMillis [key \<mapsto> HString ''9223372036855''] key = Some (- 9223372036854551616)"
proof -
  have "parseInt64 ''9223372036855'' = Some 9223372036855"
    by (simp add: parseInt64_def parseNat_def char_digit_def)
  moreover have "wrap64 (ms * goMillisecond) = ms * 1000000"
    using assms(3,4) by (simp add: wrap64_id goMillisecond_def)
  ultimately show ?thesis
    using assms by (simp add: headerDurationMillis_def wrap64_def goMillisecond_def)
qed

theorem header_duration_range_witness:
  "headerDurationMillis [hdr_ReplyTimeoutMillis \<mapsto> HInt32 1500] hdr_ReplyTimeoutMillis = Some 1500000000"
  using header_duration_range [of "[hdr_ReplyTimeoutMillis \<mapsto> HInt32 1500]" hdr_ReplyTimeoutMillis "HInt32 1500" 1500]
  by simp

end
