(* ===== verification/Rabbit_Topology.thy ===== *)
theory Rabbit_Topology
  imports Rabbit_Gateway
begin

text \<open>
  Declaration of the AMQP topology: \<^verbatim>\<open>internal/rabbit/topology.go\<close> and the \<^verbatim>\<open>declare*\<close> functions of
  \<^verbatim>\<open>internal/rabbit/application.go\<close>. The AMQP channel is a parameter \<open>ch\<close> that answers each call with
  nil or an error. A function yields the calls it made, in order, and its error.
\<close>

section \<open>Calls\<close>

datatype amqpCall =
    ExchangeDeclare gostring gostring bool
  | QueueDeclare gostring bool bool bool "table option"
  | QueueBind gostring gostring gostring

text \<open>\<open>ExchangeDeclare name kind durable\<close>, \<open>QueueDeclare name durable autoDelete exclusive args\<close> and
  \<open>QueueBind queue key exchange\<close>; the other flags of these calls are always false. A nil table is \<open>None\<close>.\<close>

type_synonym channel = "amqpCall \<Rightarrow> goerror option"
type_synonym declared = "amqpCall list \<times> goerror option"

text \<open>\<^verbatim>\<open>if err := call; err != nil { return wrap(err) }\<close>, and the code that follows it.\<close>

definition attempt :: "channel \<Rightarrow> amqpCall \<Rightarrow> (goerror \<Rightarrow> goerror) \<Rightarrow> declared" where
  "attempt ch c wrap = ([c], map_option wrap (ch c))"

definition andThen :: "declared \<Rightarrow> declared \<Rightarrow> declared" where
  "andThen a b = (case snd a of Some e \<Rightarrow> a | None \<Rightarrow> (fst a @ fst b, snd b))"

definition nothing :: declared where
  "nothing = ([], None)"

text \<open>\<^verbatim>\<open>for _, x := range xs { if err := f(x); err != nil { return err } }\<close>.\<close>

fun forEach :: "('a \<Rightarrow> declared) \<Rightarrow> 'a list \<Rightarrow> declared" where
  "forEach f [] = nothing"
| "forEach f (x # xs) = andThen (f x) (forEach f xs)"

definition quoted :: "gostring \<Rightarrow> gostring \<Rightarrow> goerror \<Rightarrow> goerror" where
  "quoted what name e = Wrapped (''reactive-commons: '' @ what @ goQuote name) e"

section \<open>Topology\<close>

definition argDeadLetterExchange :: gostring where "argDeadLetterExchange = ''x-dead-letter-exchange''"
definition argQueueType :: gostring where "argQueueType = ''x-queue-type''"
definition argMessageTTL :: gostring where "argMessageTTL = ''x-message-ttl''"

lemmas arg_names = argDeadLetterExchange_def argQueueType_def argMessageTTL_def

definition DeclareExchanges :: "channel \<Rightarrow> Config \<Rightarrow> declared" where
  "DeclareExchanges ch cfg =
     forEach (\<lambda>(name, kind, durable). attempt ch (ExchangeDeclare name kind durable) (quoted ''declare exchange '' name))
       [(DomainEventsExchange cfg, ''topic'', True), (DirectMessagesExchange cfg, ''direct'', True),
        (GlobalReplyExchange cfg, ''topic'', True)]"

definition EventsDLQExchange :: "Config \<Rightarrow> gostring" where
  "EventsDLQExchange cfg = AppName cfg @ ''.'' @ DomainEventsExchange cfg @ ''.DLQ''"

definition EventsRetryExchange :: "Config \<Rightarrow> gostring" where
  "EventsRetryExchange cfg = AppName cfg @ ''.'' @ DomainEventsExchange cfg"

definition DirectDLQExchange :: "Config \<Rightarrow> gostring" where
  "DirectDLQExchange cfg = DirectMessagesExchange cfg @ ''.DLQ''"

definition QueueArgs :: "Config \<Rightarrow> (gostring \<times> hval) list \<Rightarrow> table option" where
  "QueueArgs cfg extra =
     (let args = (if QueueType cfg \<noteq> [] then [(argQueueType, HString (QueueType cfg))] else []) @ extra
      in if args = [] then None else Some (map_of (rev args)))"

definition wrapQueueErr :: "gostring \<Rightarrow> goerror \<Rightarrow> goerror" where
  "wrapQueueErr name = quoted ''declare queue '' name"

definition eventsQueue :: "Config \<Rightarrow> gostring" where "eventsQueue cfg = AppName cfg @ ''.subsEvents''"
definition commandsQueue :: "Config \<Rightarrow> gostring" where "commandsQueue cfg = AppName cfg"
definition queriesQueue :: "Config \<Rightarrow> gostring" where "queriesQueue cfg = AppName cfg @ ''.query''"

definition DeclareEventsQueue :: "channel \<Rightarrow> Config \<Rightarrow> declared" where
  "DeclareEventsQueue ch cfg =
     (let name = eventsQueue cfg;
          extra = (if WithDLQRetry cfg then [(argDeadLetterExchange, HString (EventsDLQExchange cfg))] else [])
      in attempt ch (QueueDeclare name True False False (QueueArgs cfg extra)) (wrapQueueErr name))"

definition DeclareCommandsQueue :: "channel \<Rightarrow> Config \<Rightarrow> declared" where
  "DeclareCommandsQueue ch cfg =
     (let name = commandsQueue cfg;
          extra = (if WithDLQRetry cfg then [(argDeadLetterExchange, HString (DirectDLQExchange cfg))] else [])
      in attempt ch (QueueDeclare name True False False (QueueArgs cfg extra)) (wrapQueueErr name))"

definition DeclareQueriesQueue :: "channel \<Rightarrow> Config \<Rightarrow> declared" where
  "DeclareQueriesQueue ch cfg =
     (let name = queriesQueue cfg;
          extra = (if WithDLQRetry cfg then [(argDeadLetterExchange, HString (DirectDLQExchange cfg))] else [])
      in attempt ch (QueueDeclare name True False False (QueueArgs cfg extra)) (wrapQueueErr name))"

definition DeclareTempQueue :: "channel \<Rightarrow> gostring \<Rightarrow> declared" where
  "DeclareTempQueue ch name = attempt ch (QueueDeclare name False True True None) (wrapQueueErr name)"

definition BindQueue :: "channel \<Rightarrow> gostring \<Rightarrow> gostring \<Rightarrow> gostring \<Rightarrow> declared" where
  "BindQueue ch queue exchange routingKey =
     attempt ch (QueueBind queue routingKey exchange)
       (Wrapped (''reactive-commons: bind queue '' @ goQuote queue @ '' to '' @ goQuote exchange @ ''/'' @ goQuote routingKey))"

text \<open>\<^verbatim>\<open>int32(t.cfg.RetryDelay / time.Millisecond)\<close>.\<close>

definition retryTTL :: "Config \<Rightarrow> hval" where
  "retryTTL cfg = HInt32 (wrap32 (go_div (RetryDelay cfg) goMillisecond))"

definition DeclareEventsDLQRetry :: "channel \<Rightarrow> Config \<Rightarrow> gostring \<Rightarrow> declared" where
  "DeclareEventsDLQRetry ch cfg evq =
     (let retryExchange = EventsRetryExchange cfg;
          dlqExchange = EventsDLQExchange cfg;
          dlqQueue = evq @ ''.DLQ'';
          dlqArgs = QueueArgs cfg [(argDeadLetterExchange, HString retryExchange), (argMessageTTL, retryTTL cfg)]
      in andThen (attempt ch (ExchangeDeclare retryExchange ''topic'' True) (quoted ''declare events retry exchange '' retryExchange))
        (andThen (attempt ch (ExchangeDeclare dlqExchange ''topic'' True) (quoted ''declare events DLQ exchange '' dlqExchange))
        (andThen (attempt ch (QueueDeclare dlqQueue True False False dlqArgs) (quoted ''declare events DLQ queue '' dlqQueue))
        (andThen (attempt ch (QueueBind dlqQueue ''#'' dlqExchange) (Wrapped ''reactive-commons: bind events DLQ queue''))
                 (attempt ch (QueueBind evq ''#'' retryExchange)
                    (Wrapped ''reactive-commons: bind events queue to retry exchange''))))))"

definition DeclareDirectDLQRetry :: "channel \<Rightarrow> Config \<Rightarrow> gostring \<Rightarrow> gostring \<Rightarrow> declared" where
  "DeclareDirectDLQRetry ch cfg originQueue routingKey =
     (let dlqExchange = DirectDLQExchange cfg;
          dlqQueue = originQueue @ ''.DLQ'';
          dlqArgs = QueueArgs cfg [(argDeadLetterExchange, HString (DirectMessagesExchange cfg)), (argMessageTTL, retryTTL cfg)]
      in andThen (attempt ch (ExchangeDeclare dlqExchange ''direct'' True) (quoted ''declare direct DLQ exchange '' dlqExchange))
        (andThen (attempt ch (QueueDeclare dlqQueue True False False dlqArgs) (quoted ''declare direct DLQ queue '' dlqQueue))
                 (attempt ch (QueueBind dlqQueue routingKey dlqExchange) (Wrapped ''reactive-commons: bind direct DLQ queue''))))"

section \<open>The application's topology\<close>

text \<open>What the declarations read of the application: its configuration, the registered names of each
  kind (in the order the registry lists them) and the names of the temporary queues.\<close>

record appNames =
  an_cfg :: Config
  an_EventNames :: "gostring list"
  an_CommandNames :: "gostring list"
  an_QueryNames :: "gostring list"
  an_NotificationNames :: "gostring list"
  an_notificationQueueName :: gostring
  an_replyQueueName :: gostring

definition declareEvents :: "channel \<Rightarrow> appNames \<Rightarrow> declared" where
  "declareEvents ch a =
     (if an_EventNames a = [] then nothing
      else let cfg = an_cfg a; qName = eventsQueue cfg
           in andThen (DeclareEventsQueue ch cfg)
             (andThen (if WithDLQRetry cfg then DeclareEventsDLQRetry ch cfg qName else nothing)
                      (forEach (BindQueue ch qName (DomainEventsExchange cfg)) (an_EventNames a))))"

definition declareCommands :: "channel \<Rightarrow> appNames \<Rightarrow> declared" where
  "declareCommands ch a =
     (if an_CommandNames a = [] then nothing
      else let cfg = an_cfg a; qName = commandsQueue cfg
           in andThen (DeclareCommandsQueue ch cfg)
             (andThen (if WithDLQRetry cfg then DeclareDirectDLQRetry ch cfg qName (AppName cfg) else nothing)
                      (BindQueue ch qName (DirectMessagesExchange cfg) (AppName cfg))))"

definition declareQueries :: "channel \<Rightarrow> appNames \<Rightarrow> declared" where
  "declareQueries ch a =
     (if an_QueryNames a = [] then nothing
      else let cfg = an_cfg a; qName = queriesQueue cfg
           in andThen (DeclareQueriesQueue ch cfg)
             (andThen (if WithDLQRetry cfg then DeclareDirectDLQRetry ch cfg qName qName else nothing)
                      (BindQueue ch qName (DirectMessagesExchange cfg) qName)))"

definition declareNotifications :: "channel \<Rightarrow> appNames \<Rightarrow> declared" where
  "declareNotifications ch a =
     (if an_notificationQueueName a = [] then nothing
      else andThen (DeclareTempQueue ch (an_notificationQueueName a))
             (forEach (BindQueue ch (an_notificationQueueName a) (DomainEventsExchange (an_cfg a))) (an_NotificationNames a)))"

definition declareReplies :: "channel \<Rightarrow> appNames \<Rightarrow> declared" where
  "declareReplies ch a =
     andThen (DeclareTempQueue ch (an_replyQueueName a))
             (BindQueue ch (an_replyQueueName a) (GlobalReplyExchange (an_cfg a)) (an_replyQueueName a))"

text \<open>\<^verbatim>\<open>declareTopology\<close>: \<open>topoCh\<close> is the throwaway channel, or the error of opening it.\<close>

definition declareTopology :: "goerror + channel \<Rightarrow> appNames \<Rightarrow> declared" where
  "declareTopology topoCh a =
     (case topoCh of
        Inl e \<Rightarrow> ([], Some e)
      | Inr ch \<Rightarrow>
          andThen (DeclareExchanges ch (an_cfg a))
         (andThen (declareEvents ch a)
         (andThen (declareCommands ch a)
         (andThen (declareQueries ch a)
         (andThen (declareNotifications ch a)
                  (declareReplies ch a))))))"

section \<open>Errors stop the declarations\<close>

fun upToFailure :: "channel \<Rightarrow> amqpCall list \<Rightarrow> amqpCall list" where
  "upToFailure ch [] = []"
| "upToFailure ch (c # cs) = c # (if ch c = None then upToFailure ch cs else [])"

definition healthy :: channel where
  "healthy = (\<lambda>_. None)"

text \<open>
  Run \<open>d\<close> on channel \<open>ch\<close> against the error-free run \<open>d'\<close>: the same calls up to and including the
  first that fails, and an error exactly when one of them fails.
\<close>

definition stopsAtFailure :: "channel \<Rightarrow> declared \<Rightarrow> declared \<Rightarrow> bool" where
  "stopsAtFailure ch d d' \<longleftrightarrow> snd d' = None \<and> fst d = upToFailure ch (fst d') \<and>
     (snd d = None \<longleftrightarrow> list_all (\<lambda>c. ch c = None) (fst d'))"

lemma upToFailure_ok: "list_all (\<lambda>c. ch c = None) cs \<Longrightarrow> upToFailure ch (cs @ ds) = cs @ upToFailure ch ds"
  by (induction cs) auto

lemma upToFailure_failed: "\<not> list_all (\<lambda>c. ch c = None) cs \<Longrightarrow> upToFailure ch (cs @ ds) = upToFailure ch cs"
  by (induction cs) auto

lemma upToFailure_all: "list_all (\<lambda>c. ch c = None) cs \<Longrightarrow> upToFailure ch cs = cs"
  using upToFailure_ok [of ch cs "[]"] by simp

lemma stops_nothing [intro]: "stopsAtFailure ch nothing nothing"
  by (simp add: stopsAtFailure_def nothing_def)

lemma stops_attempt [intro]: "stopsAtFailure ch (attempt ch c w) (attempt healthy c w)"
  by (auto simp: stopsAtFailure_def attempt_def healthy_def)

lemma stops_andThen [intro]:
  assumes "stopsAtFailure ch a a'" and "stopsAtFailure ch b b'"
  shows "stopsAtFailure ch (andThen a b) (andThen a' b')"
proof (cases "list_all (\<lambda>c. ch c = None) (fst a')")
  case True
  then show ?thesis
    using assms by (auto simp: stopsAtFailure_def andThen_def upToFailure_ok upToFailure_all)
next
  case False
  then show ?thesis
    using assms by (auto simp: stopsAtFailure_def andThen_def upToFailure_failed)
qed

lemma stops_forEach [intro]:
  "(\<And>x. stopsAtFailure ch (f x) (f' x)) \<Longrightarrow> stopsAtFailure ch (forEach f xs) (forEach f' xs)"
  by (induction xs) auto

lemma declare_ops_stop:
  "stopsAtFailure ch (DeclareEventsQueue ch cfg) (DeclareEventsQueue healthy cfg)"
  "stopsAtFailure ch (DeclareCommandsQueue ch cfg) (DeclareCommandsQueue healthy cfg)"
  "stopsAtFailure ch (DeclareQueriesQueue ch cfg) (DeclareQueriesQueue healthy cfg)"
  "stopsAtFailure ch (DeclareTempQueue ch name) (DeclareTempQueue healthy name)"
  "stopsAtFailure ch (BindQueue ch q x k) (BindQueue healthy q x k)"
  "stopsAtFailure ch (DeclareEventsDLQRetry ch cfg q) (DeclareEventsDLQRetry healthy cfg q)"
  "stopsAtFailure ch (DeclareDirectDLQRetry ch cfg q k) (DeclareDirectDLQRetry healthy cfg q k)"
  unfolding DeclareEventsQueue_def DeclareCommandsQueue_def DeclareQueriesQueue_def DeclareTempQueue_def
    BindQueue_def DeclareEventsDLQRetry_def DeclareDirectDLQRetry_def Let_def
  by (intro stops_andThen stops_attempt)+

lemma stops_if:
  "(b \<Longrightarrow> stopsAtFailure ch x x') \<Longrightarrow> (\<not> b \<Longrightarrow> stopsAtFailure ch y y') \<Longrightarrow>
   stopsAtFailure ch (if b then x else y) (if b then x' else y')"
  by simp

lemmas stops_rules = stops_if stops_andThen stops_nothing stops_forEach declare_ops_stop

lemma declare_parts_stop:
  "stopsAtFailure ch (declareEvents ch a) (declareEvents healthy a)"
  "stopsAtFailure ch (declareCommands ch a) (declareCommands healthy a)"
  "stopsAtFailure ch (declareQueries ch a) (declareQueries healthy a)"
  "stopsAtFailure ch (declareNotifications ch a) (declareNotifications healthy a)"
  "stopsAtFailure ch (declareReplies ch a) (declareReplies healthy a)"
  unfolding declareEvents_def declareCommands_def declareQueries_def declareNotifications_def
    declareReplies_def Let_def
  by (intro stops_rules)+

lemma DeclareExchanges_stop: "stopsAtFailure ch (DeclareExchanges ch cfg) (DeclareExchanges healthy cfg)"
  unfolding DeclareExchanges_def forEach.simps prod.case by (intro stops_andThen stops_attempt stops_nothing)

lemma declareTopology_stops:
  "stopsAtFailure ch (declareTopology (Inr ch) a) (declareTopology (Inr healthy) a)"
  unfolding declareTopology_def sum.case by (intro stops_andThen declare_parts_stop DeclareExchanges_stop)

text \<open>The calls of a run in which the broker refuses nothing.\<close>

definition topologyPlan :: "appNames \<Rightarrow> amqpCall list" where
  "topologyPlan a = fst (declareTopology (Inr healthy) a)"


section \<open>The dead-letter retry loop\<close>

definition deadLettersTo :: "table option \<Rightarrow> gostring \<Rightarrow> bool" where
  "deadLettersTo args x \<longleftrightarrow> (\<exists>t. args = Some t \<and> t argDeadLetterExchange = Some (HString x))"

text \<open>
  Queue \<open>q\<close> dead-letters to an exchange that the plan declares and on which the retry queue is bound with
  \<open>key\<close>; the retry queue holds messages for \<open>ttl\<close> and dead-letters them to a declared exchange on
  which \<open>q\<close> is bound with \<open>key\<close>.
\<close>

definition retryLoopDeclared :: "amqpCall set \<Rightarrow> gostring \<Rightarrow> gostring \<Rightarrow> hval \<Rightarrow> bool" where
  "retryLoopDeclared P q key ttl \<longleftrightarrow>
     (\<exists>args dlx k1 dlqArgs back k2.
        QueueDeclare q True False False args \<in> P \<and> deadLettersTo args dlx \<and>
        ExchangeDeclare dlx k1 True \<in> P \<and> QueueBind (q @ ''.DLQ'') key dlx \<in> P \<and>
        QueueDeclare (q @ ''.DLQ'') True False False dlqArgs \<in> P \<and> deadLettersTo dlqArgs back \<and>
        (\<exists>t. dlqArgs = Some t \<and> t argMessageTTL = Some ttl) \<and>
        ExchangeDeclare back k2 True \<in> P \<and> QueueBind q key back \<in> P)"

lemma healthy_attempt [simp]: "attempt healthy c w = ([c], None)"
  by (simp add: attempt_def healthy_def)

lemma healthy_andThen [simp]: "andThen (xs, None) b = (xs @ fst b, snd b)"
  by (simp add: andThen_def)

lemma deadLettersTo_QueueArgs:
  "deadLettersTo (QueueArgs cfg [(argDeadLetterExchange, HString x)]) x"
  "deadLettersTo (QueueArgs cfg [(argDeadLetterExchange, HString x), (argMessageTTL, v)]) x"
  "\<exists>t. QueueArgs cfg [(argDeadLetterExchange, HString x), (argMessageTTL, v)] = Some t \<and> t argMessageTTL = Some v"
  by (simp_all add: deadLettersTo_def QueueArgs_def arg_names)

lemma plan_parts:
  "set (topologyPlan a) = set (fst (DeclareExchanges healthy (an_cfg a))) \<union> set (fst (declareEvents healthy a)) \<union>
     set (fst (declareCommands healthy a)) \<union> set (fst (declareQueries healthy a)) \<union>
     set (fst (declareNotifications healthy a)) \<union> set (fst (declareReplies healthy a))"
proof -
  have ok: "snd d' = None" if "stopsAtFailure ch d d'" for ch d d' using that by (simp add: stopsAtFailure_def)
  show ?thesis
    using declare_parts_stop [THEN ok] DeclareExchanges_stop [THEN ok] by (auto simp: topologyPlan_def declareTopology_def andThen_def)
qed


lemma healthy_forEach_ok: "(\<And>x. snd (f x) = None) \<Longrightarrow> snd (forEach f xs) = None"
  by (induction xs) (simp_all add: nothing_def andThen_def)

lemma healthy_BindQueue [simp]: "BindQueue healthy q x k = ([QueueBind q k x], None)"
  by (simp add: BindQueue_def)

lemma retryLoopDeclaredI:
  assumes "QueueDeclare q True False False args \<in> P" and "deadLettersTo args dlx"
    and "ExchangeDeclare dlx k1 True \<in> P" and "QueueBind (q @ ''.DLQ'') key dlx \<in> P"
    and "QueueDeclare (q @ ''.DLQ'') True False False dlqArgs \<in> P" and "deadLettersTo dlqArgs bk"
    and "\<exists>t. dlqArgs = Some t \<and> t argMessageTTL = Some ttl"
    and "ExchangeDeclare bk k2 True \<in> P" and "QueueBind q key bk \<in> P"
  shows "retryLoopDeclared P q key ttl"
  unfolding retryLoopDeclared_def
  by (intro exI [of _ args] exI [of _ dlx] exI [of _ k1] exI [of _ dlqArgs] exI [of _ bk] exI [of _ k2] conjI assms)

lemma events_retry_loop:
  assumes "WithDLQRetry (an_cfg a)" and "an_EventNames a \<noteq> []"
  shows "retryLoopDeclared (set (fst (declareEvents healthy a))) (eventsQueue (an_cfg a)) ''#'' (retryTTL (an_cfg a))"
proof -
  let ?c = "an_cfg a" and ?P = "set (fst (declareEvents healthy a))"
  let ?args = "QueueArgs ?c [(argDeadLetterExchange, HString (EventsDLQExchange ?c))]"
  let ?dlq = "QueueArgs ?c [(argDeadLetterExchange, HString (EventsRetryExchange ?c)), (argMessageTTL, retryTTL ?c)]"
  have P: "?P \<supseteq> {QueueDeclare (eventsQueue ?c) True False False ?args, ExchangeDeclare (EventsDLQExchange ?c) ''topic'' True,
      QueueBind (eventsQueue ?c @ ''.DLQ'') ''#'' (EventsDLQExchange ?c),
      QueueDeclare (eventsQueue ?c @ ''.DLQ'') True False False ?dlq,
      ExchangeDeclare (EventsRetryExchange ?c) ''topic'' True,
      QueueBind (eventsQueue ?c) ''#'' (EventsRetryExchange ?c)}"
    using assms by (simp add: declareEvents_def DeclareEventsQueue_def DeclareEventsDLQRetry_def Let_def)
  show ?thesis
    by (rule retryLoopDeclaredI [where args = ?args and dlqArgs = ?dlq and dlx = "EventsDLQExchange ?c" and
          bk = "EventsRetryExchange ?c" and ?k1.0 = "''topic''" and ?k2.0 = "''topic''"])
      (use P in \<open>simp_all add: deadLettersTo_QueueArgs\<close>)
qed

lemma direct_retry_loop:
  assumes "WithDLQRetry cfg"
    and "{QueueDeclare q True False False (QueueArgs cfg [(argDeadLetterExchange, HString (DirectDLQExchange cfg))]),
      ExchangeDeclare (DirectMessagesExchange cfg) k True, QueueBind q key (DirectMessagesExchange cfg)} \<subseteq> P"
    and "set (fst (DeclareDirectDLQRetry healthy cfg q key)) \<subseteq> P"
  shows "retryLoopDeclared P q key (retryTTL cfg)"
proof -
  let ?dlq = "QueueArgs cfg [(argDeadLetterExchange, HString (DirectMessagesExchange cfg)), (argMessageTTL, retryTTL cfg)]"
  have "{ExchangeDeclare (DirectDLQExchange cfg) ''direct'' True, QueueBind (q @ ''.DLQ'') key (DirectDLQExchange cfg),
      QueueDeclare (q @ ''.DLQ'') True False False ?dlq} \<subseteq> P"
    using assms(3) by (simp add: DeclareDirectDLQRetry_def Let_def)
  with assms(2) have P: "{QueueDeclare q True False False (QueueArgs cfg [(argDeadLetterExchange, HString (DirectDLQExchange cfg))]),
      ExchangeDeclare (DirectMessagesExchange cfg) k True, QueueBind q key (DirectMessagesExchange cfg),
      ExchangeDeclare (DirectDLQExchange cfg) ''direct'' True, QueueBind (q @ ''.DLQ'') key (DirectDLQExchange cfg),
      QueueDeclare (q @ ''.DLQ'') True False False ?dlq} \<subseteq> P" by simp
  show ?thesis
    by (rule retryLoopDeclaredI [where args = "QueueArgs cfg [(argDeadLetterExchange, HString (DirectDLQExchange cfg))]"
          and dlqArgs = ?dlq and dlx = "DirectDLQExchange cfg" and bk = "DirectMessagesExchange cfg" and
          ?k1.0 = "''direct''" and ?k2.0 = k])
      (use P in \<open>simp_all add: deadLettersTo_QueueArgs\<close>)
qed

lemma retryLoopDeclared_mono: "retryLoopDeclared P q k ttl \<Longrightarrow> P \<subseteq> Q \<Longrightarrow> retryLoopDeclared Q q k ttl"
  unfolding retryLoopDeclared_def by blast

lemma plan_direct_exchange:
  "ExchangeDeclare (DirectMessagesExchange (an_cfg a)) ''direct'' True \<in> set (topologyPlan a)"
  by (simp add: plan_parts DeclareExchanges_def)


definition exampleNames :: appNames where
  "exampleNames = \<lparr>an_cfg = toInternalConfig 0 ((NewConfigWithDefaults 0)\<lparr>rc_AppName := ''app'', rc_WithDLQRetry := True\<rparr>),
     an_EventNames = [''order.created''], an_CommandNames = [], an_QueryNames = [''stock''],
     an_NotificationNames = [], an_notificationQueueName = [], an_replyQueueName = ''app.replies.x''\<rparr>"


text \<open>The retry delay is narrowed to 32 bits: a delay of 25 days asks the broker for a negative
  message time-to-live.\<close>

theorem retry_delay_overflow:
  "retryTTL (cfg\<lparr>RetryDelay := 25 * 24 * 3600 * goSecond\<rparr>) = HInt32 (- 2134967296)"
  by (simp add: retryTTL_def go_div_def wrap32_def duration_units)

end
