(* ===== verification/Rabbit_Consumer.thy ===== *)
theory Rabbit_Consumer
  imports RC_Async Retry_Loops
begin

text \<open>
  The supervised consumer of one listener (\<^verbatim>\<open>internal/rabbit/consumer.go\<close>): \<^verbatim>\<open>start\<close> calls, each of
  which supersedes the previous supervisor, and the supervisors, which consume, dispatch, and rebuild
  their channel. A call of \<^verbatim>\<open>start\<close>, the pair of \<^verbatim>\<open>stop\<close> and \<^verbatim>\<open>done\<close> channels it makes, the supervisor
  it launches and its health generation are all named by the generation number the call takes under
  the lock. Opening a channel, the topology, the clock and the broker are the environment.
\<close>

section \<open>Health\<close>

datatype ConsumerState = ConsumerStopped | ConsumerRebuilding | ConsumerRunning

record ConsumerHealth =
  ch_State :: ConsumerState
  ch_Since :: nat
  ch_LastError :: gostring

definition setHealthLocked :: "nat \<Rightarrow> ConsumerState \<Rightarrow> goerror option \<Rightarrow> ConsumerHealth \<Rightarrow> ConsumerHealth" where
  "setHealthLocked now state err h =
     (let h' = (if ch_State h \<noteq> state then h\<lparr>ch_State := state, ch_Since := now\<rparr> else h)
      in case err of
           Some e \<Rightarrow> h'\<lparr>ch_LastError := errorText e\<rparr>
         | None \<Rightarrow> if state = ConsumerRunning then h'\<lparr>ch_LastError := []\<rparr> else h')"

lemma setHealthLocked_state [simp]: "ch_State (setHealthLocked now st e h) = st"
  by (auto simp: setHealthLocked_def Let_def split: option.split)

section \<open>State\<close>

type_synonym gen = nat

text \<open>
  Where a \<^verbatim>\<open>start\<close> call is: waiting for the previous supervisor \<open>p\<close>, about to open, opened and about to
  check for supersession, returned with its error.
\<close>

datatype startPoint = SNone | SWait gen | SOpen | SCheck | SReturned "goerror option"

text \<open>
  Where a supervisor is: at the head of its outer loop with a fresh channel, in the consume loop, in a dispatch, past the loop with the reason of the
  death, in the rebuild loop (sleeping, opening, opened), and in its deferred calls: closing the
  channel, setting the health, closing \<^verbatim>\<open>done\<close>.
\<close>

datatype supPoint =
    UNone
  | UBegin
  | UConsume
  | UDispatch
  | UDead
  | USleep duration
  | UOpening duration
  | UOpened
  | UClosing "goerror option"
  | UHealth "goerror option"
  | UDone
  | UExited

record supervisedConsumer =
  runGen :: gen
  closedStop :: "gen set"
  closedDone :: "gen set"
  chealth :: ConsumerHealth

record consumerSys = supervisedConsumer +
  starts :: "gen \<Rightarrow> startPoint"
  sups :: "gen \<Rightarrow> supPoint"
  consuming :: "gen set"
  waitTimedOut :: bool
  cclock :: nat

definition newSupervisedConsumer :: consumerSys where
  "newSupervisedConsumer = \<lparr>runGen = 0, closedStop = {}, closedDone = {},
     chealth = \<lparr>ch_State = ConsumerStopped, ch_Since = 0, ch_LastError = []\<rparr>,
     starts = (\<lambda>_. SNone), sups = (\<lambda>_. UNone), consuming = {}, waitTimedOut = False, cclock = 0\<rparr>"

definition initialBackoff :: duration where "initialBackoff = 1 * goSecond"
definition maxBackoff :: duration where "maxBackoff = 30 * goSecond"

section \<open>Operations\<close>

definition setHealthForGen :: "gen \<Rightarrow> ConsumerState \<Rightarrow> goerror option \<Rightarrow> consumerSys \<Rightarrow> consumerSys" where
  "setHealthForGen g state err s =
     (if runGen s \<noteq> g then s else s\<lparr>chealth := setHealthLocked (cclock s) state err (chealth s)\<rparr>)"

definition snapshot :: "consumerSys \<Rightarrow> ConsumerHealth" where
  "snapshot s = chealth s"

definition markStopped :: "consumerSys \<Rightarrow> consumerSys" where
  "markStopped s = s\<lparr>chealth := setHealthLocked (cclock s) ConsumerStopped None (chealth s)\<rparr>"

definition startAt :: "gen \<Rightarrow> startPoint \<Rightarrow> consumerSys \<Rightarrow> consumerSys" where
  "startAt g p s = s\<lparr>starts := (starts s)(g := p)\<rparr>"

definition supAt :: "gen \<Rightarrow> supPoint \<Rightarrow> consumerSys \<Rightarrow> consumerSys" where
  "supAt g p s = s\<lparr>sups := (sups s)(g := p)\<rparr>"

text \<open>The critical section of \<^verbatim>\<open>start\<close>: supersede the previous supervisor and take a generation.\<close>

definition supersede :: "consumerSys \<Rightarrow> consumerSys" where
  "supersede s =
     (let g = Suc (runGen s);
          s1 = s\<lparr>closedStop := (if runGen s = 0 then closedStop s else insert (runGen s) (closedStop s)), runGen := g,
                 chealth := setHealthLocked (cclock s) ConsumerRebuilding None (chealth s)\<rparr>
      in startAt g (if runGen s = 0 then SOpen else SWait (runGen s)) s1)"

definition closeChannel :: "gen \<Rightarrow> consumerSys \<Rightarrow> consumerSys" where
  "closeChannel g s = s\<lparr>consuming := consuming s - {g}\<rparr>"

definition openChannel :: "gen \<Rightarrow> consumerSys \<Rightarrow> consumerSys" where
  "openChannel g s = s\<lparr>consuming := insert g (consuming s)\<rparr>"

section \<open>Steps\<close>

datatype sevent =
    StartCall
  | PrevDone gen
  | WaitCtx gen goerror
  | WaitTimer gen
  | OpenOk gen
  | OpenErr gen goerror
  | CheckCtx gen goerror
  | CheckStop gen
  | Launch gen
  | Begin gen
  | Deliver gen
  | DispatchDone gen
  | SupCtx gen goerror
  | SupStop gen
  | ChannelDies gen gostring
  | ConnDown gen
  | Heal gen
  | Wake gen
  | HealErr gen goerror
  | HealOpenOk gen
  | HealCheck gen
  | ExitStep gen
  | MarkStopped
  | ClockTick

fun sfire :: "sevent \<Rightarrow> consumerSys \<Rightarrow> consumerSys option" where
  "sfire StartCall s = Some (supersede s)"
| "sfire (PrevDone g) s =
     (case starts s g of SWait p \<Rightarrow> if p \<in> closedDone s then Some (startAt g SOpen s) else None | _ \<Rightarrow> None)"
| "sfire (WaitCtx g e) s =
     (case starts s g of
        SWait p \<Rightarrow> Some (startAt g (SReturned (Some e)) (setHealthForGen g ConsumerStopped (Some e) s))
      | _ \<Rightarrow> None)"
| "sfire (WaitTimer g) s =
     (case starts s g of SWait p \<Rightarrow> Some (startAt g SOpen (s\<lparr>waitTimedOut := True\<rparr>)) | _ \<Rightarrow> None)"
| "sfire (OpenOk g) s = (if starts s g = SOpen then Some (startAt g SCheck (openChannel g s)) else None)"
| "sfire (OpenErr g e) s =
     (if starts s g = SOpen
      then Some (startAt g (SReturned (Some e)) (setHealthForGen g ConsumerStopped (Some e) s)) else None)"
| "sfire (CheckCtx g e) s =
     (if starts s g = SCheck
      then Some (startAt g (SReturned (Some e)) (setHealthForGen g ConsumerStopped (Some e) (closeChannel g s))) else None)"
| "sfire (CheckStop g) s =
     (if starts s g = SCheck \<and> g \<in> closedStop s
      then Some (startAt g (SReturned None) (setHealthForGen g ConsumerStopped None (closeChannel g s))) else None)"
| "sfire (Launch g) s =
     (if starts s g = SCheck \<and> g \<notin> closedStop s
      then Some (supAt g UBegin (startAt g (SReturned None) (setHealthForGen g ConsumerRunning None s))) else None)"
| "sfire (Begin g) s =
     (if sups s g = UBegin then Some (supAt g UConsume (setHealthForGen g ConsumerRunning None s)) else None)"
| "sfire (Deliver g) s = (if sups s g = UConsume then Some (supAt g UDispatch s) else None)"
| "sfire (DispatchDone g) s = (if sups s g = UDispatch then Some (supAt g UConsume s) else None)"
| "sfire (SupCtx g e) s =
     (case sups s g of
        UConsume \<Rightarrow> Some (supAt g (UClosing (Some e)) s)
      | USleep b \<Rightarrow> Some (supAt g (UClosing (Some e)) s)
      | _ \<Rightarrow> None)"
| "sfire (SupStop g) s =
     (if g \<notin> closedStop s then None
      else case sups s g of
             UConsume \<Rightarrow> Some (supAt g (UClosing None) s)
           | USleep b \<Rightarrow> Some (supAt g (UClosing None) s)
           | _ \<Rightarrow> None)"
| "sfire (ChannelDies g deathReason) s =
     (if sups s g = UConsume
      then (let s1 = supAt g UDead (closeChannel g s)
            in Some (if deathReason \<noteq> [] then setHealthForGen g ConsumerRebuilding (Some (ErrOther deathReason)) s1 else s1))
      else None)"
| "sfire (ConnDown g) s = (if sups s g = UDead then Some (supAt g (UClosing None) s) else None)"
| "sfire (Heal g) s = (if sups s g = UDead then Some (supAt g (USleep initialBackoff) s) else None)"
| "sfire (Wake g) s =
     (case sups s g of
        USleep b \<Rightarrow> Some (supAt g (if g \<in> closedStop s then UClosing None else UOpening b) s)
      | _ \<Rightarrow> None)"
| "sfire (HealErr g e) s =
     (case sups s g of
        UOpening b \<Rightarrow> Some (supAt g (USleep (nextBackoff maxBackoff b)) (setHealthForGen g ConsumerRebuilding (Some e) s))
      | _ \<Rightarrow> None)"
| "sfire (HealOpenOk g) s =
     (case sups s g of UOpening b \<Rightarrow> Some (supAt g UOpened (openChannel g s)) | _ \<Rightarrow> None)"
| "sfire (HealCheck g) s =
     (if sups s g = UOpened
      then Some (if g \<in> closedStop s then supAt g (UClosing None) (closeChannel g s)
                 else supAt g UBegin s)
      else None)"
| "sfire (ExitStep g) s =
     (case sups s g of
        UClosing e \<Rightarrow> Some (supAt g (UHealth e) (closeChannel g s))
      | UHealth e \<Rightarrow> Some (supAt g UDone (setHealthForGen g ConsumerStopped e s))
      | UDone \<Rightarrow> Some (supAt g UExited (s\<lparr>closedDone := insert g (closedDone s)\<rparr>))
      | _ \<Rightarrow> None)"
| "sfire MarkStopped s = Some (markStopped s)"
| "sfire ClockTick s = Some (s\<lparr>cclock := Suc (cclock s)\<rparr>)"

definition consumerStep :: "consumerSys \<Rightarrow> consumerSys \<Rightarrow> bool" where
  "consumerStep s t \<longleftrightarrow> (\<exists>e. sfire e s = Some t)"

section \<open>Invariants\<close>

text \<open>The generations that got past the wait for their predecessor.\<close>

definition passedWait :: "consumerSys \<Rightarrow> gen \<Rightarrow> bool" where
  "passedWait s g \<longleftrightarrow> starts s g = SOpen \<or> starts s g = SCheck \<or> sups s g \<noteq> UNone"

fun holdsChannel :: "supPoint \<Rightarrow> bool" where
  "holdsChannel UBegin = True"
| "holdsChannel UConsume = True"
| "holdsChannel UDispatch = True"
| "holdsChannel UOpened = True"
| "holdsChannel (UClosing e) = True"
| "holdsChannel _ = False"

text \<open>What holds of each generation by itself: \<open>n\<close> is the current generation, the rest its own data.\<close>

definition genOk :: "gen \<Rightarrow> gen \<Rightarrow> startPoint \<Rightarrow> supPoint \<Rightarrow> bool \<Rightarrow> bool \<Rightarrow> bool" where
  "genOk n g st su dn co \<longleftrightarrow>
     (n < g \<or> g = 0 \<longrightarrow> st = SNone \<and> su = UNone) \<and> (\<forall>q. st = SWait q \<longrightarrow> g = Suc q) \<and>
     (su \<noteq> UNone \<longrightarrow> st = SReturned None) \<and> (dn \<longrightarrow> su = UExited) \<and>
     (co \<longrightarrow> st = SCheck \<or> holdsChannel su)"

definition genInv :: "consumerSys \<Rightarrow> bool" where
  "genInv s \<longleftrightarrow> (\<forall>g. genOk (runGen s) g (starts s g) (sups s g) (g \<in> closedDone s) (g \<in> consuming s))"

definition orderInv :: "consumerSys \<Rightarrow> bool" where
  "orderInv s \<longleftrightarrow> waitTimedOut s \<or>
     (\<forall>g h. passedWait s g \<longrightarrow> 1 \<le> h \<longrightarrow> h < g \<longrightarrow> h \<in> closedDone s)"

lemmas consumer_ops = setHealthForGen_def startAt_def supAt_def supersede_def closeChannel_def openChannel_def
  markStopped_def Let_def

lemma setHealthForGen_frame [simp]:
  "runGen (setHealthForGen g st e s) = runGen s" "starts (setHealthForGen g st e s) = starts s"
  "sups (setHealthForGen g st e s) = sups s" "consuming (setHealthForGen g st e s) = consuming s"
  "closedDone (setHealthForGen g st e s) = closedDone s" "closedStop (setHealthForGen g st e s) = closedStop s"
  "waitTimedOut (setHealthForGen g st e s) = waitTimedOut s"
  by (simp_all add: setHealthForGen_def)

lemmas consumer_moves = startAt_def supAt_def closeChannel_def openChannel_def markStopped_def Let_def

text \<open>The generation an event belongs to; a step touches no other.\<close>

fun genOf :: "sevent \<Rightarrow> gen" where
  "genOf (PrevDone g) = g"
| "genOf (WaitCtx g e) = g"
| "genOf (WaitTimer g) = g"
| "genOf (OpenOk g) = g"
| "genOf (OpenErr g e) = g"
| "genOf (CheckCtx g e) = g"
| "genOf (CheckStop g) = g"
| "genOf (Launch g) = g"
| "genOf (Begin g) = g"
| "genOf (Deliver g) = g"
| "genOf (DispatchDone g) = g"
| "genOf (SupCtx g e) = g"
| "genOf (SupStop g) = g"
| "genOf (ChannelDies g r) = g"
| "genOf (ConnDown g) = g"
| "genOf (Heal g) = g"
| "genOf (Wake g) = g"
| "genOf (HealErr g e) = g"
| "genOf (HealOpenOk g) = g"
| "genOf (HealCheck g) = g"
| "genOf (ExitStep g) = g"
| "genOf _ = 0"

lemma fire_local:
  assumes "sfire e s = Some t" and "e \<noteq> StartCall"
  shows "runGen t = runGen s" and "closedStop t = closedStop s"
    and "h \<noteq> genOf e \<Longrightarrow> starts t h = starts s h \<and> sups t h = sups s h \<and>
      (h \<in> closedDone t \<longleftrightarrow> h \<in> closedDone s) \<and> (h \<in> consuming t \<longleftrightarrow> h \<in> consuming s)"
  using assms
  by (cases e; auto simp: consumer_moves split: if_splits startPoint.splits supPoint.splits)+

lemma genInv_fire:
  assumes "sfire e s = Some t" and "genInv s"
  shows "genInv t"
proof (cases "e = StartCall")
  case True
  then have t: "t = supersede s" using assms(1) by simp
  have new: "starts s (Suc (runGen s)) = SNone \<and> sups s (Suc (runGen s)) = UNone \<and>
      Suc (runGen s) \<notin> closedDone s \<and> Suc (runGen s) \<notin> consuming s"
    using assms(2) by (auto simp: genInv_def genOk_def)
  have ok: "genOk (runGen s) g (starts s g) (sups s g) (g \<in> closedDone s) (g \<in> consuming s)" for g
    using assms(2) by (simp add: genInv_def)
  have "genOk (runGen t) g (starts t g) (sups t g) (g \<in> closedDone t) (g \<in> consuming t)" for g
    using ok [of g] new by (cases "g = Suc (runGen s)") (auto simp: t supersede_def startAt_def Let_def genOk_def)
  then show ?thesis by (simp add: genInv_def)
next
  case False
  let ?g = "genOf e"
  have ok: "genOk (runGen s) g (starts s g) (sups s g) (g \<in> closedDone s) (g \<in> consuming s)" for g
    using assms(2) by (simp add: genInv_def)
  have "genOk (runGen t) ?g (starts t ?g) (sups t ?g) (?g \<in> closedDone t) (?g \<in> consuming t)"
    using assms(1) False ok [of ?g] unfolding genOk_def
    by (cases e) (auto simp: consumer_moves split: if_splits startPoint.splits supPoint.splits)
  moreover have "genOk (runGen t) h (starts t h) (sups t h) (h \<in> closedDone t) (h \<in> consuming t)" if "h \<noteq> ?g" for h
    using ok [of h] fire_local [OF assms(1) False] that by simp
  ultimately show ?thesis unfolding genInv_def by metis
qed


lemma genInvD:
  assumes "genInv s"
  shows "runGen s < g \<or> g = 0 \<Longrightarrow> starts s g = SNone \<and> sups s g = UNone"
    and "starts s g = SWait q \<Longrightarrow> g = Suc q"
    and "sups s g \<noteq> UNone \<Longrightarrow> starts s g = SReturned None"
    and "g \<in> closedDone s \<Longrightarrow> sups s g = UExited"
    and "g \<in> consuming s \<Longrightarrow> starts s g = SCheck \<or> holdsChannel (sups s g)"
  using assms unfolding genInv_def genOk_def by blast+

lemma closedDone_mono: "sfire e s = Some t \<Longrightarrow> closedDone s \<subseteq> closedDone t"
  by (cases e)
    (auto simp: consumer_moves supersede_def split: if_splits startPoint.splits supPoint.splits)

lemma waitTimedOut_mono: "sfire e s = Some t \<Longrightarrow> waitTimedOut s \<Longrightarrow> waitTimedOut t"
  by (cases e)
    (auto simp: consumer_moves supersede_def split: if_splits startPoint.splits supPoint.splits)

text \<open>Without a timed-out wait, the only way past it is that the previous supervisor is done.\<close>

lemma passedWait_new:
  assumes "sfire e s = Some t" and "genInv s" and "passedWait t g" and "\<not> passedWait s g" and "\<not> waitTimedOut t"
  shows "g = 1 \<or> (\<exists>p. g = Suc p \<and> p \<in> closedDone s)"
proof (cases "e = StartCall")
  case True
  then have t: "t = supersede s" using assms(1) by simp
  then have "g = Suc (runGen s)"
    using assms(3,4) by (auto simp: passedWait_def supersede_def startAt_def Let_def split: if_splits)
  then show ?thesis
    using assms(3) genInvD(1) [OF assms(2), of g] by (auto simp: t passedWait_def supersede_def startAt_def Let_def split: if_splits)
next
  case False
  have "g = genOf e"
  proof (rule ccontr)
    assume "g \<noteq> genOf e"
    from fire_local(3) [OF assms(1) False this] assms(3,4) show False by (simp add: passedWait_def)
  qed
  with assms(1,3-5) genInvD(2) [OF assms(2), of g] False show ?thesis
    by (cases e)
      (auto simp: passedWait_def consumer_moves split: if_splits startPoint.splits supPoint.splits)
qed

lemma orderInv_fire:
  assumes "sfire e s = Some t" and "genInv s" and "orderInv s"
  shows "orderInv t"
proof (cases "waitTimedOut t")
  case True
  then show ?thesis by (simp add: orderInv_def)
next
  case False
  then have old: "h \<in> closedDone s" if "passedWait s g" "1 \<le> h" "h < g" for g h
    using assms(3) waitTimedOut_mono [OF assms(1)] that by (auto simp: orderInv_def)
  have "h \<in> closedDone s" if "passedWait t g" "1 \<le> h" "h < g" for g h
  proof (cases "passedWait s g")
    case True
    then show ?thesis using old that by blast
  next
    case np: False
    from passedWait_new [OF assms(1,2) that(1) np False] that(2,3)
    obtain p where p: "g = Suc p" "p \<in> closedDone s" by auto
    then have "passedWait s p" using genInvD(4) [OF assms(2)] by (simp add: passedWait_def)
    then show ?thesis using old [of p h] p that(2,3) by (cases "h = p") auto
  qed
  then show ?thesis using closedDone_mono [OF assms(1)] by (auto simp: orderInv_def)
qed

text \<open>A running consumer has a supervisor that is not on its way out.\<close>

definition runningInv :: "consumerSys \<Rightarrow> bool" where
  "runningInv s \<longleftrightarrow>
     (ch_State (chealth s) = ConsumerRunning \<longrightarrow> sups s (runGen s) \<notin> {UNone, UDone, UExited})"

lemma health_other_gen:
  assumes "sfire e s = Some t" and "e \<noteq> StartCall" and "e \<noteq> MarkStopped" and "genOf e \<noteq> runGen s"
  shows "chealth t = chealth s"
  using assms
  by (cases e)
    (auto simp: consumer_moves setHealthForGen_def split: if_splits startPoint.splits supPoint.splits)

lemma runningInv_fire:
  assumes "sfire e s = Some t" and "genInv s" and "runningInv s"
  shows "runningInv t"
proof -
  consider "e = StartCall" | "e = MarkStopped" | "e \<noteq> StartCall" "e \<noteq> MarkStopped" "genOf e \<noteq> runGen s"
    | "e \<noteq> StartCall" "e \<noteq> MarkStopped" "genOf e = runGen s" by blast
  then show ?thesis
  proof cases
    case 1
    with assms(1) show ?thesis by (auto simp: runningInv_def supersede_def startAt_def Let_def)
  next
    case 2
    with assms(1) show ?thesis by (auto simp: runningInv_def markStopped_def)
  next
    case 3
    with health_other_gen [OF assms(1)] fire_local(1) [OF assms(1)] fire_local(3) [OF assms(1), of "runGen s"] assms(3)
    show ?thesis by (auto simp: runningInv_def)
  next
    case 4
    have "sups s (runGen s) \<noteq> UNone \<Longrightarrow> starts s (runGen s) = SReturned None"
      by (rule genInvD(3) [OF assms(2)])
    with 4 assms(1,3) show ?thesis
      by (cases e) (auto simp: runningInv_def consumer_moves setHealthForGen_def
          split: if_splits startPoint.splits supPoint.splits)
  qed
qed

definition consumerInv :: "consumerSys \<Rightarrow> bool" where
  "consumerInv s \<longleftrightarrow> genInv s \<and> orderInv s \<and> runningInv s"

interpretation consumer: machine_invariant "\<lambda>s. s = newSupervisedConsumer" consumerStep consumerInv
proof unfold_locales
  show "consumerInv s" if "s = newSupervisedConsumer" for s
    by (simp add: that newSupervisedConsumer_def consumerInv_def genInv_def genOk_def orderInv_def runningInv_def
        passedWait_def)
  show "consumerInv t" if "consumerInv s" "consumerStep s t" for s t
    using that unfolding consumerInv_def consumerStep_def
    by (blast intro: genInv_fire orderInv_fire runningInv_fire)
qed

section \<open>The rebuild schedule\<close>

text \<open>What a round of the rebuild loop meets: superseded or cancelled while sleeping, superseded right
  after, a failed topology or open, superseded while opening, a rebuilt channel.\<close>

datatype healRound = HealLeave | HealSuperseded | HealFails goerror | HealDiscard | HealDone

fun healLoop :: "duration \<Rightarrow> healRound list \<Rightarrow> duration list" where
  "healLoop backoff [] = []"
| "healLoop backoff (HealLeave # rs) = []"
| "healLoop backoff (HealSuperseded # rs) = [backoff]"
| "healLoop backoff (HealFails e # rs) = backoff # healLoop (nextBackoff maxBackoff backoff) rs"
| "healLoop backoff (HealDiscard # rs) = [backoff]"
| "healLoop backoff (HealDone # rs) = [backoff]"

fun healFails :: "healRound \<Rightarrow> bool" where
  "healFails (HealFails e) = True"
| "healFails _ = False"

interpretation heal: retry_loop healLoop healFails maxBackoff
proof unfold_locales
  show "healFails x \<Longrightarrow> healLoop b (x # xs) = b # healLoop (nextBackoff maxBackoff b) xs"
    for x b xs by (cases x) auto
  show "\<not> healFails x \<Longrightarrow> healLoop b (x # xs) = [] \<or> healLoop b (x # xs) = [b]"
    for x b xs by (cases x) auto
qed simp

section \<open>Properties\<close>

lemma consumerTrace_reach:
  assumes "runTrace sfire es newSupervisedConsumer = Some t"
  shows "reach (\<lambda>s. s = newSupervisedConsumer) consumerStep t"
  by (rule runTrace_reach [OF assms]) (auto simp: consumerStep_def intro: reach_init)

lemmas consumer_eval = newSupervisedConsumer_def consumer_ops

text \<open>C15: Two supervisors never consume the same queue at once: unless a \<^verbatim>\<open>start\<close> gave up waiting for its
  predecessor after \<^verbatim>\<open>supersedeWait\<close>, at most one generation has an open consumer channel or is
  dispatching a delivery, whatever the interleaving of starts, cancellations, channel deaths and
  rebuilds.\<close>

theorem single_consumer:
  assumes "reach (\<lambda>s. s = newSupervisedConsumer) consumerStep s" and "\<not> waitTimedOut s"
    and "g \<in> consuming s \<or> sups s g = UDispatch" and "h \<in> consuming s \<or> sups s h = UDispatch"
  shows "g = h"
proof -
  have inv: "genInv s" "orderInv s" using consumer.reach_inv [OF assms(1)] by (simp_all add: consumerInv_def)
  have act: "passedWait s k \<and> sups s k \<noteq> UExited \<and> 1 \<le> k" if "k \<in> consuming s \<or> sups s k = UDispatch" for k
    using that genInvD(5) [OF inv(1), of k] genInvD(1) [OF inv(1), of k] genInvD(3) [OF inv(1), of k]
    by (cases "k = 0") (auto simp: passedWait_def)
  have "\<not> k < l" if "k \<in> consuming s \<or> sups s k = UDispatch" "l \<in> consuming s \<or> sups s l = UDispatch" for k l
    using act [OF that(1)] act [OF that(2)] inv(2) assms(2) genInvD(4) [OF inv(1), of k]
    by (auto simp: orderInv_def)
  with assms(3,4) show ?thesis by (metis nat_neq_iff)
qed

theorem single_consumer_witness:
  "\<exists>s. runTrace sfire [StartCall, OpenOk 1, Launch 1, Begin 1, Deliver 1, StartCall] newSupervisedConsumer = Some s \<and>
     (\<forall>h. h \<in> consuming s \<or> sups s h = UDispatch \<longrightarrow> 1 = h)"
proof -
  obtain s where run: "runTrace sfire [StartCall, OpenOk 1, Launch 1, Begin 1, Deliver 1, StartCall] newSupervisedConsumer = Some s"
    and s: "\<not> waitTimedOut s" "sups s 1 = UDispatch"
    by (simp add: consumer_eval)
  with single_consumer [OF consumerTrace_reach [OF run] s(1), of 1] show ?thesis by blast
qed

text \<open>A \<^verbatim>\<open>start\<close> that returned an error never closes its \<^verbatim>\<open>done\<close> channel, so the next \<^verbatim>\<open>start\<close>, which
  waits for it, cannot go on because its predecessor is done: it waits out the whole
  \<^verbatim>\<open>supersedeWait\<close> or until its context ends.\<close>

theorem failed_start_blocks_next:
  assumes "reach (\<lambda>s. s = newSupervisedConsumer) consumerStep s" and "starts s g = SReturned (Some e)"
  shows "g \<notin> closedDone s \<and> (starts s (Suc g) = SWait g \<longrightarrow> sfire (PrevDone (Suc g)) s = None)"
proof -
  have inv: "genInv s" using consumer.reach_inv [OF assms(1)] by (simp add: consumerInv_def)
  have "g \<notin> closedDone s"
    using genInvD(3) [OF inv, of g] genInvD(4) [OF inv, of g] assms(2) by auto
  then show ?thesis by simp
qed

theorem failed_start_blocks_next_witness:
  "\<exists>s. runTrace sfire [StartCall, OpenErr 1 ErrNotConnected, StartCall] newSupervisedConsumer = Some s \<and>
     starts s 2 = SWait 1 \<and> sfire (PrevDone 2) s = None"
proof -
  obtain s where run: "runTrace sfire [StartCall, OpenErr 1 ErrNotConnected, StartCall] newSupervisedConsumer = Some s"
    and s: "starts s 1 = SReturned (Some ErrNotConnected)" "starts s (Suc 1) = SWait 1"
    by (simp add: consumer_eval)
  with failed_start_blocks_next [OF consumerTrace_reach [OF run] s(1)] show ?thesis
    by (metis Suc_1)
qed

text \<open>C30: Health belongs to the newest generation: a step of an older \<^verbatim>\<open>start\<close> or supervisor leaves the
  snapshot alone, and the snapshot says running only while the newest generation has a supervisor
  that has not reached the end of its exit.\<close>

theorem health_of_newest:
  assumes "reach (\<lambda>s. s = newSupervisedConsumer) consumerStep s" and "sfire e s = Some t"
    and "e \<noteq> StartCall" and "e \<noteq> MarkStopped" and "genOf e \<noteq> runGen s"
  shows "snapshot t = snapshot s \<and>
    (ch_State (snapshot s) = ConsumerRunning \<longrightarrow> sups s (runGen s) \<notin> {UNone, UDone, UExited})"
proof -
  have "runningInv s" using consumer.reach_inv [OF assms(1)] by (simp add: consumerInv_def)
  then show ?thesis using health_other_gen [OF assms(2-)] by (simp add: snapshot_def runningInv_def)
qed

theorem health_of_newest_witness:
  "\<exists>s t. runTrace sfire [StartCall, OpenOk 1, Launch 1, Begin 1, StartCall, SupStop 1, ExitStep 1] newSupervisedConsumer = Some s \<and>
     sfire (ExitStep 1) s = Some t \<and> snapshot t = snapshot s"
proof -
  obtain s where run: "runTrace sfire [StartCall, OpenOk 1, Launch 1, Begin 1, StartCall, SupStop 1, ExitStep 1] newSupervisedConsumer = Some s"
    and s: "runGen s = 2" "sfire (ExitStep 1) s \<noteq> None"
    by (simp add: consumer_eval)
  then obtain t where t: "sfire (ExitStep 1) s = Some t" by blast
  with health_of_newest [OF consumerTrace_reach [OF run] t] run s show ?thesis by simp
qed

end
