(* ===== verification/Rabbit_Connection.thy ===== *)
theory Rabbit_Connection
  imports Rabbit_Config Retry_Loops
begin

text \<open>
  The AMQP connection and its reconnect lifecycle (\<^verbatim>\<open>internal/rabbit/connection.go\<close>) as a concurrent
  system of goroutines: \<^verbatim>\<open>DialContext\<close> with the \<^verbatim>\<open>Dial\<close> it launches, the close watcher
  \<^verbatim>\<open>watchClose\<close> and the \<^verbatim>\<open>reconnectLoop\<close> it turns into, any number of \<^verbatim>\<open>Close\<close> calls, and the
  broker, which may drop a connection at any moment. One step is one access to shared state (an
  atomic load or store of \<^verbatim>\<open>stopped\<close>, a critical section of \<^verbatim>\<open>c.mu\<close> or \<^verbatim>\<open>healthMu\<close>) or one call of
  the AMQP library.
\<close>

section \<open>Identification\<close>

text \<open>\<^verbatim>\<open>debug.BuildInfo\<close> as far as the version lookup reads it; an entry of \<^verbatim>\<open>Deps\<close> may be nil.\<close>

record module =
  m_Path :: gostring
  m_Version :: gostring
  m_Replace :: "gostring option"

definition modulePath :: gostring where
  "modulePath = ''github.com/bancolombia/reactive-commons-go''"

fun depVersion :: "module option list \<Rightarrow> gostring" where
  "depVersion [] = ''unknown''"
| "depVersion (None # ds) = depVersion ds"
| "depVersion (Some d # ds) =
     (if m_Path d = modulePath
      then (case m_Replace d of
              Some v \<Rightarrow> if v \<noteq> [] then v else if m_Version d \<noteq> [] then m_Version d else depVersion ds
            | None \<Rightarrow> if m_Version d \<noteq> [] then m_Version d else depVersion ds)
      else depVersion ds)"

definition resolveLibVersion :: "(module \<times> module option list) option \<Rightarrow> gostring" where
  "resolveLibVersion info =
     (case info of
        None \<Rightarrow> ''unknown''
      | Some (main, deps) \<Rightarrow>
          if m_Path main = modulePath
          then (if m_Version main \<noteq> [] \<and> m_Version main \<noteq> ''(devel)'' then m_Version main else ''devel'')
          else depVersion deps)"

definition clientProperties :: "gostring \<Rightarrow> gostring \<Rightarrow> gostring \<Rightarrow> Config \<Rightarrow> (gostring \<times> gostring) list" where
  "clientProperties goVersion libVersion host cfg =
     (let name = (if ConnectionName cfg = [] then AppName cfg else ConnectionName cfg)
      in [(''connection_name'', name), (''product'', ''reactive-commons-go''),
          (''platform'', ''Go '' @ goVersion), (''version'', libVersion),
          (''information'', ''https://github.com/bancolombia/reactive-commons-go''), (''host'', host)])"

definition dialURL :: "Config \<Rightarrow> gostring" where
  "dialURL cfg =
     (let scheme = (if cfg_TLS cfg \<noteq> None then ''amqps'' else ''amqp'')
      in scheme @ ''://'' @ Username cfg @ '':'' @ Password cfg @ ''@'' @ Host cfg @ '':''
           @ formatInt (Port cfg) @ VHost cfg)"

section \<open>Health\<close>

datatype ConnectionState = ConnectionIdle | ConnectionConnected | ConnectionReconnecting | ConnectionStopped

record ConnectionHealth =
  h_State :: ConnectionState
  h_Since :: nat
  h_LastError :: gostring

text \<open>\<^verbatim>\<open>setHealth\<close>; \<open>now\<close> is the clock.\<close>

definition setHealth :: "nat \<Rightarrow> ConnectionState \<Rightarrow> goerror option \<Rightarrow> ConnectionHealth \<Rightarrow> ConnectionHealth" where
  "setHealth now state err h =
     (if h_State h = ConnectionStopped \<and> state \<noteq> ConnectionStopped then h
      else (let h' = (if h_State h \<noteq> state then h\<lparr>h_State := state, h_Since := now\<rparr> else h)
            in case err of
                 Some e \<Rightarrow> h'\<lparr>h_LastError := errorText e\<rparr>
               | None \<Rightarrow> if state = ConnectionConnected then h'\<lparr>h_LastError := []\<rparr> else h'))"

lemma setHealth_terminal:
  "h_State h = ConnectionStopped \<Longrightarrow> h_State (setHealth now st e h) = ConnectionStopped"
  by (auto simp: setHealth_def Let_def split: option.split)

lemma setHealth_state:
  "h_State h \<noteq> ConnectionStopped \<Longrightarrow> h_State (setHealth now st e h) = st"
  by (auto simp: setHealth_def Let_def split: option.split)

lemma setHealth_stopped: "h_State (setHealth now ConnectionStopped e h) = ConnectionStopped"
  by (auto simp: setHealth_def Let_def split: option.split)

section \<open>State\<close>

type_synonym connId = nat
type_synonym thread = nat

text \<open>
  Program points. \<open>Dial\<close>: \<open>DialCheck\<close>, \<open>DialCall\<close> (in the library's dial), \<open>DialGot c\<close> (dialled, about
  to take the lock), \<open>DialDiscard c\<close>, \<open>DialStored\<close> (lock released). \<open>watchClose\<close>: \<open>WatchRead\<close>,
  \<open>Watching c\<close>, \<open>WatchLost\<close>. \<open>reconnectLoop\<close> with delay \<open>b\<close>: \<open>LoopTop b\<close>, \<open>LoopSleep b\<close>, \<open>LoopDial b\<close>,
  \<open>LoopGot c\<close>, \<open>LoopStored c\<close>, \<open>LoopDiscard c\<close>, \<open>LoopUp\<close>, then \<open>RunHooks\<close>. \<open>Close\<close>: \<open>CloseHealth\<close>, \<open>CloseRead\<close>,
  \<open>CloseConn\<close>. \<open>DialContext\<close>: \<open>CtxWait\<close>, \<open>CtxTake\<close>, \<open>CtxClose\<close>.
\<close>

datatype point =
    NotStarted
  | DialCheck | DialCall | DialGot connId | DialDiscard connId | DialStored
  | WatchRead | Watching connId | WatchLost goerror
  | LoopTop duration | LoopSleep duration | LoopDial duration
  | LoopGot connId | LoopStored connId | LoopDiscard connId | LoopUp | RunHooks
  | CloseHealth | CloseRead | CloseConn "connId option"
  | CtxWait | CtxTake | CtxClose "connId option"
  | Finished

text \<open>
  The struct \<^verbatim>\<open>Connection\<close> (\<open>c_conn\<close>, \<open>stopped\<close>, \<open>health\<close>) with the goroutines, the library's side
  (\<open>live\<close>: the connections that are open) and the clock. \<open>dialed\<close> records that \<^verbatim>\<open>DialContext\<close> was
  called: the application calls it once, on the connection it has just created.
\<close>

record connSys =
  c_conn :: "connId option"
  stopped :: bool
  health :: ConnectionHealth
  points :: "thread \<Rightarrow> point"
  nextThread :: thread
  live :: "connId set"
  nextConn :: connId
  dialed :: bool
  clock :: nat

definition newConnection :: connSys where
  "newConnection = \<lparr>c_conn = None, stopped = False,
     health = \<lparr>h_State = ConnectionIdle, h_Since = 0, h_LastError = []\<rparr>,
     points = (\<lambda>_. NotStarted), nextThread = 0, live = {}, nextConn = 0, dialed = False, clock = 0\<rparr>"

definition reconnectInitialBackoff :: duration where "reconnectInitialBackoff = 1 * goSecond"
definition reconnectMaxBackoff :: duration where "reconnectMaxBackoff = 30 * goSecond"

section \<open>Operations\<close>

definition goto :: "thread \<Rightarrow> point \<Rightarrow> connSys \<Rightarrow> connSys" where
  "goto i p s = s\<lparr>points := (points s)(i := p)\<rparr>"

definition spawn :: "point \<Rightarrow> connSys \<Rightarrow> connSys" where
  "spawn p s = s\<lparr>points := (points s)(nextThread s := p), nextThread := Suc (nextThread s)\<rparr>"

definition noteHealth :: "ConnectionState \<Rightarrow> goerror option \<Rightarrow> connSys \<Rightarrow> connSys" where
  "noteHealth st e s = s\<lparr>health := setHealth (clock s) st e (health s)\<rparr>"

text \<open>\<^verbatim>\<open>closeConn\<close>: nothing for nil or a closed connection.\<close>

definition closeConn :: "connId option \<Rightarrow> connSys \<Rightarrow> connSys" where
  "closeConn c s = (case c of None \<Rightarrow> s | Some k \<Rightarrow> s\<lparr>live := live s - {k}\<rparr>)"

definition isIntentionalClose :: "goerror option \<Rightarrow> bool \<Rightarrow> bool" where
  "isIntentionalClose closedErr st \<longleftrightarrow> closedErr = None \<and> st"

definition closedBeforeWatcher :: goerror where
  "closedBeforeWatcher = ErrOther ''connection closed before watcher attached''"

text \<open>A successful dial of the library.\<close>

definition opened :: "connSys \<Rightarrow> connId \<times> connSys" where
  "opened s = (nextConn s, s\<lparr>live := insert (nextConn s) (live s), nextConn := Suc (nextConn s)\<rparr>)"

definition IsOpen :: "connSys \<Rightarrow> bool" where
  "IsOpen s \<longleftrightarrow> \<not> stopped s \<and> (case c_conn s of None \<Rightarrow> False | Some c \<Rightarrow> c \<in> live s)"

text \<open>\<^verbatim>\<open>Channel\<close>: the connection a channel is opened on.\<close>

definition Channel :: "connSys \<Rightarrow> goerror + connId" where
  "Channel s = (if stopped s then Inl ErrNotConnected
                else case c_conn s of None \<Rightarrow> Inl ErrNotConnected | Some c \<Rightarrow> Inr c)"

section \<open>Steps\<close>

text \<open>
  Events: \<open>Run i\<close> lets goroutine \<open>i\<close> do its next deterministic step; the others carry what the
  environment decides.
\<close>

datatype cevent =
    CallDialContext
  | CallClose
  | Run thread
  | DialOk thread
  | DialErr thread goerror
  | CloseSeen thread "goerror option"
  | CtxDone thread
  | CtxReturn thread
  | HooksDone thread
  | CtxHealth thread goerror
  | ConnDies connId
  | Tick

fun run :: "thread \<Rightarrow> point \<Rightarrow> connSys \<Rightarrow> connSys option" where
  "run i DialCheck s = Some (goto i (if stopped s then Finished else DialCall) s)"
| "run i (DialGot c) s =
     Some (if stopped s then goto i (DialDiscard c) s else goto i DialStored (s\<lparr>c_conn := Some c\<rparr>))"
| "run i (DialDiscard c) s = Some (goto i Finished (noteHealth ConnectionStopped None (closeConn (Some c) s)))"
| "run i DialStored s = Some (goto i Finished (spawn WatchRead (noteHealth ConnectionConnected None s)))"
| "run i WatchRead s =
     Some (goto i (case c_conn s of None \<Rightarrow> Finished | Some c \<Rightarrow> Watching c) s)"
| "run i (WatchLost e) s =
     Some (goto i (LoopTop reconnectInitialBackoff) (noteHealth ConnectionReconnecting (Some e) s))"
| "run i (LoopTop b) s = Some (goto i (if stopped s then Finished else LoopSleep b) s)"
| "run i (LoopSleep b) s = Some (goto i (if stopped s then Finished else LoopDial b) s)"
| "run i (LoopGot c) s = Some (goto i (LoopStored c) (s\<lparr>c_conn := Some c\<rparr>))"
| "run i (LoopStored c) s = Some (goto i (if stopped s then LoopDiscard c else LoopUp) s)"
| "run i (LoopDiscard c) s = Some (goto i Finished (closeConn (Some c) s))"
| "run i LoopUp s = Some (goto i RunHooks (spawn WatchRead (noteHealth ConnectionConnected None s)))"
| "run i CloseHealth s = Some (goto i CloseRead (noteHealth ConnectionStopped None s))"
| "run i CloseRead s = Some (goto i (CloseConn (c_conn s)) s)"
| "run i (CloseConn c) s = Some (goto i Finished (closeConn c s))"
| "run i CtxTake s = Some (goto i (CtxClose (c_conn s)) (s\<lparr>c_conn := None\<rparr>))"
| "run i _ s = None"

fun cfire :: "cevent \<Rightarrow> connSys \<Rightarrow> connSys option" where
  "cfire CallDialContext s =
     (if dialed s then None else Some (spawn CtxWait (spawn DialCheck (s\<lparr>dialed := True\<rparr>))))"
| "cfire CallClose s = Some (spawn CloseHealth (s\<lparr>stopped := True\<rparr>))"
| "cfire (Run i) s = run i (points s i) s"
| "cfire (DialOk i) s =
     (let (c, s') = opened s in
      case points s i of
        DialCall \<Rightarrow> Some (goto i (DialGot c) s')
      | LoopDial b \<Rightarrow> Some (goto i (LoopGot c) s')
      | _ \<Rightarrow> None)"
| "cfire (DialErr i e) s =
     (case points s i of
        DialCall \<Rightarrow> Some (goto i Finished (noteHealth ConnectionIdle (Some e) s))
      | LoopDial b \<Rightarrow>
          Some (goto i (LoopTop (nextBackoff reconnectMaxBackoff b)) (noteHealth ConnectionReconnecting (Some e) s))
      | _ \<Rightarrow> None)"
| "cfire (CloseSeen i closedErr) s =
     (case points s i of
        Watching c \<Rightarrow>
          if c \<in> live s then None
          else Some (goto i (if isIntentionalClose closedErr (stopped s) then Finished
                             else WatchLost (case closedErr of None \<Rightarrow> closedBeforeWatcher | Some e \<Rightarrow> e)) s)
      | _ \<Rightarrow> None)"
| "cfire (CtxDone i) s =
     (if points s i = CtxWait then Some (goto i CtxTake (s\<lparr>stopped := True\<rparr>)) else None)"
| "cfire (CtxReturn i) s = (if points s i = CtxWait then Some (goto i Finished s) else None)"
| "cfire (HooksDone i) s = (if points s i = RunHooks then Some (goto i Finished s) else None)"
| "cfire (CtxHealth i e) s =
     (case points s i of
        CtxClose c \<Rightarrow> Some (goto i Finished (noteHealth ConnectionStopped (Some e) (closeConn c s)))
      | _ \<Rightarrow> None)"
| "cfire (ConnDies c) s = Some (s\<lparr>live := live s - {c}\<rparr>)"
| "cfire Tick s = Some (s\<lparr>clock := Suc (clock s)\<rparr>)"

definition connStep :: "connSys \<Rightarrow> connSys \<Rightarrow> bool" where
  "connStep s t \<longleftrightarrow> (\<exists>e. cfire e s = Some t)"

section \<open>Invariants\<close>

text \<open>
  The chain of responsibility for the connection: the initial dial, then the watcher, then the
  reconnect loop, then the next watcher.
\<close>

fun owner :: "point \<Rightarrow> bool" where
  "owner NotStarted = False"
| "owner RunHooks = False"
| "owner CloseHealth = False"
| "owner CloseRead = False"
| "owner (CloseConn c) = False"
| "owner CtxWait = False"
| "owner CtxTake = False"
| "owner (CtxClose c) = False"
| "owner Finished = False"
| "owner _ = True"

lemmas conn_ops = goto_def spawn_def noteHealth_def closeConn_def opened_def Let_def

text \<open>
  Every step changes the program points in one of three ways: not at all, by moving one goroutine,
  or by moving one goroutine and starting others at fresh numbers.
\<close>

definition threadInv :: "connSys \<Rightarrow> bool" where
  "threadInv s \<longleftrightarrow> (\<forall>i. nextThread s \<le> i \<longrightarrow> points s i = NotStarted)"

definition soloInv :: "connSys \<Rightarrow> bool" where
  "soloInv s \<longleftrightarrow> (\<forall>i j. owner (points s i) \<longrightarrow> owner (points s j) \<longrightarrow> i = j) \<and>
     (\<forall>i. owner (points s i) \<longrightarrow> dialed s)"

lemma threadInvD: "threadInv s \<Longrightarrow> points s i \<noteq> NotStarted \<Longrightarrow> i < nextThread s"
  by (auto simp: threadInv_def not_le [symmetric])

lemma run_started: "run i p s = Some t \<Longrightarrow> p \<noteq> NotStarted"
  by auto

lemma threadInv_goto: "threadInv s \<Longrightarrow> points s i \<noteq> NotStarted \<Longrightarrow> threadInv (goto i p s)"
  by (auto simp: threadInv_def goto_def)

lemma threadInv_spawn: "threadInv s \<Longrightarrow> threadInv (spawn p s)"
  by (auto simp: threadInv_def spawn_def)

lemma threadInv_frame [simp]:
  "threadInv (s\<lparr>c_conn := a\<rparr>) = threadInv s" "threadInv (s\<lparr>stopped := b\<rparr>) = threadInv s"
  "threadInv (s\<lparr>live := c\<rparr>) = threadInv s" "threadInv (s\<lparr>clock := d\<rparr>) = threadInv s"
  "threadInv (s\<lparr>dialed := f\<rparr>) = threadInv s" "threadInv (s\<lparr>nextConn := n\<rparr>) = threadInv s"
  "threadInv (noteHealth st e s) = threadInv s" "threadInv (closeConn k s) = threadInv s"
  by (simp_all add: threadInv_def noteHealth_def closeConn_def split: option.split)

lemma spawn_points [simp]:
  "threadInv s \<Longrightarrow> points s i \<noteq> NotStarted \<Longrightarrow> points (spawn p s) i = points s i"
  using threadInvD [of s i] by (auto simp: spawn_def)

lemma points_frame [simp]:
  "points (noteHealth st e s) = points s" "points (closeConn k s) = points s"
  "c_conn (noteHealth st e s) = c_conn s" "c_conn (closeConn k s) = c_conn s"
  "c_conn (spawn p s) = c_conn s" "live (noteHealth st e s) = live s" "live (spawn p s) = live s"
  "stopped (noteHealth st e s) = stopped s" "stopped (closeConn k s) = stopped s"
  "stopped (spawn p s) = stopped s" "nextConn (noteHealth st e s) = nextConn s"
  by (simp_all add: noteHealth_def closeConn_def spawn_def split: option.split)

lemma threadInv_run: "threadInv s \<Longrightarrow> run i (points s i) s = Some t \<Longrightarrow> threadInv t"
  by (cases "points s i") (auto intro!: threadInv_goto threadInv_spawn split: if_splits)

lemma threadInv_fire:
  assumes "cfire e s = Some t" and "threadInv s"
  shows "threadInv t"
proof (cases e)
  case (Run i)
  with assms show ?thesis by (auto intro: threadInv_run)
qed (use assms in \<open>auto simp: opened_def intro!: threadInv_goto threadInv_spawn
      split: if_splits point.splits\<close>)

text \<open>At most one goroutine owns the connection: a step hands the ownership on, never duplicates it.\<close>

lemma soloInv_goto: "soloInv s \<Longrightarrow> owner p \<longrightarrow> owner (points s i) \<Longrightarrow> soloInv (goto i p s)"
  by (auto simp: soloInv_def goto_def)

lemma soloInv_handover:
  "soloInv s \<Longrightarrow> threadInv s \<Longrightarrow> owner (points s i) \<Longrightarrow> \<not> owner p \<Longrightarrow> soloInv (goto i p (spawn q s))"
  using threadInvD [of s i] by (auto simp: soloInv_def goto_def spawn_def split: if_splits)

lemma soloInv_spawn: "soloInv s \<Longrightarrow> \<not> owner p \<Longrightarrow> soloInv (spawn p s)"
  by (auto simp: soloInv_def spawn_def)

lemma soloInv_frame [simp]:
  "soloInv (s\<lparr>c_conn := a\<rparr>) = soloInv s" "soloInv (s\<lparr>stopped := b\<rparr>) = soloInv s"
  "soloInv (s\<lparr>live := c\<rparr>) = soloInv s" "soloInv (s\<lparr>clock := d\<rparr>) = soloInv s"
  "soloInv (s\<lparr>nextConn := n\<rparr>) = soloInv s"
  "soloInv (noteHealth st e s) = soloInv s" "soloInv (closeConn k s) = soloInv s"
  by (simp_all add: soloInv_def noteHealth_def closeConn_def split: option.split)

lemma soloInv_run:
  "threadInv s \<Longrightarrow> soloInv s \<Longrightarrow> run i (points s i) s = Some t \<Longrightarrow> soloInv t"
  by (cases "points s i")
    (auto intro: soloInv_goto soloInv_handover split: if_splits option.splits)

lemma soloInv_fire:
  assumes "cfire e s = Some t" and "threadInv s" and "soloInv s"
  shows "soloInv t"
proof (cases e)
  case (Run i)
  with assms show ?thesis by (auto intro: soloInv_run)
next
  case CallDialContext
  then have "\<not> dialed s" and t: "t = spawn CtxWait (spawn DialCheck (s\<lparr>dialed := True\<rparr>))"
    using assms(1) by (auto split: if_splits)
  then have "\<not> owner (points s i)" for i using assms(3) by (auto simp: soloInv_def)
  then have "soloInv (spawn DialCheck (s\<lparr>dialed := True\<rparr>))" by (auto simp: soloInv_def spawn_def)
  then show ?thesis unfolding t by (rule soloInv_spawn) simp
qed (use assms in \<open>auto simp: opened_def intro!: soloInv_goto soloInv_spawn
      split: if_splits point.splits\<close>)

text \<open>How the field \<^verbatim>\<open>conn\<close> relates to what its owner is doing.\<close>

fun ownerView :: "point \<Rightarrow> connId option \<Rightarrow> connId set \<Rightarrow> bool" where
  "ownerView DialCheck k L = (k = None)"
| "ownerView DialCall k L = (k = None)"
| "ownerView (DialGot c) k L = (k = None)"
| "ownerView (DialDiscard c) k L = (k = None)"
| "ownerView (Watching c) k L = (k = None \<or> k = Some c)"
| "ownerView (WatchLost e) k L = (\<forall>c. k = Some c \<longrightarrow> c \<notin> L)"
| "ownerView (LoopTop b) k L = (\<forall>c. k = Some c \<longrightarrow> c \<notin> L)"
| "ownerView (LoopSleep b) k L = (\<forall>c. k = Some c \<longrightarrow> c \<notin> L)"
| "ownerView (LoopDial b) k L = (\<forall>c. k = Some c \<longrightarrow> c \<notin> L)"
| "ownerView (LoopGot c') k L = (\<forall>c. k = Some c \<longrightarrow> c \<notin> L)"
| "ownerView (LoopStored c) k L = (k = None \<or> k = Some c)"
| "ownerView (LoopDiscard c) k L = (k = None \<or> k = Some c)"
| "ownerView _ k L = True"

lemma ownerView_trivial: "\<not> owner p \<Longrightarrow> ownerView p k L"
  by (cases p) auto

lemma ownerView_mono: "ownerView p k L \<Longrightarrow> M \<subseteq> L \<Longrightarrow> ownerView p k M"
  by (cases p) auto

lemma ownerView_None: "ownerView p None L"
  by (cases p) auto

definition viewInv :: "connSys \<Rightarrow> bool" where
  "viewInv s \<longleftrightarrow> (\<forall>i. ownerView (points s i) (c_conn s) (live s)) \<and>
     (\<not> dialed s \<longrightarrow> c_conn s = None) \<and> (\<forall>c. c_conn s = Some c \<longrightarrow> c < nextConn s) \<and>
     (\<forall>i c. points s i = DialGot c \<or> points s i = LoopGot c \<longrightarrow> c < nextConn s)"

lemma viewInv_frame [simp]:
  "viewInv (noteHealth st e s) = viewInv s" "viewInv (s\<lparr>stopped := b\<rparr>) = viewInv s"
  "viewInv (s\<lparr>clock := d\<rparr>) = viewInv s"
  by (simp_all add: viewInv_def noteHealth_def)

lemma viewInv_goto:
  assumes "viewInv s" and "ownerView p (c_conn s) (live s)"
    and "\<And>c. p = DialGot c \<or> p = LoopGot c \<Longrightarrow> c < nextConn s"
  shows "viewInv (goto i p s)"
  using assms by (auto simp: viewInv_def goto_def)

lemma viewInv_spawn: "viewInv s \<Longrightarrow> p \<in> {WatchRead, CtxWait, CloseHealth} \<Longrightarrow> viewInv (spawn p s)"
  by (auto simp: viewInv_def spawn_def)

lemma viewInv_drop: "viewInv s \<Longrightarrow> viewInv (s\<lparr>live := live s - A\<rparr>)"
  by (auto simp: viewInv_def intro: ownerView_mono)

lemma viewInv_closeConn: "viewInv s \<Longrightarrow> viewInv (closeConn k s)"
  by (auto simp: closeConn_def viewInv_drop split: option.split)

lemma viewInv_forget: "viewInv s \<Longrightarrow> viewInv (s\<lparr>c_conn := None\<rparr>)"
  by (auto simp: viewInv_def ownerView_None)

text \<open>The owner may overwrite the field: nobody else looks at it.\<close>

lemma viewInv_store:
  assumes "viewInv s" and "soloInv s" and "owner (points s i)" and "points s i = DialGot c \<or> points s i = LoopGot c"
    and "ownerView p (Some c) (live s)" and "\<And>d. p \<noteq> DialGot d \<and> p \<noteq> LoopGot d"
  shows "viewInv (goto i p (s\<lparr>c_conn := Some c\<rparr>))"
proof -
  have "\<not> owner (points s j)" if "j \<noteq> i" for j using assms(2,3) that by (auto simp: soloInv_def)
  then show ?thesis
    using assms by (auto simp: viewInv_def goto_def soloInv_def ownerView_trivial)
qed

text \<open>A fresh connection is not the one in the field, and only the owner dials.\<close>

lemma viewInv_opened:
  assumes "viewInv s" and "soloInv s" and "opened s = (c, t)"
    and "points s i = DialCall \<and> p = DialGot c \<or> (\<exists>b. points s i = LoopDial b) \<and> p = LoopGot c"
  shows "viewInv (goto i p t)"
proof -
  have ot: "\<not> owner (points s j)" if "j \<noteq> i" for j
    using assms(2,4) that by (auto simp: soloInv_def)
  have "ownerView (points s i) (c_conn s) (live s)" using assms(1) by (simp add: viewInv_def)
  moreover have "c_conn s \<noteq> Some c" and c: "c = nextConn s"
    and t: "t = s\<lparr>live := insert c (live s), nextConn := Suc c\<rparr>"
    using assms(1,3) by (auto simp: viewInv_def opened_def)
  ultimately have "ownerView p (c_conn s) (insert c (live s))" using assms(4) by auto
  then show ?thesis
    using assms(1,4) ot by (auto simp: viewInv_def goto_def t c ownerView_trivial less_SucI)
qed

lemma viewInv_run:
  assumes "viewInv s" and "soloInv s" and "run i (points s i) s = Some t"
  shows "viewInv t"
proof -
  have v: "ownerView (points s i) (c_conn s) (live s)" using assms(1) by (simp add: viewInv_def)
  show ?thesis
  proof (cases "points s i")
    case (DialGot c)
    with assms v show ?thesis by (auto intro: viewInv_store viewInv_goto split: if_splits)
  next
    case (LoopGot c)
    with assms v show ?thesis by (auto intro!: viewInv_store)
  qed (use assms v in \<open>auto intro!: viewInv_goto viewInv_spawn viewInv_closeConn viewInv_forget
      simp: ownerView_None split: option.splits if_splits\<close>)
qed

lemma viewInv_fire:
  assumes "cfire e s = Some t" and "soloInv s" and "viewInv s"
  shows "viewInv t"
proof (cases e)
  case (Run i)
  with assms show ?thesis by (auto intro: viewInv_run)
next
  case CallDialContext
  then have "c_conn s = None" and t: "t = spawn CtxWait (spawn DialCheck (s\<lparr>dialed := True\<rparr>))"
    using assms(1,3) by (auto simp: viewInv_def split: if_splits)
  then have "viewInv (spawn DialCheck (s\<lparr>dialed := True\<rparr>))"
    using assms(3) by (auto simp: viewInv_def spawn_def ownerView_None)
  then show ?thesis unfolding t by (rule viewInv_spawn) simp
next
  case (DialOk i)
  with assms show ?thesis
    by (auto split: point.splits prod.splits intro!: viewInv_opened)
next
  case (CloseSeen i x)
  then obtain c where c: "points s i = Watching c" "c \<notin> live s" using assms(1) by (auto split: point.splits if_splits)
  have "ownerView (points s i) (c_conn s) (live s)" using assms(3) by (simp add: viewInv_def)
  with assms(1,3) CloseSeen c show ?thesis by (auto intro!: viewInv_goto split: if_splits)
next
  case (DialErr i x)
  have "ownerView (points s i) (c_conn s) (live s)" using assms(3) by (simp add: viewInv_def)
  with assms DialErr show ?thesis
    by (auto intro!: viewInv_goto split: point.splits)
qed (use assms in \<open>auto intro!: viewInv_goto viewInv_spawn viewInv_closeConn viewInv_drop split: point.splits if_splits\<close>)

text \<open>While the application runs, somebody watches the connection or re-establishes it.\<close>

definition aliveInv :: "connSys \<Rightarrow> bool" where
  "aliveInv s \<longleftrightarrow> (c_conn s = None \<or> stopped s \<or> (\<exists>i. owner (points s i))) \<and>
     (\<forall>i c. points s i = LoopDiscard c \<longrightarrow> stopped s)"

lemma aliveInv_goto:
  assumes "aliveInv s" and "owner (points s i) \<Longrightarrow> owner p \<or> stopped s \<or> c_conn s = None"
    and "\<And>c. p = LoopDiscard c \<Longrightarrow> stopped s"
  shows "aliveInv (goto i p s)"
  using assms by (auto simp: aliveInv_def goto_def) (metis+)?

lemma aliveInv_store:
  assumes "aliveInv s" and "owner p" and "\<And>c. p \<noteq> LoopDiscard c"
  shows "aliveInv (goto i p (s\<lparr>c_conn := k\<rparr>))"
  using assms by (auto simp: aliveInv_def goto_def)

lemma aliveInv_handover:
  assumes "aliveInv s" and "threadInv s" and "points s i \<noteq> NotStarted" and "\<And>c. p \<noteq> LoopDiscard c"
  shows "aliveInv (goto i p (spawn WatchRead s))"
proof -
  have "owner (points (goto i p (spawn WatchRead s)) (nextThread s))"
    using threadInvD [OF assms(2,3)] by (simp add: goto_def spawn_def)
  then show ?thesis using assms(1,4) unfolding aliveInv_def by (auto simp: goto_def spawn_def split: if_splits)
qed

lemma aliveInv_spawn:
  assumes "aliveInv s" and "threadInv s" and "\<And>c. p \<noteq> LoopDiscard c"
  shows "aliveInv (spawn p s)"
proof -
  have "i \<noteq> nextThread s" if "owner (points s i)" for i
    using threadInvD [OF assms(2), of i] that by (cases "points s i") auto
  then show ?thesis using assms(1,3) by (auto simp: aliveInv_def spawn_def) metis
qed

lemma aliveInv_frame [simp]:
  "aliveInv (noteHealth st e s) = aliveInv s" "aliveInv (closeConn k s) = aliveInv s"
  "aliveInv (s\<lparr>live := l\<rparr>) = aliveInv s" "aliveInv (s\<lparr>clock := d\<rparr>) = aliveInv s"
  "aliveInv (s\<lparr>dialed := f\<rparr>) = aliveInv s" "aliveInv (s\<lparr>nextConn := n\<rparr>) = aliveInv s"
  by (simp_all add: aliveInv_def)

lemma aliveInv_stop: "aliveInv s \<Longrightarrow> aliveInv (s\<lparr>stopped := True\<rparr>)"
  by (simp add: aliveInv_def)

lemma aliveInv_forget: "aliveInv s \<Longrightarrow> aliveInv (s\<lparr>c_conn := None\<rparr>)"
  by (simp add: aliveInv_def)

lemma aliveInv_run:
  assumes "run i (points s i) s = Some t" and "threadInv s" and "viewInv s" and "aliveInv s"
  shows "aliveInv t"
proof -
  have v: "ownerView (points s i) (c_conn s) (live s)" using assms(3) by (simp add: viewInv_def)
  have d: "points s i = LoopDiscard c \<Longrightarrow> stopped s" for c using assms(4) by (auto simp: aliveInv_def)
  show ?thesis
    using assms(1,2,4) v d
    by (cases "points s i")
      (auto intro: aliveInv_goto aliveInv_store aliveInv_handover aliveInv_forget split: if_splits option.splits)
qed

lemma aliveInv_fire:
  assumes "cfire e s = Some t" and "threadInv s" and "viewInv s" and "aliveInv s"
  shows "aliveInv t"
proof (cases e)
  case (Run i)
  with assms show ?thesis by (auto intro: aliveInv_run)
next
  case (DialErr i x)
  have "ownerView (points s i) (c_conn s) (live s)" using assms(3) by (simp add: viewInv_def)
  with assms DialErr show ?thesis by (auto intro!: aliveInv_goto split: point.splits)
qed (use assms in \<open>auto simp: opened_def isIntentionalClose_def threadInv_spawn
      intro!: aliveInv_goto aliveInv_spawn aliveInv_stop split: point.splits if_splits\<close>)

text \<open>Every open connection is about to be closed, about to be stored, or in the field with somebody to close it.\<close>

fun carries :: "point \<Rightarrow> connId \<Rightarrow> bool" where
  "carries (DialGot c) k = (c = k)"
| "carries (DialDiscard c) k = (c = k)"
| "carries (LoopGot c) k = (c = k)"
| "carries (LoopDiscard c) k = (c = k)"
| "carries (CloseConn c) k = (c = Some k)"
| "carries (CtxClose c) k = (c = Some k)"
| "carries _ k = False"

fun willClose :: "point \<Rightarrow> connId \<Rightarrow> bool" where
  "willClose CloseHealth k = True"
| "willClose CloseRead k = True"
| "willClose CtxTake k = True"
| "willClose (LoopStored c) k = (c = k)"
| "willClose _ k = False"

definition accounted :: "connSys \<Rightarrow> connId \<Rightarrow> bool" where
  "accounted s c \<longleftrightarrow> (\<exists>i. carries (points s i) c) \<or>
     c_conn s = Some c \<and> (\<not> stopped s \<or> (\<exists>i. willClose (points s i) c))"

definition leakInv :: "connSys \<Rightarrow> bool" where
  "leakInv s \<longleftrightarrow> (\<forall>c \<in> live s. accounted s c)"

text \<open>A goroutine moves on: what it carried is carried further, dropped from \<open>live\<close>, or in the field.\<close>

lemma accounted_goto:
  assumes "accounted s c" and "carries (points s i) c \<Longrightarrow> carries p c"
    and "willClose (points s i) c \<Longrightarrow> c_conn s = Some c \<Longrightarrow> stopped s \<Longrightarrow> willClose p c \<or> carries p c"
  shows "accounted (goto i p s) c"
  using assms by (auto simp: accounted_def goto_def) metis+

lemma leakInv_goto:
  assumes "leakInv s" and "\<And>c. c \<in> live s \<Longrightarrow> carries (points s i) c \<Longrightarrow> carries p c"
    and "\<And>c. c \<in> live s \<Longrightarrow> willClose (points s i) c \<Longrightarrow> c_conn s = Some c \<Longrightarrow> stopped s \<Longrightarrow> willClose p c \<or> carries p c"
  shows "leakInv (goto i p s)"
proof -
  have "live (goto i p s) = live s" by (simp add: goto_def)
  then show ?thesis using assms accounted_goto [of s _ i p] by (simp add: leakInv_def)
qed

lemma leakInv_frame [simp]:
  "leakInv (noteHealth st e s) = leakInv s" "leakInv (s\<lparr>clock := d\<rparr>) = leakInv s"
  "leakInv (s\<lparr>dialed := f\<rparr>) = leakInv s"
  by (simp_all add: leakInv_def accounted_def)

lemma leakInv_drop: "leakInv s \<Longrightarrow> leakInv (s\<lparr>live := live s - A\<rparr>)"
  by (auto simp: leakInv_def accounted_def)

lemma leakInv_closeConn: "leakInv s \<Longrightarrow> leakInv (closeConn k s)"
  by (auto simp: closeConn_def leakInv_drop split: option.split)

lemma live_closeConn: "live (closeConn k s) = live s - set_option k"
  by (auto simp: closeConn_def split: option.split)

lemma leakInv_spawn:
  assumes "leakInv s" and "threadInv s"
  shows "leakInv (spawn p s)"
proof -
  have "i \<noteq> nextThread s" if "carries (points s i) c \<or> willClose (points s i) c" for i c
    using threadInvD [OF assms(2), of i] that by (cases "points s i") auto
  then have "accounted (spawn p s) c" if "accounted s c" for c
    using that unfolding accounted_def spawn_def by (auto 4 4)
  then show ?thesis using assms(1) by (simp add: leakInv_def)
qed


lemma leakInv_dialStore:
  assumes "leakInv s" and "points s i = DialGot c" and "c_conn s = None" and "\<not> stopped s"
  shows "leakInv (goto i DialStored (s\<lparr>c_conn := Some c\<rparr>))"
proof -
  have "accounted (goto i DialStored (s\<lparr>c_conn := Some c\<rparr>)) k" if "accounted s k" for k
    using that assms(2-4) by (cases "k = c") (auto simp: accounted_def goto_def, metis carries.simps(1))
  then show ?thesis using assms(1) by (simp add: leakInv_def goto_def)
qed

lemma leakInv_loopStore:
  assumes "leakInv s" and "points s i = LoopGot c" and "\<And>k. c_conn s = Some k \<Longrightarrow> k \<notin> live s"
  shows "leakInv (goto i (LoopStored c) (s\<lparr>c_conn := Some c\<rparr>))"
proof -
  have "accounted (goto i (LoopStored c) (s\<lparr>c_conn := Some c\<rparr>)) k" if "accounted s k" "k \<in> live s" for k
  proof (cases "k = c")
    case True
    then show ?thesis by (auto simp: accounted_def goto_def)
  next
    case False
    obtain j where "carries (points s j) k"
      using \<open>accounted s k\<close> \<open>k \<in> live s\<close> assms(3) by (auto simp: accounted_def)
    with False assms(2) show ?thesis by (auto simp: accounted_def goto_def intro!: exI [of _ j])
  qed
  then show ?thesis using assms(1) by (simp add: leakInv_def goto_def)
qed

lemma leakInv_take:
  assumes "leakInv s" and "points s i = CtxTake"
  shows "leakInv (goto i (CtxClose (c_conn s)) (s\<lparr>c_conn := None\<rparr>))"
proof -
  have "accounted (goto i (CtxClose (c_conn s)) (s\<lparr>c_conn := None\<rparr>)) k" if "accounted s k" for k
  proof -
    have "\<not> carries (points s i) k" using assms(2) by simp
    with that show ?thesis unfolding accounted_def goto_def by (auto intro: exI [of _ i])
  qed
  then show ?thesis using assms(1) by (simp add: leakInv_def goto_def)
qed

lemma leakInv_stop:
  assumes "leakInv s" and "willClose p c0" and "\<And>c. willClose p c" and "points s i = CtxWait \<or> nextThread s = i"
    and "threadInv s"
  shows "leakInv (s\<lparr>stopped := True, points := (points s)(i := p), nextThread := n\<rparr>)"
proof -
  have none: "\<not> carries (points s i) c \<and> \<not> willClose (points s i) c" for c
    using assms(4,5) by (auto simp: threadInv_def)
  have "accounted (s\<lparr>stopped := True, points := (points s)(i := p), nextThread := n\<rparr>) k"
    if "accounted s k" for k
    using that assms(3) none by (auto simp: accounted_def) metis
  then show ?thesis using assms(1) by (simp add: leakInv_def)
qed

lemma leakInv_opened:
  assumes "leakInv s" and "opened s = (c, t)" and "p = DialGot c \<or> p = LoopGot c"
    and "points s i = DialCall \<or> points s i = LoopDial b"
  shows "leakInv (goto i p t)"
proof -
  have "accounted (goto i p t) k" if "accounted s k \<or> k = c" for k
    using that assms(2-4) by (auto simp: accounted_def goto_def opened_def) (metis carries.simps willClose.simps)+
  then show ?thesis using assms(1,2) by (auto simp: leakInv_def goto_def opened_def)
qed

lemma leakInv_run:
  assumes "run i (points s i) s = Some t" and "threadInv s" and "viewInv s" and "leakInv s"
  shows "leakInv t"
proof -
  have v: "ownerView (points s i) (c_conn s) (live s)" using assms(3) by (simp add: viewInv_def)
  show ?thesis
  proof (cases "points s i")
    case (DialGot c)
    with assms v show ?thesis by (auto intro: leakInv_dialStore leakInv_goto split: if_splits)
  next
    case (LoopGot c)
    with assms v show ?thesis by (auto intro: leakInv_loopStore)
  next
    case CtxTake
    with assms show ?thesis by (auto intro: leakInv_take)
  qed (use assms in \<open>auto intro!: leakInv_goto leakInv_spawn leakInv_closeConn
      simp: live_closeConn split: option.splits if_splits\<close>)
qed

lemma leakInv_fire:
  assumes "cfire e s = Some t" and "threadInv s" and "viewInv s" and "leakInv s"
  shows "leakInv t"
proof (cases e)
  case (Run i)
  with assms show ?thesis by (auto intro: leakInv_run)
next
  case CallClose
  with assms show ?thesis
    using leakInv_stop [of s CloseHealth 0 "nextThread s" "Suc (nextThread s)"] by (simp add: spawn_def)
next
  case (CtxDone i)
  with assms show ?thesis
    using leakInv_stop [of s CtxTake 0 i "nextThread s"] by (auto simp: goto_def split: if_splits)
next
  case (DialOk i)
  with assms show ?thesis by (auto split: point.splits prod.splits intro!: leakInv_opened)
next
  case CallDialContext
  with assms show ?thesis by (auto simp: threadInv_spawn intro!: leakInv_spawn split: if_splits)
qed (use assms in \<open>auto intro!: leakInv_goto leakInv_closeConn leakInv_drop simp: live_closeConn
      split: point.splits if_splits\<close>)

text \<open>The health snapshot follows \<^verbatim>\<open>stopped\<close>.\<close>

fun willMarkStopped :: "point \<Rightarrow> bool" where
  "willMarkStopped CloseHealth = True"
| "willMarkStopped CtxTake = True"
| "willMarkStopped (CtxClose c) = True"
| "willMarkStopped _ = False"

definition healthInv :: "connSys \<Rightarrow> bool" where
  "healthInv s \<longleftrightarrow> (stopped s \<longrightarrow> h_State (health s) = ConnectionStopped \<or> (\<exists>i. willMarkStopped (points s i)))"

lemma health_frame [simp]:
  "health (closeConn k s) = health s" "health (goto i p s) = health s" "health (spawn p s) = health s"
  by (simp_all add: closeConn_def goto_def spawn_def split: option.split)

lemma health_stopped_stable:
  assumes "cfire e s = Some t" and "h_State (health s) = ConnectionStopped"
  shows "h_State (health t) = ConnectionStopped"
proof (cases e)
  case (Run i)
  with assms show ?thesis
    by (cases "points s i") (auto simp: noteHealth_def setHealth_terminal split: if_splits)
qed (use assms in \<open>auto simp: noteHealth_def setHealth_terminal opened_def
      split: point.splits if_splits\<close>)

lemma healthInv_goto:
  assumes "healthInv s" and "willMarkStopped (points s i) \<Longrightarrow> willMarkStopped p \<or> h_State (health s) = ConnectionStopped"
  shows "healthInv (goto i p s)"
  using assms by (auto simp: healthInv_def goto_def) metis+

lemma healthInv_note: "healthInv s \<Longrightarrow> healthInv (noteHealth st e s)"
  by (auto simp: healthInv_def noteHealth_def setHealth_terminal)

lemma health_note_stopped [simp]:
  "h_State (health (noteHealth ConnectionStopped e s)) = ConnectionStopped"
  by (simp add: noteHealth_def setHealth_stopped)

lemma healthInv_spawn:
  assumes "healthInv s" and "threadInv s"
  shows "healthInv (spawn p s)"
proof -
  have "j \<noteq> nextThread s" if "willMarkStopped (points s j)" for j
    using threadInvD [OF assms(2), of j] that by (cases "points s j") auto
  then show ?thesis using assms(1) by (auto simp: healthInv_def spawn_def)
qed

lemma healthInv_frame [simp]:
  "healthInv (closeConn k s) = healthInv s" "healthInv (s\<lparr>live := l\<rparr>) = healthInv s"
  "healthInv (s\<lparr>clock := d\<rparr>) = healthInv s" "healthInv (s\<lparr>dialed := f\<rparr>) = healthInv s"
  "healthInv (s\<lparr>nextConn := n\<rparr>) = healthInv s" "healthInv (s\<lparr>c_conn := c\<rparr>) = healthInv s"
  by (simp_all add: healthInv_def)

lemma healthInv_run:
  assumes "run i (points s i) s = Some t" and "threadInv s" and "healthInv s"
  shows "healthInv t"
  using assms
  by (cases "points s i")
    (auto intro!: healthInv_goto healthInv_note healthInv_spawn
      split: if_splits)

lemma healthInv_fire:
  assumes "cfire e s = Some t" and "threadInv s" and "healthInv s"
  shows "healthInv t"
proof (cases e)
  case (Run i)
  with assms show ?thesis by (auto intro: healthInv_run)
next
  case CallClose
  with assms(1) show ?thesis by (auto simp: healthInv_def spawn_def intro!: exI [of _ "nextThread s"])
next
  case (CtxDone i)
  with assms(1) show ?thesis by (auto simp: healthInv_def goto_def split: if_splits intro!: exI [of _ i])
qed (use assms in \<open>auto simp: opened_def threadInv_spawn
      intro!: healthInv_goto healthInv_note healthInv_spawn split: point.splits if_splits\<close>)

text \<open>The reconnect delay.\<close>

fun delayOf :: "point \<Rightarrow> duration option" where
  "delayOf (LoopTop b) = Some b"
| "delayOf (LoopSleep b) = Some b"
| "delayOf (LoopDial b) = Some b"
| "delayOf _ = None"

definition delayInv :: "connSys \<Rightarrow> bool" where
  "delayInv s \<longleftrightarrow> (\<forall>i b. delayOf (points s i) = Some b \<longrightarrow> goSecond \<le> b \<and> b \<le> 30 * goSecond)"

lemma delayInv_goto:
  assumes "delayInv s" and "\<And>b. delayOf p = Some b \<Longrightarrow> goSecond \<le> b \<and> b \<le> 30 * goSecond"
  shows "delayInv (goto i p s)"
  using assms by (auto simp: delayInv_def goto_def)

lemma delayInv_spawn: "delayInv s \<Longrightarrow> delayOf p = None \<Longrightarrow> delayInv (spawn p s)"
  by (auto simp: delayInv_def spawn_def)

lemma delayInv_frame [simp]:
  "delayInv (closeConn k s) = delayInv s" "delayInv (s\<lparr>live := l\<rparr>) = delayInv s"
  "delayInv (s\<lparr>clock := d\<rparr>) = delayInv s" "delayInv (s\<lparr>dialed := f\<rparr>) = delayInv s"
  "delayInv (s\<lparr>nextConn := n\<rparr>) = delayInv s" "delayInv (s\<lparr>c_conn := c\<rparr>) = delayInv s"
  "delayInv (noteHealth st e s) = delayInv s" "delayInv (s\<lparr>stopped := b\<rparr>) = delayInv s"
  by (simp_all add: delayInv_def)

lemma nextBackoff_delay:
  assumes "goSecond \<le> b" and "b \<le> 30 * goSecond"
  shows "goSecond \<le> nextBackoff reconnectMaxBackoff b \<and> nextBackoff reconnectMaxBackoff b \<le> 30 * goSecond"
proof -
  have "0 < b" "b \<le> reconnectMaxBackoff" "reconnectMaxBackoff < 2 ^ 62"
    using assms by (auto simp: reconnectMaxBackoff_def goSecond_def)
  from nextBackoff_range(2,3) [OF this] assms show ?thesis by (auto simp: reconnectMaxBackoff_def)
qed

lemma initial_delay: "goSecond \<le> reconnectInitialBackoff" "reconnectInitialBackoff \<le> 30 * goSecond"
  by (simp_all add: reconnectInitialBackoff_def goSecond_def)

lemma delayInv_run:
  assumes "run i (points s i) s = Some t" and "delayInv s"
  shows "delayInv t"
proof -
  have d: "goSecond \<le> b \<and> b \<le> 30 * goSecond" if "delayOf (points s i) = Some b" for b
    using assms(2) that by (auto simp: delayInv_def)
  show ?thesis
    using assms d
    by (cases "points s i")
      (auto intro!: delayInv_goto delayInv_spawn simp: initial_delay split: option.splits if_splits)
qed

lemma delayInv_fire:
  assumes "cfire e s = Some t" and "delayInv s"
  shows "delayInv t"
proof -
  have d: "goSecond \<le> b \<and> b \<le> 30 * goSecond" if "delayOf (points s i) = Some b" for i b
    using assms(2) that by (auto simp: delayInv_def)
  show ?thesis
  proof (cases e)
    case (Run i)
    with assms show ?thesis by (auto intro: delayInv_run)
  next
    case (DialErr i x)
    show ?thesis
    proof (cases "\<exists>b. points s i = LoopDial b")
      case True
      then obtain b where b: "points s i = LoopDial b" by blast
      with d [of i b] have "goSecond \<le> b" "b \<le> 30 * goSecond" by simp_all
      with nextBackoff_delay [of b] DialErr assms b show ?thesis by (auto intro!: delayInv_goto)
    qed (use DialErr assms in \<open>auto intro!: delayInv_goto split: point.splits\<close>)
  qed (use assms in \<open>auto simp: opened_def intro!: delayInv_goto delayInv_spawn split: point.splits if_splits\<close>)
qed

definition connInv :: "connSys \<Rightarrow> bool" where
  "connInv s \<longleftrightarrow> threadInv s \<and> soloInv s \<and> viewInv s \<and> aliveInv s \<and> leakInv s \<and> healthInv s \<and> delayInv s"

interpretation connection: machine_invariant "\<lambda>s. s = newConnection" connStep connInv
proof unfold_locales
  show "connInv s" if "s = newConnection" for s
    by (simp add: that newConnection_def connInv_def threadInv_def soloInv_def viewInv_def aliveInv_def
        leakInv_def healthInv_def delayInv_def)
  show "connInv t" if "connInv s" "connStep s t" for s t
    using that unfolding connInv_def connStep_def
    by (blast intro: threadInv_fire soloInv_fire viewInv_fire aliveInv_fire leakInv_fire healthInv_fire
        delayInv_fire)
qed


section \<open>The reconnect schedule\<close>

text \<open>
  What a round of \<^verbatim>\<open>reconnectLoop\<close> meets: \<^verbatim>\<open>stopped\<close> set before or after the sleep, a failed dial, a
  successful one. The result is the list of its sleeps.
\<close>

datatype reconnectRound = StoppedBefore | StoppedAfter | DialFails goerror | DialSucceeds

fun reconnectLoop :: "duration \<Rightarrow> reconnectRound list \<Rightarrow> duration list" where
  "reconnectLoop backoff [] = []"
| "reconnectLoop backoff (StoppedBefore # rs) = []"
| "reconnectLoop backoff (StoppedAfter # rs) = [backoff]"
| "reconnectLoop backoff (DialFails e # rs) = backoff # reconnectLoop (nextBackoff reconnectMaxBackoff backoff) rs"
| "reconnectLoop backoff (DialSucceeds # rs) = [backoff]"

fun dialFails :: "reconnectRound \<Rightarrow> bool" where
  "dialFails (DialFails e) = True"
| "dialFails _ = False"

interpretation reconnect: retry_loop reconnectLoop dialFails reconnectMaxBackoff
proof unfold_locales
  show "dialFails x \<Longrightarrow> reconnectLoop b (x # xs) = b # reconnectLoop (nextBackoff reconnectMaxBackoff b) xs"
    for x b xs by (cases x) auto
  show "\<not> dialFails x \<Longrightarrow> reconnectLoop b (x # xs) = [] \<or> reconnectLoop b (x # xs) = [b]"
    for x b xs by (cases x) auto
qed simp

section \<open>Properties\<close>

lemma connTrace_reach:
  assumes "runTrace cfire es newConnection = Some t"
  shows "reach (\<lambda>s. s = newConnection) connStep t"
  by (rule runTrace_reach [OF assms]) (auto simp: connStep_def intro: reach_init)

definition dialAndClose :: "cevent list" where
  "dialAndClose = [CallDialContext, Run 0, DialOk 0, Run 0, Run 0, CtxReturn 1, Run 2,
     ConnDies 0, CloseSeen 2 None, Run 2, Run 2, Run 2, DialOk 2, CallClose, Run 2, Run 3, Run 3, Run 2, Run 3, Run 2]"

lemmas conn_eval = newConnection_def conn_ops dialAndClose_def isIntentionalClose_def

text \<open>C11: No leaked broker connection: once the application has stopped and no goroutine is still in
  the middle of closing or handing over a connection, no connection is open, however \<^verbatim>\<open>Close\<close>, a
  cancelled \<^verbatim>\<open>DialContext\<close>, the dial and the reconnect loop were interleaved.\<close>

theorem connection_no_leak:
  assumes "reach (\<lambda>s. s = newConnection) connStep s" and "stopped s"
    and "\<forall>i c. \<not> carries (points s i) c \<and> \<not> willClose (points s i) c"
  shows "live s = {}"
proof -
  have "leakInv s" using connection.reach_inv [OF assms(1)] by (simp add: connInv_def)
  with assms(2,3) show ?thesis by (auto simp: leakInv_def accounted_def)
qed

theorem connection_no_leak_witness:
  "\<exists>s. runTrace cfire dialAndClose newConnection = Some s \<and> stopped s \<and> nextConn s = 2 \<and> live s = {}"
proof -
  obtain s where run: "runTrace cfire dialAndClose newConnection = Some s"
    and s: "stopped s" "nextConn s = 2" "\<forall>i. points s i = NotStarted \<or> points s i = Finished"
    by (simp add: conn_eval eval_nat_numeral)
  have "reach (\<lambda>s. s = newConnection) connStep s"
    by (rule connTrace_reach [OF run])
  moreover have "\<forall>i c. \<not> carries (points s i) c \<and> \<not> willClose (points s i) c"
    using s(3) by (metis carries.simps(7,24) willClose.simps(5,24))
  ultimately show ?thesis using connection_no_leak [of s] run s by blast
qed

text \<open>C12: Exactly one goroutine is responsible for the connection: never two dials, watchers or reconnect
  loops at once, and as long as the application has a connection and was not stopped there is one,
  so a lost connection never goes unnoticed; its reconnect delay is between one and thirty seconds.\<close>

theorem connection_single_owner:
  assumes "reach (\<lambda>s. s = newConnection) connStep s"
  shows "(\<forall>i j. owner (points s i) \<and> owner (points s j) \<longrightarrow> i = j) \<and>
    (c_conn s \<noteq> None \<and> \<not> stopped s \<longrightarrow> (\<exists>!i. owner (points s i))) \<and>
    (\<forall>i b. delayOf (points s i) = Some b \<longrightarrow> goSecond \<le> b \<and> b \<le> 30 * goSecond)"
proof -
  have "soloInv s" "aliveInv s" "delayInv s"
    using connection.reach_inv [OF assms] by (simp_all add: connInv_def)
  then show ?thesis by (auto simp: soloInv_def aliveInv_def delayInv_def)
qed

theorem connection_single_owner_witness:
  "\<exists>s. runTrace cfire (take 7 dialAndClose) newConnection = Some s \<and> c_conn s = Some 0 \<and> \<not> stopped s \<and>
     (\<exists>!i. owner (points s i))"
proof -
  obtain s where run: "runTrace cfire (take 7 dialAndClose) newConnection = Some s"
    and s: "c_conn s = Some 0" "\<not> stopped s"
    by (simp add: conn_eval)
  have "reach (\<lambda>s. s = newConnection) connStep s"
    by (rule connTrace_reach [OF run])
  from connection_single_owner [OF this] run s show ?thesis by auto
qed

text \<open>Stopped is terminal in the health snapshot: no late dial failure, reconnect or close event moves
  it back; and once \<^verbatim>\<open>Close\<close> or the cancelled \<^verbatim>\<open>DialContext\<close> has run to its end the snapshot says stopped.\<close>

theorem connection_stopped_terminal:
  assumes "reach (\<lambda>s. s = newConnection) connStep s" and "cfire e s = Some t"
  shows "(h_State (health s) = ConnectionStopped \<longrightarrow> h_State (health t) = ConnectionStopped) \<and>
    (stopped s \<longrightarrow> stopped t) \<and>
    (stopped s \<and> (\<forall>i. \<not> willMarkStopped (points s i)) \<longrightarrow> h_State (health s) = ConnectionStopped)"
proof -
  have "healthInv s" using connection.reach_inv [OF assms(1)] by (simp add: connInv_def)
  moreover have "stopped s \<longrightarrow> stopped t"
  proof (cases e)
    case (Run i)
    with assms(2) show ?thesis by (cases "points s i") (auto simp: goto_def split: if_splits)
  qed (use assms(2) in \<open>auto simp: goto_def opened_def split: point.splits if_splits\<close>)
  ultimately show ?thesis using health_stopped_stable [OF assms(2)] by (auto simp: healthInv_def)
qed

theorem connection_stopped_terminal_witness:
  "\<exists>s t. runTrace cfire (take 16 dialAndClose) newConnection = Some s \<and> cfire (Run 2) s = Some t \<and>
     h_State (health s) = ConnectionStopped \<and> h_State (health t) = ConnectionStopped \<and> stopped t"
proof -
  obtain s where run: "runTrace cfire (take 16 dialAndClose) newConnection = Some s"
    and s: "h_State (health s) = ConnectionStopped" "stopped s" "cfire (Run 2) s \<noteq> None"
    by (simp add: conn_eval eval_nat_numeral setHealth_def)
  then obtain t where t: "cfire (Run 2) s = Some t" by blast
  have "reach (\<lambda>s. s = newConnection) connStep s"
    by (rule connTrace_reach [OF run])
  from connection_stopped_terminal [OF this t] run s t show ?thesis by blast
qed

end
