(* ===== verification/Rabbit_App.thy ===== *)
theory Rabbit_App
  imports Rabbit_Topology Rabbit_Consumer Rabbit_Connection
begin

text \<open>
  The application (\<^verbatim>\<open>internal/rabbit/application.go\<close>): start-up and its error paths, the listeners it
  starts, restoring the consumers after a reconnect, the health snapshot
  (with its public copy of \<^verbatim>\<open>rabbit/health.go\<close>), and the shutdown protocol of its two wait groups.
\<close>

section \<open>Listeners\<close>

text \<open>
  A listener is made for a kind exactly when the registry has names of that kind when \<^verbatim>\<open>Start\<close> runs
  (the notification listener when the notification queue got a name); the reply listener always is.
  \<^verbatim>\<open>namedConsumers\<close> lists them in this order, and \<^verbatim>\<open>startListeners\<close> starts them in the same order, each
  on its queue.
\<close>

definition namedConsumers :: "appNames \<Rightarrow> gostring list" where
  "namedConsumers a =
     (if an_EventNames a \<noteq> [] then [''event''] else []) @
     (if an_CommandNames a \<noteq> [] then [''command''] else []) @
     (if an_QueryNames a \<noteq> [] then [''query''] else []) @
     [''reply''] @
     (if an_notificationQueueName a \<noteq> [] then [''notification''] else [])"

definition listenerQueue :: "appNames \<Rightarrow> gostring \<Rightarrow> gostring" where
  "listenerQueue a kind =
     (if kind = ''event'' then AppName (an_cfg a) @ ''.subsEvents''
      else if kind = ''command'' then AppName (an_cfg a)
      else if kind = ''query'' then AppName (an_cfg a) @ ''.query''
      else if kind = ''reply'' then an_replyQueueName a
      else an_notificationQueueName a)"

text \<open>
  \<open>start kind queue\<close> is the error of that listener's \<^verbatim>\<open>Start\<close>. The result lists the starts attempted and
  the joined error, \<^verbatim>\<open>errors.Join(errs...)\<close>, which is nil for no errors.
\<close>

definition startListeners :: "(gostring \<Rightarrow> gostring \<Rightarrow> goerror option) \<Rightarrow> appNames \<Rightarrow>
    (gostring \<times> gostring) list \<times> goerror option" where
  "startListeners start a =
     (let attempts = map (\<lambda>kind. (kind, listenerQueue a kind)) (namedConsumers a);
          errs = concat (map (\<lambda>(kind, q). case start kind q of None \<Rightarrow> [] | Some e \<Rightarrow> [Wrapped (kind @ '' listener'') e]) attempts)
      in (attempts, if errs = [] then None else Some (Joined errs)))"

definition bringUpConsumers :: "goerror + channel \<Rightarrow> (gostring \<Rightarrow> gostring \<Rightarrow> goerror option) \<Rightarrow> appNames \<Rightarrow>
    amqpCall list \<times> (gostring \<times> gostring) list \<times> goerror option" where
  "bringUpConsumers topoCh start a =
     (case declareTopology topoCh a of
        (calls, Some e) \<Rightarrow> (calls, [], Some e)
      | (calls, None) \<Rightarrow> (calls, startListeners start a))"

section \<open>Start\<close>

text \<open>What \<^verbatim>\<open>Start\<close> does, phase by phase.\<close>

datatype startAction =
    ActDial
  | ActNewSender
  | ActBringUp
  | ActRegisterHooks
  | ActCloseReady
  | ActWaitCtx
  | ActShuttingDown
  | ActDrain
  | ActMarkConsumersStopped
  | ActCloseConn

text \<open>\<open>dial\<close>, \<open>newSender\<close>, \<open>bringUp\<close> and \<open>closeConn\<close> are the errors of these calls.\<close>

definition Start :: "goerror option \<Rightarrow> goerror option \<Rightarrow> goerror option \<Rightarrow> goerror option \<Rightarrow> startAction list \<times> goerror option" where
  "Start dial newSender bringUp closeErr =
     (case dial of
        Some e \<Rightarrow> ([ActDial], Some e)
      | None \<Rightarrow>
        (case newSender of
           Some e \<Rightarrow> ([ActDial, ActNewSender, ActCloseConn], Some e)
         | None \<Rightarrow>
           (case bringUp of
              Some e \<Rightarrow> ([ActDial, ActNewSender, ActBringUp, ActCloseConn], Some e)
            | None \<Rightarrow> ([ActDial, ActNewSender, ActBringUp, ActRegisterHooks, ActCloseReady, ActWaitCtx,
                        ActShuttingDown, ActDrain, ActMarkConsumersStopped, ActCloseConn], closeErr))))"

section \<open>Restoring consumers after a reconnect\<close>

text \<open>
  A round of \<^verbatim>\<open>restoreWithBackoff\<close>: a newer generation took over; the attempt succeeded; it failed and
  the context ended during the wait; it failed and the wait was slept out.
\<close>

datatype restoreRound = NewerGeneration | Restored | FailedThenCtxDone goerror | FailedThenSlept goerror

definition restoreInitial :: duration where "restoreInitial = 1 * goSecond"
definition restoreMax :: duration where "restoreMax = 30 * goSecond"

fun restoreWithBackoff :: "duration \<Rightarrow> restoreRound list \<Rightarrow> duration list" where
  "restoreWithBackoff backoff [] = []"
| "restoreWithBackoff backoff (NewerGeneration # rs) = []"
| "restoreWithBackoff backoff (Restored # rs) = []"
| "restoreWithBackoff backoff (FailedThenCtxDone e # rs) = []"
| "restoreWithBackoff backoff (FailedThenSlept e # rs) = backoff # restoreWithBackoff (nextBackoff restoreMax backoff) rs"

fun restoreFailed :: "restoreRound \<Rightarrow> bool" where
  "restoreFailed (FailedThenSlept e) = True"
| "restoreFailed _ = False"

interpretation restore: retry_loop restoreWithBackoff restoreFailed restoreMax
proof unfold_locales
  show "restoreFailed x \<Longrightarrow> restoreWithBackoff b (x # xs) = b # restoreWithBackoff (nextBackoff restoreMax b) xs"
    for x b xs by (cases x) auto
  show "\<not> restoreFailed x \<Longrightarrow> restoreWithBackoff b (x # xs) = [] \<or> restoreWithBackoff b (x # xs) = [b]"
    for x b xs by (cases x) auto
qed simp

section \<open>Health\<close>

record Health =
  hl_Ready :: bool
  hl_Connection :: ConnectionHealth
  hl_Consumers :: "gostring \<rightharpoonup> ConsumerHealth"
  hl_Healthy :: bool

text \<open>\<open>refs\<close> pairs the listener kinds with the snapshots of their supervisors.\<close>

fun addConsumer :: "(gostring \<rightharpoonup> ConsumerHealth) \<times> bool \<Rightarrow> gostring \<times> ConsumerHealth \<Rightarrow>
    (gostring \<rightharpoonup> ConsumerHealth) \<times> bool" where
  "addConsumer (m, ok) (name, ch) = (m(name \<mapsto> ch), ok \<and> ch_State ch = ConsumerRunning)"

definition Health_of :: "bool \<Rightarrow> ConnectionHealth option \<Rightarrow> (gostring \<times> ConsumerHealth) list \<Rightarrow> Health" where
  "Health_of ready conn refs =
     (let hc = (case conn of
                  None \<Rightarrow> \<lparr>h_State = ConnectionIdle, h_Since = 0, h_LastError = []\<rparr>
                | Some h \<Rightarrow> h);
          (consumers, ok) =
            foldl addConsumer (Map.empty, ready \<and> h_State hc = ConnectionConnected) refs
      in \<lparr>hl_Ready = ready, hl_Connection = hc, hl_Consumers = consumers, hl_Healthy = ok\<rparr>)"

text \<open>The public snapshot copies the internal one field by field.\<close>

definition healthFromInternal :: "Health \<Rightarrow> Health" where
  "healthFromInternal h =
     \<lparr>hl_Ready = hl_Ready h,
      hl_Connection = \<lparr>h_State = h_State (hl_Connection h), h_Since = h_Since (hl_Connection h),
                       h_LastError = h_LastError (hl_Connection h)\<rparr>,
      hl_Consumers = (\<lambda>name. map_option (\<lambda>c. \<lparr>ch_State = ch_State c, ch_Since = ch_Since c,
                                              ch_LastError = ch_LastError c\<rparr>) (hl_Consumers h name)),
      hl_Healthy = hl_Healthy h\<rparr>"

definition markConsumersStopped :: "consumerSys list \<Rightarrow> consumerSys list" where
  "markConsumersStopped = map markStopped"

section \<open>Shutdown\<close>

text \<open>
  The two wait groups: \<open>restoring\<close> counts the restore goroutines (\<^verbatim>\<open>restoreWg\<close>), \<open>supervisors\<close> the running
  supervisors (\<^verbatim>\<open>shutdownWg\<close>). The waiting goroutine is before the first \<^verbatim>\<open>Wait\<close>, between the two, or past both.
\<close>

datatype waitPoint = NotWaiting | WaitRestores | WaitSupervisors | DrainDone

record shutdownSys =
  shuttingDown :: bool
  restoreGen :: nat
  restoring :: nat
  supervisors :: nat
  waiter :: waitPoint

definition runningApp :: "nat \<Rightarrow> shutdownSys" where
  "runningApp n = \<lparr>shuttingDown = False, restoreGen = 0, restoring = 0, supervisors = n, waiter = NotWaiting\<rparr>"

datatype dev = ReconnectHook | RestoreLaunches | RestoreEnds | SupervisorExits | CtxEnds | BeginWait | RestoresWaited | SupervisorsWaited

fun dfire :: "dev \<Rightarrow> shutdownSys \<Rightarrow> shutdownSys option" where
  "dfire ReconnectHook s =
     (let s1 = s\<lparr>restoreGen := Suc (restoreGen s)\<rparr>
      in Some (if shuttingDown s then s1 else s1\<lparr>restoring := Suc (restoring s)\<rparr>))"
| "dfire RestoreLaunches s = (if restoring s > 0 then Some (s\<lparr>supervisors := Suc (supervisors s)\<rparr>) else None)"
| "dfire RestoreEnds s = (if restoring s > 0 then Some (s\<lparr>restoring := restoring s - 1\<rparr>) else None)"
| "dfire SupervisorExits s = (if supervisors s > 0 then Some (s\<lparr>supervisors := supervisors s - 1\<rparr>) else None)"
| "dfire CtxEnds s = Some (s\<lparr>shuttingDown := True\<rparr>)"
| "dfire BeginWait s = (if shuttingDown s \<and> waiter s = NotWaiting then Some (s\<lparr>waiter := WaitRestores\<rparr>) else None)"
| "dfire RestoresWaited s =
     (if waiter s = WaitRestores \<and> restoring s = 0 then Some (s\<lparr>waiter := WaitSupervisors\<rparr>) else None)"
| "dfire SupervisorsWaited s =
     (if waiter s = WaitSupervisors \<and> supervisors s = 0 then Some (s\<lparr>waiter := DrainDone\<rparr>) else None)"

definition shutdownStep :: "shutdownSys \<Rightarrow> shutdownSys \<Rightarrow> bool" where
  "shutdownStep s t \<longleftrightarrow> (\<exists>e. dfire e s = Some t)"

definition shutdownInv :: "shutdownSys \<Rightarrow> bool" where
  "shutdownInv s \<longleftrightarrow>
     (waiter s \<noteq> NotWaiting \<longrightarrow> shuttingDown s) \<and>
     (waiter s = WaitSupervisors \<or> waiter s = DrainDone \<longrightarrow> restoring s = 0) \<and>
     (waiter s = DrainDone \<longrightarrow> supervisors s = 0)"

lemma shutdownInv_fire: "dfire e s = Some t \<Longrightarrow> shutdownInv s \<Longrightarrow> shutdownInv t"
  by (cases e) (auto simp: shutdownInv_def Let_def split: if_splits)

interpretation shutdown: machine_invariant "\<lambda>s. \<exists>n. s = runningApp n" shutdownStep shutdownInv
proof unfold_locales
  show "shutdownInv s" if "\<exists>n. s = runningApp n" for s
    using that by (auto simp: shutdownInv_def runningApp_def)
  show "shutdownInv t" if "shutdownInv s" "shutdownStep s t" for s t
    using that shutdownInv_fire unfolding shutdownStep_def by blast
qed

section \<open>Properties\<close>

text \<open>\<^verbatim>\<open>startListeners\<close> attempts every configured listener, each on its own queue, whatever the others
  answered; it fails exactly when one of them failed, and the joined error has one entry per failure,
  in order, naming the listener.\<close>

theorem startListeners_attempts_all:
  "fst (startListeners start a) = map (\<lambda>k. (k, listenerQueue a k)) (namedConsumers a) \<and>
   (snd (startListeners start a) = None \<longleftrightarrow> list_all (\<lambda>k. start k (listenerQueue a k) = None) (namedConsumers a)) \<and>
   distinct (namedConsumers a) \<and> ''reply'' \<in> set (namedConsumers a) \<and>
   (case snd (startListeners start a) of
      Some (Joined errs) \<Rightarrow> length errs = length (filter (\<lambda>k. start k (listenerQueue a k) \<noteq> None) (namedConsumers a))
    | None \<Rightarrow> True
    | _ \<Rightarrow> False)"
proof -
  let ?errs = "\<lambda>ks. concat (map (\<lambda>(kind, q). case start kind q of None \<Rightarrow> [] | Some e \<Rightarrow> [Wrapped (kind @ '' listener'') e])
      (map (\<lambda>k. (k, listenerQueue a k)) ks))"
  have none: "?errs ks = [] \<longleftrightarrow> list_all (\<lambda>k. start k (listenerQueue a k) = None) ks" for ks
    by (induction ks) (auto split: option.splits)
  have len: "length (?errs ks) = length (filter (\<lambda>k. start k (listenerQueue a k) \<noteq> None) ks)" for ks
    by (induction ks) (auto split: option.splits)
  have "distinct (namedConsumers a) \<and> ''reply'' \<in> set (namedConsumers a)"
    by (simp add: namedConsumers_def)
  then show ?thesis using none [of "namedConsumers a"] len [of "namedConsumers a"]
    by (simp add: startListeners_def Let_def)
qed



lemma Health_fold:
  "foldl addConsumer (m, ok) refs =
     (m ++ map_of (rev refs), ok \<and> list_all (\<lambda>r. ch_State (snd r) = ConsumerRunning) refs)"
proof (induction refs arbitrary: m ok)
  case (Cons r refs)
  obtain name ch where r: "r = (name, ch)" by fastforce
  have upd: "m(name \<mapsto> ch) ++ map_of (rev refs) = m ++ map_of (rev (r # refs))"
    by (auto simp: r map_add_def fun_eq_iff split: option.split)
  have "foldl addConsumer (m, ok) (r # refs) =
      (m(name \<mapsto> ch) ++ map_of (rev refs), (ok \<and> ch_State ch = ConsumerRunning) \<and>
         list_all (\<lambda>r. ch_State (snd r) = ConsumerRunning) refs)"
    by (simp only: r foldl_Cons addConsumer.simps Cons)
  then show ?case by (simp only: upd) (simp add: r)
qed simp

text \<open>The health snapshot is healthy exactly when start-up completed, the connection is connected and
  every configured consumer is running; it lists exactly the configured consumers, an application
  that was never started is idle and not healthy, and the public snapshot is an exact copy.\<close>

theorem Health_correct:
  assumes "distinct (map fst refs)"
  shows "(hl_Healthy (Health_of ready conn refs) \<longleftrightarrow>
      ready \<and> (\<exists>h. conn = Some h \<and> h_State h = ConnectionConnected) \<and>
      (\<forall>name ch. hl_Consumers (Health_of ready conn refs) name = Some ch \<longrightarrow> ch_State ch = ConsumerRunning)) \<and>
    hl_Consumers (Health_of ready conn refs) = map_of refs \<and>
    h_State (hl_Connection (Health_of ready None refs)) = ConnectionIdle \<and>
    healthFromInternal (Health_of ready conn refs) = Health_of ready conn refs"
proof -
  have m: "map_of (rev refs) = map_of refs"
    using assms by (metis distinct_rev map_of_inject_set rev_map set_rev)
  then have c: "hl_Consumers (Health_of ready conn refs) = map_of refs"
    by (simp add: Health_of_def Let_def Health_fold)
  have all: "list_all (\<lambda>r. ch_State (snd r) = ConsumerRunning) refs \<longleftrightarrow>
      (\<forall>name ch. map_of refs name = Some ch \<longrightarrow> ch_State ch = ConsumerRunning)"
  proof
    assume "list_all (\<lambda>r. ch_State (snd r) = ConsumerRunning) refs"
    then show "\<forall>name ch. map_of refs name = Some ch \<longrightarrow> ch_State ch = ConsumerRunning"
      by (auto simp: list_all_iff dest!: map_of_SomeD)
  next
    assume run: "\<forall>name ch. map_of refs name = Some ch \<longrightarrow> ch_State ch = ConsumerRunning"
    show "list_all (\<lambda>r. ch_State (snd r) = ConsumerRunning) refs"
      unfolding list_all_iff
    proof
      fix r assume "r \<in> set refs"
      then have "map_of refs (fst r) = Some (snd r)" using map_of_is_SomeI [OF assms] by simp
      with run show "ch_State (snd r) = ConsumerRunning" by blast
    qed
  qed
  have h: "hl_Healthy (Health_of ready conn refs) \<longleftrightarrow> ready \<and> (\<exists>h. conn = Some h \<and> h_State h = ConnectionConnected) \<and>
      list_all (\<lambda>r. ch_State (snd r) = ConsumerRunning) refs"
    by (auto simp: Health_of_def Let_def Health_fold split: option.splits)
  have "map_option (\<lambda>c. \<lparr>ch_State = ch_State c, ch_Since = ch_Since c, ch_LastError = ch_LastError c\<rparr>) = (\<lambda>x. x)"
    by (auto simp: fun_eq_iff map_option_idI)
  then have "healthFromInternal x = x" for x
    by (simp add: healthFromInternal_def)
  moreover have "h_State (hl_Connection (Health_of ready None refs)) = ConnectionIdle"
    by (simp add: Health_of_def Let_def split_beta)
  ultimately show ?thesis using c all h by presburger
qed

theorem Health_correct_witness:
  "hl_Healthy (Health_of True (Some \<lparr>h_State = ConnectionConnected, h_Since = 1, h_LastError = []\<rparr>)
     [(''reply'', \<lparr>ch_State = ConsumerRunning, ch_Since = 2, ch_LastError = []\<rparr>)])"
  using Health_correct [of "[(''reply'', \<lparr>ch_State = ConsumerRunning, ch_Since = 2, ch_LastError = []\<rparr>)]" True
      "Some \<lparr>h_State = ConnectionConnected, h_Since = 1, h_LastError = []\<rparr>"]
  by simp

text \<open>C28: No restore outlives the shutdown drain: once the drain waits for the supervisors, no restore
  goroutine is running and none can start, so no supervisor is added to a wait group that is being
  waited for; when the drain is done no supervisor is left.\<close>

theorem shutdown_drain:
  assumes "reach (\<lambda>s. \<exists>n. s = runningApp n) shutdownStep s" and "waiter s = WaitSupervisors \<or> waiter s = DrainDone"
    and "dfire e s = Some t"
  shows "restoring s = 0 \<and> restoring t = 0 \<and> e \<noteq> RestoreLaunches \<and> supervisors t \<le> supervisors s \<and>
    (waiter s = DrainDone \<longrightarrow> supervisors t = 0)"
proof -
  have "shutdownInv s" "shutdownInv t"
    using shutdown.reach_inv [OF assms(1)] shutdownInv_fire [OF assms(3)] by auto
  then show ?thesis
    using assms(2,3) by (cases e) (auto simp: shutdownInv_def Let_def split: if_splits)
qed

theorem shutdown_drain_witness:
  "\<exists>s t. runTrace dfire [ReconnectHook, RestoreLaunches, CtxEnds, BeginWait, RestoreEnds, RestoresWaited] (runningApp 2) = Some s \<and>
     dfire ReconnectHook s = Some t \<and> restoring t = 0"
proof -
  obtain s where run: "runTrace dfire [ReconnectHook, RestoreLaunches, CtxEnds, BeginWait, RestoreEnds, RestoresWaited]
      (runningApp 2) = Some s" and s: "waiter s = WaitSupervisors" "dfire ReconnectHook s \<noteq> None"
    by (simp add: runningApp_def)
  then obtain t where t: "dfire ReconnectHook s = Some t" by blast
  have "reach (\<lambda>s. \<exists>n. s = runningApp n) shutdownStep s"
    by (rule runTrace_reach [OF run]) (auto simp: shutdownStep_def intro: reach_init)
  with shutdown_drain [OF this _ t] s run t show ?thesis by blast
qed

end
