(* ===== verification/Rabbit_Loops.thy ===== *)
theory Rabbit_Loops
  imports Rabbit_Sender Rabbit_App
begin

text \<open>
  The retry loops of the RabbitMQ transport as the source has them: \<^verbatim>\<open>for\<close> loops with no bound
  (\<^verbatim>\<open>connection.go reconnectLoop\<close>, \<^verbatim>\<open>sender.go retryRebuild\<close>, the rebuild loop of \<^verbatim>\<open>consumer.go supervise\<close>,
  \<^verbatim>\<open>application.go restoreWithBackoff\<close>). The rounds meet the outcomes \<open>env 0\<close>, \<open>env 1\<close>, \<dots>; a loop that
  never returns is \<^const>\<open>None\<close>, one that returns yields its pauses. The lemmas tie them to the loops
  over finite outcome lists of the component theories, and show when they return.
\<close>

section \<open>The loops\<close>

partial_function (option) reconnectForever :: "(nat \<Rightarrow> reconnectRound) \<Rightarrow> nat \<Rightarrow> duration \<Rightarrow> duration list option" where
  "reconnectForever env i backoff =
     (case env i of
        StoppedBefore \<Rightarrow> Some []
      | StoppedAfter \<Rightarrow> Some [backoff]
      | DialFails e \<Rightarrow> Option.bind (reconnectForever env (Suc i) (nextBackoff reconnectMaxBackoff backoff)) (\<lambda>ss. Some (backoff # ss))
      | DialSucceeds \<Rightarrow> Some [backoff])"

partial_function (option) rebuildForever :: "(nat \<Rightarrow> rebuildRound) \<Rightarrow> nat \<Rightarrow> duration \<Rightarrow> duration list option" where
  "rebuildForever env i backoff =
     (case env i of
        RebuildFails e \<Rightarrow> Option.bind (rebuildForever env (Suc i) (nextBackoff rebuildMaxDelay backoff)) (\<lambda>ss. Some (backoff # ss))
      | RebuildReturns installed \<Rightarrow> Some [backoff])"

partial_function (option) healForever :: "(nat \<Rightarrow> healRound) \<Rightarrow> nat \<Rightarrow> duration \<Rightarrow> duration list option" where
  "healForever env i backoff =
     (case env i of
        HealLeave \<Rightarrow> Some []
      | HealSuperseded \<Rightarrow> Some [backoff]
      | HealFails e \<Rightarrow> Option.bind (healForever env (Suc i) (nextBackoff maxBackoff backoff)) (\<lambda>ss. Some (backoff # ss))
      | HealDiscard \<Rightarrow> Some [backoff]
      | HealDone \<Rightarrow> Some [backoff])"

partial_function (option) restoreForever :: "(nat \<Rightarrow> restoreRound) \<Rightarrow> nat \<Rightarrow> duration \<Rightarrow> duration list option" where
  "restoreForever env i backoff =
     (case env i of
        NewerGeneration \<Rightarrow> Some []
      | Restored \<Rightarrow> Some []
      | FailedThenCtxDone e \<Rightarrow> Some []
      | FailedThenSlept e \<Rightarrow> Option.bind (restoreForever env (Suc i) (nextBackoff restoreMax backoff)) (\<lambda>ss. Some (backoff # ss)))"

section \<open>The contract of an unbounded retry loop\<close>

locale retry_forever = retry_loop sleeps failed mx
  for sleeps :: "duration \<Rightarrow> 'o list \<Rightarrow> duration list" and failed :: "'o \<Rightarrow> bool" and mx :: duration +
  fixes forever :: "(nat \<Rightarrow> 'o) \<Rightarrow> nat \<Rightarrow> duration \<Rightarrow> duration list option"
  assumes forever_failed: "failed (env i) \<Longrightarrow> forever env i b = map_option ((#) b) (forever env (Suc i) (nextBackoff mx b))"
    and forever_stop: "\<not> failed (env i) \<Longrightarrow> forever env i b = Some (sleeps b [env i])"
    and forever_only: "forever env i b = Some ss \<Longrightarrow> \<exists>j. \<not> failed (env j)"
begin

lemma forever_returns:
  "(\<forall>j<n. failed (env (i + j))) \<Longrightarrow> \<not> failed (env (i + n)) \<Longrightarrow> forever env i b = Some (sleeps b (map env [i..<Suc (i + n)]))"
proof (induction n arbitrary: i b)
  case 0
  then show ?case by (simp add: forever_stop)
next
  case (Suc n)
  have f: "failed (env i)" using Suc.prems(1) by (metis add_0_right zero_less_Suc)
  have "forever env (Suc i) (nextBackoff mx b) = Some (sleeps (nextBackoff mx b) (map env [Suc i..<Suc (Suc i + n)]))"
    using Suc.prems by (intro Suc.IH) auto
  then show ?case
    by (simp add: forever_failed [where env = env and i = i, OF f] sleeps_failed [OF f] upt_conv_Cons [of i "Suc (Suc (i + n))"] del: upt_Suc)
qed

text \<open>The loop returns exactly when some round does not fail, after the capped doubling pauses of the rounds before.\<close>

lemma forever_schedule:
  assumes "0 < i" and "i \<le> mx" and "mx < 2 ^ 62"
  shows "case forever env 0 i of
      None \<Rightarrow> \<forall>n. failed (env n)
    | Some ss \<Rightarrow> \<exists>n. \<not> failed (env n) \<and> (\<forall>j<n. failed (env j)) \<and> n \<le> length ss \<and> length ss \<le> Suc n \<and>
        ss = map (\<lambda>j. min (i * 2 ^ j) mx) [0..<length ss]"
proof (cases "\<forall>n. failed (env n)")
  case True
  then have "forever env 0 i = None" using forever_only [of env 0 i] by (cases "forever env 0 i") auto
  with True show ?thesis by simp
next
  case False
  define n where "n = (LEAST n. \<not> failed (env n))"
  have n: "\<not> failed (env n)" "\<forall>j<n. failed (env j)"
    unfolding n_def using False LeastI_ex [of "\<lambda>n. \<not> failed (env n)"] not_less_Least [where P = "\<lambda>n. \<not> failed (env n)"] by blast+
  have r: "rounds failed (map env [0..<Suc n]) = Suc n"
    using n rounds_first_success [of failed "map env [0..<n]" "env n" "[]"] by (auto simp: list_all_iff)
  obtain k where k: "k \<le> Suc n" "Suc n \<le> Suc k" "sleeps i (map env [0..<Suc n]) = map (\<lambda>j. min (i * 2 ^ j) mx) [0..<k]"
    using sleeps_capped_doubling [OF assms, of "map env [0..<Suc n]"] r by auto
  have "forever env 0 i = Some (sleeps i (map env [0..<Suc n]))"
    using forever_returns [of n env 0 i] n by simp
  with n k show ?thesis by (auto simp del: upt_Suc)
qed

end

section \<open>The four loops meet it\<close>

lemma reconnectForever_only:
  assumes "reconnectForever env i b = Some ss"
  shows "\<exists>j. \<not> dialFails (env j)"
proof (rule reconnectForever.raw_induct [OF _ assms])
  show "\<exists>j. \<not> dialFails (env j)"
    if "\<And>env i b ss. rec env i b = Some ss \<Longrightarrow> \<exists>j. \<not> dialFails (env j)" and
      "(case env i of StoppedBefore \<Rightarrow> Some [] | StoppedAfter \<Rightarrow> Some [b]
         | DialFails e \<Rightarrow> Option.bind (rec env (Suc i) (nextBackoff reconnectMaxBackoff b)) (\<lambda>ss. Some (b # ss))
         | DialSucceeds \<Rightarrow> Some [b]) = Some ss"
      for rec env i b ss
    using that by (cases "env i") (auto simp: bind_eq_Some_conv intro: exI [of _ i])
qed

interpretation reconnectRun: retry_forever reconnectLoop dialFails reconnectMaxBackoff reconnectForever
proof unfold_locales
  show "reconnectForever env i b = map_option ((#) b) (reconnectForever env (Suc i) (nextBackoff reconnectMaxBackoff b))"
    if "dialFails (env i)" for env i b
    using that by (cases "env i") (simp_all add: reconnectForever.simps [of env i b] map_conv_bind_option comp_def)
  show "reconnectForever env i b = Some (reconnectLoop b [env i])" if "\<not> dialFails (env i)" for env i b
    using that by (cases "env i") (simp_all add: reconnectForever.simps [of env i b])
qed (rule reconnectForever_only)

lemma rebuildForever_only:
  assumes "rebuildForever env i b = Some ss"
  shows "\<exists>j. \<not> rebuildFails (env j)"
proof (rule rebuildForever.raw_induct [OF _ assms])
  show "\<exists>j. \<not> rebuildFails (env j)"
    if "\<And>env i b ss. rec env i b = Some ss \<Longrightarrow> \<exists>j. \<not> rebuildFails (env j)" and
      "(case env i of RebuildFails e \<Rightarrow> Option.bind (rec env (Suc i) (nextBackoff rebuildMaxDelay b)) (\<lambda>ss. Some (b # ss))
         | RebuildReturns installed \<Rightarrow> Some [b]) = Some ss"
      for rec env i b ss
    using that by (cases "env i") (auto simp: bind_eq_Some_conv intro: exI [of _ i])
qed

interpretation rebuildRun: retry_forever retryRebuild rebuildFails rebuildMaxDelay rebuildForever
proof unfold_locales
  show "rebuildForever env i b = map_option ((#) b) (rebuildForever env (Suc i) (nextBackoff rebuildMaxDelay b))"
    if "rebuildFails (env i)" for env i b
    using that by (cases "env i") (simp_all add: rebuildForever.simps [of env i b] map_conv_bind_option comp_def)
  show "rebuildForever env i b = Some (retryRebuild b [env i])" if "\<not> rebuildFails (env i)" for env i b
    using that by (cases "env i") (simp_all add: rebuildForever.simps [of env i b])
qed (rule rebuildForever_only)

lemma healForever_only:
  assumes "healForever env i b = Some ss"
  shows "\<exists>j. \<not> healFails (env j)"
proof (rule healForever.raw_induct [OF _ assms])
  show "\<exists>j. \<not> healFails (env j)"
    if "\<And>env i b ss. rec env i b = Some ss \<Longrightarrow> \<exists>j. \<not> healFails (env j)" and
      "(case env i of HealLeave \<Rightarrow> Some [] | HealSuperseded \<Rightarrow> Some [b]
         | HealFails e \<Rightarrow> Option.bind (rec env (Suc i) (nextBackoff maxBackoff b)) (\<lambda>ss. Some (b # ss))
         | HealDiscard \<Rightarrow> Some [b] | HealDone \<Rightarrow> Some [b]) = Some ss"
      for rec env i b ss
    using that by (cases "env i") (auto simp: bind_eq_Some_conv intro: exI [of _ i])
qed

interpretation healRun: retry_forever healLoop healFails maxBackoff healForever
proof unfold_locales
  show "healForever env i b = map_option ((#) b) (healForever env (Suc i) (nextBackoff maxBackoff b))"
    if "healFails (env i)" for env i b
    using that by (cases "env i") (simp_all add: healForever.simps [of env i b] map_conv_bind_option comp_def)
  show "healForever env i b = Some (healLoop b [env i])" if "\<not> healFails (env i)" for env i b
    using that by (cases "env i") (simp_all add: healForever.simps [of env i b])
qed (rule healForever_only)

lemma restoreForever_only:
  assumes "restoreForever env i b = Some ss"
  shows "\<exists>j. \<not> restoreFailed (env j)"
proof (rule restoreForever.raw_induct [OF _ assms])
  show "\<exists>j. \<not> restoreFailed (env j)"
    if "\<And>env i b ss. rec env i b = Some ss \<Longrightarrow> \<exists>j. \<not> restoreFailed (env j)" and
      "(case env i of NewerGeneration \<Rightarrow> Some [] | Restored \<Rightarrow> Some [] | FailedThenCtxDone e \<Rightarrow> Some []
         | FailedThenSlept e \<Rightarrow> Option.bind (rec env (Suc i) (nextBackoff restoreMax b)) (\<lambda>ss. Some (b # ss))) = Some ss"
      for rec env i b ss
    using that by (cases "env i") (auto simp: bind_eq_Some_conv intro: exI [of _ i])
qed

interpretation restoreRun: retry_forever restoreWithBackoff restoreFailed restoreMax restoreForever
proof unfold_locales
  show "restoreForever env i b = map_option ((#) b) (restoreForever env (Suc i) (nextBackoff restoreMax b))"
    if "restoreFailed (env i)" for env i b
    using that by (cases "env i") (simp_all add: restoreForever.simps [of env i b] map_conv_bind_option comp_def)
  show "restoreForever env i b = Some (restoreWithBackoff b [env i])" if "\<not> restoreFailed (env i)" for env i b
    using that by (cases "env i") (simp_all add: restoreForever.simps [of env i b])
qed (rule restoreForever_only)

section \<open>Properties\<close>

definition onSchedule :: "('o \<Rightarrow> bool) \<Rightarrow> (nat \<Rightarrow> 'o) \<Rightarrow> duration list option \<Rightarrow> bool" where
  "onSchedule failed env res \<longleftrightarrow>
     (case res of
        None \<Rightarrow> \<forall>n. failed (env n)
      | Some ss \<Rightarrow> \<exists>n. \<not> failed (env n) \<and> (\<forall>j<n. failed (env j)) \<and> n \<le> length ss \<and> length ss \<le> Suc n \<and>
          ss = map (\<lambda>j. min (goSecond * 2 ^ j) (30 * goSecond)) [0..<length ss])"

text \<open>C29: Every retry loop of the RabbitMQ transport (reconnecting, rebuilding the publisher channel, rebuilding a
  consumer channel, restoring the consumers after a reconnect) returns exactly when one of its rounds
  does not fail; it returns in the first such round, having paused for 1, 2, 4, 8, 16 and then 30
  seconds before the rounds up to it. A loop that does not return is one all of whose rounds fail.\<close>

theorem retry_loops_return:
  "onSchedule dialFails env1 (reconnectForever env1 0 reconnectInitialBackoff) \<and>
   onSchedule rebuildFails env2 (rebuildForever env2 0 rebuildDelay) \<and>
   onSchedule healFails env3 (healForever env3 0 initialBackoff) \<and>
   onSchedule restoreFailed env4 (restoreForever env4 0 restoreInitial)"
proof -
  have b: "0 < goSecond" "goSecond \<le> 30 * goSecond" "30 * goSecond < 2 ^ 62" by (simp_all add: duration_units)
  have delays: "reconnectInitialBackoff = goSecond" "reconnectMaxBackoff = 30 * goSecond" "rebuildDelay = goSecond"
    "rebuildMaxDelay = 30 * goSecond" "initialBackoff = goSecond" "maxBackoff = 30 * goSecond"
    "restoreInitial = goSecond" "restoreMax = 30 * goSecond"
    by (simp_all add: reconnectInitialBackoff_def reconnectMaxBackoff_def rebuildDelay_def rebuildMaxDelay_def
        initialBackoff_def maxBackoff_def restoreInitial_def restoreMax_def)
  show ?thesis
    unfolding onSchedule_def
    using reconnectRun.forever_schedule [of goSecond env1, unfolded delays, OF b]
      rebuildRun.forever_schedule [of goSecond env2, unfolded delays, OF b]
      healRun.forever_schedule [of goSecond env3, unfolded delays, OF b]
      restoreRun.forever_schedule [of goSecond env4, unfolded delays, OF b]
    by (simp only: delays simp_thms)
qed

end
