(* ===== verification/Rabbit_Recovery.thy ===== *)
theory Rabbit_Recovery
  imports Rabbit_Sender "HOL-Library.Multiset"
begin

text \<open>
  How the publisher gets its channel back (\<^verbatim>\<open>internal/rabbit/sender.go\<close>): \<^verbatim>\<open>NewSender\<close>, \<^verbatim>\<open>openChannel\<close>,
  \<^verbatim>\<open>rebuild\<close> with its two locks, \<^verbatim>\<open>watchChannel\<close> and \<^verbatim>\<open>onChannelClosed\<close>, \<^verbatim>\<open>retryRebuild\<close> and \<^verbatim>\<open>Reconnect\<close>, as
  goroutines that interleave with each other, with the broker closing channels and with the
  connection going down and coming back. The pending calls are the matter of the theory of the
  sender; here it is who owns which channel and who is responsible for repairing a dead one.
\<close>

section \<open>State\<close>

text \<open>
  The goroutines that are not in \<^verbatim>\<open>rebuild\<close>. \<open>HookDue\<close>: the connection is back and the reconnect hook
  is about to call \<^verbatim>\<open>Reconnect\<close>. \<open>Reconnecting g\<close>: \<^verbatim>\<open>Reconnect\<close> after its critical section, having read
  generation \<open>g\<close>. \<open>Closing g\<close>: \<^verbatim>\<open>onChannelClosed(g)\<close> after its critical section. \<open>Retrying g\<close>:
  \<^verbatim>\<open>retryRebuild(g)\<close> before its next call of \<^verbatim>\<open>rebuild\<close>.
\<close>

datatype task = HookDue | Reconnecting nat | Closing nat | Retrying nat

text \<open>
  Where the goroutine that holds \<^verbatim>\<open>rebuildMu\<close> is: before the first check; before \<^verbatim>\<open>openCh\<close>; with a fresh
  channel whose listeners are registered; past the \<^verbatim>\<open>IsClosed\<close> check; after the second critical section,
  with the old channel, the new generation and the new channel.
\<close>

datatype rebuildPc =
    Checking
  | Opening
  | Opened chan
  | Installing chan
  | Swapping "chan option" nat chan

text \<open>
  \<open>v_open\<close> are the channels this sender opened that nobody has closed, \<open>v_watch\<close> the running watchers by
  generation, \<open>v_conn\<close> the answer of \<^verbatim>\<open>conn.IsOpen\<close>.
\<close>

record recovery =
  v_gen :: nat
  v_ch :: "chan option"
  v_open :: "chan set"
  v_next :: chan
  v_watch :: "nat \<rightharpoonup> chan"
  v_conn :: bool
  v_tasks :: "task multiset"
  v_build :: "(task \<times> rebuildPc) option"

section \<open>Operations\<close>

text \<open>\<^verbatim>\<open>openChannel\<close>: the channel when it could be opened in confirm mode; a channel that refused it is closed.\<close>

definition openChannel :: "goerror option \<Rightarrow> goerror option \<Rightarrow> recovery \<Rightarrow> (goerror + chan) \<times> recovery" where
  "openChannel channelErr confirmErr s =
     (case channelErr of
        Some e \<Rightarrow> (Inl (Wrapped ''reactive-commons: create sender channel'' e), s)
      | None \<Rightarrow>
          (let ch = v_next s; s1 = s\<lparr>v_next := ch + 1, v_open := insert ch (v_open s)\<rparr>
           in case confirmErr of
                Some e \<Rightarrow> (Inl (Wrapped ''reactive-commons: enable publisher confirms'' e), s1\<lparr>v_open := v_open s1 - {ch}\<rparr>)
              | None \<Rightarrow> (Inr ch, s1)))"

definition closedWhileRebuilding :: goerror where
  "closedWhileRebuilding = ErrOther ''reactive-commons: publisher channel closed while rebuilding''"

text \<open>The arguments of \<^verbatim>\<open>rebuild\<close>: \<^verbatim>\<open>Reconnect\<close> passes \<^verbatim>\<open>false\<close>, \<^verbatim>\<open>retryRebuild\<close> passes \<^verbatim>\<open>true\<close>.\<close>

fun expectedGen :: "task \<Rightarrow> nat option" where
  "expectedGen (Reconnecting g) = Some g"
| "expectedGen (Retrying g) = Some g"
| "expectedGen _ = None"

fun requireOpen :: "task \<Rightarrow> bool" where
  "requireOpen (Retrying g) = True"
| "requireOpen _ = False"

text \<open>The check both critical sections of \<^verbatim>\<open>rebuild\<close> make.\<close>

definition superseded :: "task \<Rightarrow> recovery \<Rightarrow> bool" where
  "superseded t s \<longleftrightarrow> expectedGen t \<noteq> Some (v_gen s) \<or> requireOpen t \<and> \<not> v_conn s"

text \<open>
  What the caller of \<^verbatim>\<open>rebuild\<close> does with its result: after an error \<^verbatim>\<open>Reconnect\<close> starts a retry loop and
  \<^verbatim>\<open>retryRebuild\<close> goes round once more; otherwise the goroutine is done. \<^verbatim>\<open>rebuildMu\<close> is released.
\<close>

definition rebuildReturns :: "task \<Rightarrow> goerror option \<Rightarrow> recovery \<Rightarrow> recovery" where
  "rebuildReturns t err s =
     (case (err, expectedGen t) of
        (Some e, Some g) \<Rightarrow> s\<lparr>v_build := None, v_tasks := add_mset (Retrying g) (v_tasks s)\<rparr>
      | _ \<Rightarrow> s\<lparr>v_build := None\<rparr>)"

definition closeChan :: "chan \<Rightarrow> recovery \<Rightarrow> recovery" where
  "closeChan c s = s\<lparr>v_open := v_open s - {c}\<rparr>"

text \<open>The second critical section of \<^verbatim>\<open>rebuild\<close> when it installs, and what follows it.\<close>

definition installChannel :: "task \<Rightarrow> chan \<Rightarrow> recovery \<Rightarrow> recovery" where
  "installChannel t c s =
     (let old = v_ch s; newGen = v_gen s + 1
      in s\<lparr>v_ch := Some c, v_gen := newGen, v_build := Some (t, Swapping old newGen c)\<rparr>)"

definition finishSwap :: "task \<Rightarrow> chan option \<Rightarrow> nat \<Rightarrow> chan \<Rightarrow> recovery \<Rightarrow> recovery" where
  "finishSwap t old newGen c s =
     (let s1 = (case old of None \<Rightarrow> s | Some o' \<Rightarrow> if o' \<in> v_open s then closeChan o' s else s)
      in rebuildReturns t None (s1\<lparr>v_watch := (v_watch s1)(newGen \<mapsto> c)\<rparr>))"

text \<open>
  The end of \<^verbatim>\<open>watchChannel(g)\<close>, which saw the close of its channel and ran the critical section of
  \<^verbatim>\<open>onChannelClosed\<close>; the rest of \<^verbatim>\<open>onChannelClosed\<close>; and the critical section of \<^verbatim>\<open>Reconnect\<close>.
\<close>

definition watcherExits :: "nat \<Rightarrow> recovery \<Rightarrow> recovery" where [simp]:
  "watcherExits g s =
     (let s1 = s\<lparr>v_watch := (v_watch s)(g := None)\<rparr>
      in if v_gen s \<noteq> g then s1 else s1\<lparr>v_tasks := add_mset (Closing g) (v_tasks s1)\<rparr>)"

definition selfHeal :: "nat \<Rightarrow> recovery \<Rightarrow> recovery" where [simp]:
  "selfHeal g s =
     (let s1 = s\<lparr>v_tasks := v_tasks s - {#Closing g#}\<rparr>
      in if \<not> v_conn s then s1 else s1\<lparr>v_tasks := add_mset (Retrying g) (v_tasks s1)\<rparr>)"

definition reconnectStarts :: "recovery \<Rightarrow> recovery" where [simp]:
  "reconnectStarts s = s\<lparr>v_tasks := add_mset (Reconnecting (v_gen s)) (v_tasks s - {#HookDue#})\<rparr>"

section \<open>Steps\<close>

datatype action =
    ConnDown
  | ConnUp
  | ChannelDies chan
  | WatcherExits nat
  | CheckConn nat
  | HookRuns
  | LockRebuild task
  | FirstCheck
  | OpenCh "goerror option" "goerror option"
  | CheckClosed
  | SecondSection
  | FinishSwap

text \<open>A channel can be opened only while the connection is up; the hook is due when it comes back.\<close>

fun act :: "action \<Rightarrow> recovery \<Rightarrow> recovery option" where
  "act ConnDown s = Some (s\<lparr>v_conn := False\<rparr>)"
| "act ConnUp s =
     (if v_conn s then None else Some (s\<lparr>v_conn := True, v_tasks := add_mset HookDue (v_tasks s)\<rparr>))"
| "act (ChannelDies c) s = Some (closeChan c s)"
| "act (WatcherExits g) s =
     (case v_watch s g of
        Some c \<Rightarrow>
          if c \<in> v_open s then None else Some (watcherExits g s)
      | None \<Rightarrow> None)"
| "act (CheckConn g) s =
     (if Closing g \<in># v_tasks s then Some (selfHeal g s) else None)"
| "act HookRuns s =
     (if HookDue \<in># v_tasks s then Some (reconnectStarts s) else None)"
| "act (LockRebuild t) s =
     (if t \<in># v_tasks s \<and> expectedGen t \<noteq> None \<and> v_build s = None
      then Some (s\<lparr>v_tasks := v_tasks s - {#t#}, v_build := Some (t, Checking)\<rparr>) else None)"
| "act FirstCheck s =
     (case v_build s of
        Some (t, Checking) \<Rightarrow>
          Some (if superseded t s then rebuildReturns t None s else s\<lparr>v_build := Some (t, Opening)\<rparr>)
      | _ \<Rightarrow> None)"
| "act (OpenCh channelErr confirmErr) s =
     (case v_build s of
        Some (t, Opening) \<Rightarrow>
          if channelErr = None \<and> \<not> v_conn s then None
          else (case openChannel channelErr confirmErr s of
                  (Inl e, s1) \<Rightarrow> Some (rebuildReturns t (Some e) s1)
                | (Inr c, s1) \<Rightarrow> Some (s1\<lparr>v_build := Some (t, Opened c)\<rparr>))
      | _ \<Rightarrow> None)"
| "act CheckClosed s =
     (case v_build s of
        Some (t, Opened c) \<Rightarrow>
          Some (if c \<notin> v_open s then rebuildReturns t (Some closedWhileRebuilding) (closeChan c s)
                else s\<lparr>v_build := Some (t, Installing c)\<rparr>)
      | _ \<Rightarrow> None)"
| "act SecondSection s =
     (case v_build s of
        Some (t, Installing c) \<Rightarrow>
          Some (if superseded t s then rebuildReturns t None (closeChan c s) else installChannel t c s)
      | _ \<Rightarrow> None)"
| "act FinishSwap s =
     (case v_build s of
        Some (t, Swapping old newGen c) \<Rightarrow> Some (finishSwap t old newGen c s)
      | _ \<Rightarrow> None)"

text \<open>
  \<^verbatim>\<open>NewSender\<close>: the first \<^verbatim>\<open>rebuild(0, false)\<close>; \<open>died\<close> says whether the channel was closed before the \<^verbatim>\<open>IsClosed\<close>
  check. On an error there is no sender.
\<close>

definition noChannel :: recovery where
  "noChannel = \<lparr>v_gen = 0, v_ch = None, v_open = {}, v_next = 0, v_watch = Map.empty, v_conn = True, v_tasks = {#}, v_build = None\<rparr>"

definition NewSender :: "goerror option \<Rightarrow> goerror option \<Rightarrow> bool \<Rightarrow> goerror + recovery" where
  "NewSender channelErr confirmErr died =
     (case openChannel channelErr confirmErr noChannel of
        (Inl e, s) \<Rightarrow> Inl e
      | (Inr c, s) \<Rightarrow>
          if died then Inl closedWhileRebuilding
          else Inr (finishSwap (Reconnecting 0) (v_ch s) (v_gen s + 1) c (installChannel (Reconnecting 0) c s)))"

definition recoveryStep :: "recovery \<Rightarrow> recovery \<Rightarrow> bool" where
  "recoveryStep s t \<longleftrightarrow> (\<exists>e. act e s = Some t)"

definition fresh :: "recovery \<Rightarrow> bool" where
  "fresh s \<longleftrightarrow> NewSender None None False = Inr s"

lemmas recovery_ops = openChannel_def rebuildReturns_def closeChan_def installChannel_def finishSwap_def superseded_def

section \<open>Invariant\<close>

text \<open>The channel a rebuild in progress owns besides the current one.\<close>

fun heldBy :: "(task \<times> rebuildPc) option \<Rightarrow> chan set" where
  "heldBy (Some (t, Opened c)) = {c}"
| "heldBy (Some (t, Installing c)) = {c}"
| "heldBy (Some (t, Swapping old g c)) = set_option old"
| "heldBy _ = {}"

text \<open>Somebody will look after the current channel: its watcher, or a goroutine that is on the way to rebuild it.\<close>

definition inCharge :: "recovery \<Rightarrow> bool" where
  "inCharge s \<longleftrightarrow> v_watch s (v_gen s) \<noteq> None \<or> HookDue \<in># v_tasks s \<or>
     (\<exists>k \<in> {Reconnecting, Closing, Retrying}. k (v_gen s) \<in># v_tasks s) \<or>
     (\<exists>t p. v_build s = Some (t, p) \<and> (expectedGen t = Some (v_gen s) \<or> (\<exists>old c. p = Swapping old (v_gen s) c)))"

fun swapOk :: "chan option \<Rightarrow> nat \<Rightarrow> (task \<times> rebuildPc) option \<Rightarrow> bool" where
  "swapOk ch gen (Some (t, Swapping old g c)) \<longleftrightarrow> ch = Some c \<and> g = gen \<and> old \<noteq> Some c"
| "swapOk ch gen (Some (t, Opened c)) \<longleftrightarrow> ch \<noteq> Some c"
| "swapOk ch gen (Some (t, Installing c)) \<longleftrightarrow> ch \<noteq> Some c"
| "swapOk ch gen _ \<longleftrightarrow> True"

text \<open>The current channel has a watcher as long as it is open, except between its installation and the start of the watcher.\<close>

fun swapping :: "(task \<times> rebuildPc) option \<Rightarrow> bool" where
  "swapping (Some (t, Swapping old g c)) = True"
| "swapping _ = False"

definition watchInv :: "recovery \<Rightarrow> bool" where
  "watchInv s \<longleftrightarrow> (\<forall>c. v_ch s = Some c \<and> c \<in> v_open s \<and> \<not> swapping (v_build s) \<longrightarrow> v_watch s (v_gen s) = Some c)"

text \<open>Every open channel has an owner, and a watcher watches the channel of its generation.\<close>

definition ownerInv :: "recovery \<Rightarrow> bool" where
  "ownerInv s \<longleftrightarrow>
     (\<forall>c \<in> v_open s. v_ch s = Some c \<or> c \<in> heldBy (v_build s)) \<and>
     (\<forall>c. v_ch s = Some c \<or> c \<in> heldBy (v_build s) \<longrightarrow> c < v_next s) \<and>
     (\<forall>g c. v_watch s g = Some c \<longrightarrow> g \<le> v_gen s \<and> (g = v_gen s \<longrightarrow> v_ch s = Some c)) \<and>
     v_ch s \<noteq> None \<and> swapOk (v_ch s) (v_gen s) (v_build s)"

text \<open>While the connection is up, somebody is responsible for the current channel.\<close>

definition chargeInv :: "recovery \<Rightarrow> bool" where
  "chargeInv s \<longleftrightarrow> (v_conn s \<longrightarrow> inCharge s) \<and> (\<forall>t p. v_build s = Some (t, p) \<longrightarrow> expectedGen t \<noteq> None)"

lemma fresh_inv: "fresh s \<Longrightarrow> ownerInv s \<and> watchInv s \<and> chargeInv s"
  by (auto simp: fresh_def NewSender_def noChannel_def recovery_ops ownerInv_def watchInv_def chargeInv_def inCharge_def Let_def split: if_splits)

lemma ownerInv_act:
  assumes "ownerInv s" and "act e s = Some t"
  shows "ownerInv t"
proof (cases e)
  case (OpenCh a b)
  with assms show ?thesis
    by (auto simp: ownerInv_def recovery_ops Let_def split: option.splits prod.splits rebuildPc.splits if_splits)
next
  case (WatcherExits g)
  with assms show ?thesis by (auto simp: ownerInv_def Let_def split: option.splits if_splits)
next
  case FirstCheck
  with assms show ?thesis
    by (auto simp: ownerInv_def recovery_ops split: option.splits prod.splits rebuildPc.splits if_splits)
next
  case CheckClosed
  with assms show ?thesis
    by (auto simp: ownerInv_def recovery_ops split: option.splits prod.splits rebuildPc.splits if_splits)
next
  case SecondSection
  have w: "g \<noteq> Suc (v_gen s)" "g \<le> Suc (v_gen s)" if "v_watch s g = Some c" for g c
    using assms(1) that by (force simp: ownerInv_def)+
  from SecondSection assms show ?thesis
    by (auto simp: ownerInv_def recovery_ops Let_def split: option.splits prod.splits rebuildPc.splits if_splits dest: w)
next
  case FinishSwap
  with assms show ?thesis
    by (auto simp: ownerInv_def recovery_ops Let_def split: option.splits prod.splits rebuildPc.splits if_splits)
qed (use assms in \<open>auto simp: ownerInv_def closeChan_def Let_def split: if_splits\<close>)

lemma chargeInv_act:
  assumes "ownerInv s" and "chargeInv s" and "act e s = Some t"
  shows "chargeInv t"
proof (cases e)
  case (OpenCh a b)
  with assms show ?thesis
    by (auto simp: chargeInv_def inCharge_def recovery_ops Let_def split: option.splits prod.splits rebuildPc.splits if_splits)
next
  case (WatcherExits g)
  with assms show ?thesis by (auto simp: chargeInv_def inCharge_def Let_def split: option.splits if_splits)
next
  case (CheckConn g)
  with assms show ?thesis
    by (auto simp: chargeInv_def inCharge_def Let_def in_diff_count split: if_splits)
next
  case HookRuns
  with assms show ?thesis by (auto simp: chargeInv_def inCharge_def split: if_splits)
next
  case (LockRebuild t)
  with assms show ?thesis
    by (auto simp: chargeInv_def inCharge_def in_diff_count split: if_splits)
next
  case FirstCheck
  with assms show ?thesis
    by (auto simp: chargeInv_def inCharge_def recovery_ops split: option.splits prod.splits rebuildPc.splits if_splits)
next
  case CheckClosed
  with assms show ?thesis
    by (auto simp: chargeInv_def inCharge_def recovery_ops split: option.splits prod.splits rebuildPc.splits if_splits)
next
  case SecondSection
  with assms show ?thesis
    by (auto simp: chargeInv_def inCharge_def recovery_ops Let_def split: option.splits prod.splits rebuildPc.splits if_splits)
next
  case FinishSwap
  then obtain u old g c where b: "v_build s = Some (u, Swapping old g c)" "t = finishSwap u old g c s"
    using assms(3) by (auto split: option.splits prod.splits rebuildPc.splits)
  have "g = v_gen s" using assms(1) b(1) by (simp add: ownerInv_def)
  with b show ?thesis
    by (auto simp: chargeInv_def inCharge_def recovery_ops Let_def split: option.splits prod.splits rebuildPc.splits if_splits)
qed (use assms in \<open>auto simp: chargeInv_def inCharge_def closeChan_def Let_def split: if_splits\<close>)

lemma watchInv_act:
  assumes "ownerInv s" and "watchInv s" and "act e s = Some t"
  shows "watchInv t"
proof (cases e)
  case (OpenCh a b)
  have "v_ch s \<noteq> Some (v_next s)" using assms(1) by (auto simp: ownerInv_def)
  with OpenCh assms(2,3) show ?thesis
    by (auto simp: watchInv_def recovery_ops Let_def split: option.splits prod.splits rebuildPc.splits if_splits)
next
  case (WatcherExits g)
  with assms(2,3) show ?thesis by (auto simp: watchInv_def Let_def split: option.splits if_splits)
next
  case FirstCheck
  with assms(2,3) show ?thesis
    by (auto simp: watchInv_def recovery_ops split: option.splits prod.splits rebuildPc.splits if_splits)
next
  case CheckClosed
  with assms(2,3) show ?thesis
    by (auto simp: watchInv_def recovery_ops split: option.splits prod.splits rebuildPc.splits if_splits)
next
  case SecondSection
  with assms(2,3) show ?thesis
    by (auto simp: watchInv_def recovery_ops Let_def split: option.splits prod.splits rebuildPc.splits if_splits)
next
  case FinishSwap
  then obtain u old g c where b: "v_build s = Some (u, Swapping old g c)" "t = finishSwap u old g c s"
    using assms(3) by (auto split: option.splits prod.splits rebuildPc.splits)
  have "g = v_gen s" "v_ch s = Some c" using assms(1) b(1) by (simp_all add: ownerInv_def)
  with b show ?thesis by (auto simp: watchInv_def recovery_ops Let_def split: option.splits)
qed (use assms(2,3) in \<open>auto simp: watchInv_def closeChan_def Let_def split: if_splits\<close>)

definition recoveryInv :: "recovery \<Rightarrow> bool" where
  "recoveryInv s \<longleftrightarrow> ownerInv s \<and> watchInv s \<and> chargeInv s"

lemma recoveryInv_act: "recoveryInv s \<Longrightarrow> act e s = Some t \<Longrightarrow> recoveryInv t"
  by (auto simp: recoveryInv_def intro: ownerInv_act watchInv_act chargeInv_act)

interpretation publisherRecovery: machine_invariant fresh recoveryStep recoveryInv
proof unfold_locales
  show "recoveryInv s" if "fresh s" for s using fresh_inv [OF that] by (simp add: recoveryInv_def)
  show "recoveryInv t" if "recoveryInv s" "recoveryStep s t" for s t
    using that by (auto simp: recoveryStep_def intro: recoveryInv_act)
qed

section \<open>Recovery\<close>

text \<open>
  The actions of the sender's own goroutines; opening a channel on the live connection is taken to
  succeed and nothing else goes wrong meanwhile.
\<close>

fun ownAction :: "action \<Rightarrow> bool" where
  "ownAction ConnDown = False"
| "ownAction ConnUp = False"
| "ownAction (ChannelDies c) = False"
| "ownAction (OpenCh a b) = (a = None \<and> b = None)"
| "ownAction _ = True"

text \<open>\<open>canReach s t\<close>: the sender gets from \<open>s\<close> to \<open>t\<close> by itself.\<close>

definition canReach :: "recovery \<Rightarrow> recovery \<Rightarrow> bool" where
  "canReach s t \<longleftrightarrow> (\<exists>es. list_all ownAction es \<and> runTrace act es s = Some t)"

lemma canReach_refl [simp]: "canReach s s"
  by (auto simp: canReach_def intro: exI [of _ "[]"])

lemma canReach_trans: "canReach s t \<Longrightarrow> canReach t u \<Longrightarrow> canReach s u"
  unfolding canReach_def by (metis (mono_tags, lifting) list_all_append option.simps(5) runTrace_append)

lemma canReach_act: "ownAction e \<Longrightarrow> act e s = Some t \<Longrightarrow> canReach s t"
  unfolding canReach_def by (intro exI [of _ "[e]"]) simp

lemma canReach_inv:
  assumes "canReach s t" and "recoveryInv s"
  shows "recoveryInv t"
proof -
  obtain es where "runTrace act es s = Some t" using assms(1) by (auto simp: canReach_def)
  then show ?thesis using assms(2)
    by (induction es arbitrary: s) (auto split: option.splits intro: recoveryInv_act)
qed

fun rank :: "(task \<times> rebuildPc) option \<Rightarrow> nat" where
  "rank None = 0"
| "rank (Some (t, Swapping old g c)) = 1"
| "rank (Some (t, Installing c)) = 2"
| "rank (Some (t, Opened c)) = 3"
| "rank (Some (t, Opening)) = 4"
| "rank (Some (t, Checking)) = 5"

lemma rebuild_moves:
  assumes "v_conn s" and "v_build s = Some (t, p)"
  shows "\<exists>e s'. ownAction e \<and> act e s = Some s' \<and> v_conn s' \<and> rank (v_build s') < rank (v_build s)"
proof (cases p)
  case Checking
  with assms show ?thesis by (intro exI [of _ FirstCheck]) (auto simp: recovery_ops split: option.split)
next
  case Opening
  with assms show ?thesis by (intro exI [of _ "OpenCh None None"]) (auto simp: recovery_ops Let_def)
next
  case (Opened c)
  with assms show ?thesis by (intro exI [of _ CheckClosed]) (auto simp: recovery_ops split: option.split)
next
  case (Installing c)
  with assms show ?thesis by (intro exI [of _ SecondSection]) (auto simp: recovery_ops Let_def split: option.split)
next
  case (Swapping old g c)
  with assms show ?thesis by (intro exI [of _ FinishSwap]) (auto simp: recovery_ops Let_def split: option.split)
qed

lemma rebuild_returns: "v_conn s \<Longrightarrow> \<exists>t. canReach s t \<and> v_conn t \<and> v_build t = None"
proof (induction "rank (v_build s)" arbitrary: s rule: less_induct)
  case less
  show ?case
  proof (cases "v_build s")
    case None
    with less.prems show ?thesis by (intro exI [of _ s]) simp
  next
    case (Some b)
    then obtain e s' where "ownAction e" "act e s = Some s'" "v_conn s'" "rank (v_build s') < rank (v_build s)"
      using rebuild_moves [OF less.prems, of "fst b" "snd b"] by auto
    with less.hyps [of s'] show ?thesis using canReach_trans [OF canReach_act] by blast
  qed
qed

text \<open>A goroutine on its way to rebuild the current generation installs a live channel.\<close>

lemma rebuild_installs:
  assumes "ownerInv s" and "v_conn s" and "v_build s = None" and "t \<in># v_tasks s" and "expectedGen t = Some (v_gen s)"
  shows "\<exists>s' c. canReach s s' \<and> v_conn s' \<and> v_ch s' = Some c \<and> c \<in> v_open s' \<and> v_build s' = None"
proof -
  obtain o' where "v_ch s = Some o'" "o' \<noteq> v_next s" using assms(1) by (auto simp: ownerInv_def)
  with assms(2-) have "\<exists>s'. runTrace act [LockRebuild t, FirstCheck, OpenCh None None, CheckClosed, SecondSection, FinishSwap] s = Some s' \<and>
      v_conn s' \<and> v_ch s' = Some (v_next s) \<and> v_next s \<in> v_open s' \<and> v_build s' = None"
    by (simp add: recovery_ops Let_def)
  moreover have "list_all ownAction [LockRebuild t, FirstCheck, OpenCh None None, CheckClosed, SecondSection, FinishSwap]" by simp
  ultimately show ?thesis unfolding canReach_def by blast
qed

lemma charge_rebuilds:
  assumes "ownerInv s" and "inCharge s" and "v_conn s" and "v_build s = None" and "v_ch s = Some c" and "c \<notin> v_open s"
  shows "\<exists>s' t. canReach s s' \<and> v_conn s' \<and> v_build s' = None \<and> t \<in># v_tasks s' \<and> expectedGen t = Some (v_gen s')"
proof -
  consider (watcher) "v_watch s (v_gen s) = Some c" | (hook) "HookDue \<in># v_tasks s" | (closing) "Closing (v_gen s) \<in># v_tasks s"
    | (task) t where "t \<in># v_tasks s" "expectedGen t = Some (v_gen s)"
    using assms by (auto simp: inCharge_def ownerInv_def)
  then show ?thesis
  proof cases
    case watcher
    let ?s = "s\<lparr>v_watch := (v_watch s)(v_gen s := None), v_tasks := add_mset (Closing (v_gen s)) (v_tasks s)\<rparr>"
    have "canReach s ?s" using watcher assms(6) by (intro canReach_act [of "WatcherExits (v_gen s)"]) simp_all
    moreover have "canReach ?s (?s\<lparr>v_tasks := add_mset (Retrying (v_gen s)) (v_tasks s)\<rparr>)"
      using assms(3) by (intro canReach_act [of "CheckConn (v_gen s)"]) simp_all
    ultimately show ?thesis using canReach_trans assms(3,4) by fastforce
  next
    case hook
    then show ?thesis using canReach_act [of HookRuns s] assms(3,4) by fastforce
  next
    case closing
    then show ?thesis using canReach_act [of "CheckConn (v_gen s)" s] assms(3,4) by fastforce
  next
    case (task t)
    with assms(3,4) show ?thesis using canReach_refl by blast
  qed
qed

section \<open>Properties\<close>

text \<open>\<^verbatim>\<open>NewSender\<close> is the first run of \<^verbatim>\<open>rebuild\<close>: with the answers of the AMQP library it gives the state that
  the steps of \<^verbatim>\<open>rebuild(0, false)\<close> lead to.\<close>

lemma NewSender_run:
  "NewSender None None False = Inr s \<longleftrightarrow>
     runTrace act [FirstCheck, OpenCh None None, CheckClosed, SecondSection, FinishSwap]
       (noChannel\<lparr>v_build := Some (Reconnecting 0, Checking)\<rparr>) = Some s"
  by (auto simp: NewSender_def noChannel_def recovery_ops Let_def)

text \<open>C5: The publisher never stays dead while the connection is up: in every reachable state, whatever
  channels died, rebuilds failed, retries and reconnect hooks are running and however they are
  interleaved, the sender's own goroutines can go on (no call from outside, opening a channel on the
  live connection succeeding) to a state whose current channel is open, watched and not being
  replaced.\<close>

theorem publisher_recovers:
  assumes "reach fresh recoveryStep s" and "v_conn s"
  shows "\<exists>es t c. list_all ownAction es \<and> runTrace act es s = Some t \<and> v_conn t \<and> v_build t = None \<and>
    v_ch t = Some c \<and> c \<in> v_open t \<and> v_watch t (v_gen t) = Some c"
proof -
  have inv: "recoveryInv s" using publisherRecovery.reach_inv [OF assms(1)] .
  obtain u where u: "canReach s u" "v_conn u" "v_build u = None" using rebuild_returns [OF assms(2)] by blast
  have iu: "recoveryInv u" by (rule canReach_inv [OF u(1) inv])
  then obtain c where c: "v_ch u = Some c" by (auto simp: recoveryInv_def ownerInv_def)
  have "\<exists>t c. canReach u t \<and> v_conn t \<and> v_ch t = Some c \<and> c \<in> v_open t \<and> v_build t = None"
  proof (cases "c \<in> v_open u")
    case True
    with u c show ?thesis using canReach_refl by blast
  next
    case False
    obtain w k where w: "canReach u w" "v_conn w" "v_build w = None" "k \<in># v_tasks w" "expectedGen k = Some (v_gen w)"
      using charge_rebuilds [OF _ _ u(2,3) c False] iu u(2) by (auto simp: recoveryInv_def chargeInv_def)
    have "ownerInv w" using canReach_inv [OF w(1) iu] by (simp add: recoveryInv_def)
    then show ?thesis using rebuild_installs [OF _ w(2-5)] canReach_trans [OF w(1)] by blast
  qed
  then obtain t c where t: "canReach s t" "v_conn t" "v_ch t = Some c" "c \<in> v_open t" "v_build t = None"
    using canReach_trans [OF u(1)] by blast
  have "recoveryInv t" by (rule canReach_inv [OF t(1) inv])
  then have "v_watch t (v_gen t) = Some c" using t by (auto simp: recoveryInv_def watchInv_def)
  with t show ?thesis by (auto simp: canReach_def)
qed

text \<open>The channel dies, its watcher starts a retry, the connection goes down and comes back.\<close>

definition lossTrace :: "action list" where
  "lossTrace = [ChannelDies 0, WatcherExits 1, CheckConn 1, ConnDown, ConnUp]"

lemma lossTrace_reach:
  assumes "runTrace act (lossTrace @ es) s0 = Some s" and "fresh s0"
  shows "reach fresh recoveryStep s"
  by (rule runTrace_reach [OF assms(1) reach_init [of fresh, OF assms(2)]]) (auto simp: recoveryStep_def)

lemma lossTrace_run: "\<exists>s0 s. fresh s0 \<and> runTrace act lossTrace s0 = Some s \<and> v_conn s \<and> v_ch s = Some 0 \<and> v_open s = {}"
  by (simp add: fresh_def NewSender_def noChannel_def recovery_ops lossTrace_def Let_def)

theorem publisher_recovers_witness:
  "\<exists>s es t c. reach fresh recoveryStep s \<and> v_conn s \<and> v_open s = {} \<and> list_all ownAction es \<and> runTrace act es s = Some t \<and>
     v_ch t = Some c \<and> c \<in> v_open t \<and> v_watch t (v_gen t) = Some c"
proof -
  obtain s0 s where s: "fresh s0" "runTrace act (lossTrace @ []) s0 = Some s" "v_conn s" "v_open s = {}"
    using lossTrace_run by auto
  have r: "reach fresh recoveryStep s" by (rule lossTrace_reach [OF s(2,1)])
  with s show ?thesis using publisher_recovers [OF r s(3)] by blast
qed

lemma heldBy_one: "\<exists>h. heldBy b \<subseteq> {h}"
proof (cases b rule: heldBy.cases)
  case (3 t old g c)
  then show ?thesis by (cases old) auto
qed auto

text \<open>C16: No channel leaks and no channel goes unwatched: in every reachable state an open channel of the sender
  is the current one or the one the single rebuild in progress holds and will install or close, so
  there are never more than two; a watcher watches the channel of its generation; and the current
  channel, while it is open, has its watcher, except for the moment between its installation and the
  start of that watcher by the same goroutine.\<close>

theorem publisher_channels_owned:
  assumes "reach fresh recoveryStep s"
  shows "(\<forall>c \<in> v_open s. v_ch s = Some c \<or> c \<in> heldBy (v_build s)) \<and> card (v_open s) \<le> 2 \<and>
    (\<forall>g c. v_watch s g = Some c \<longrightarrow> g \<le> v_gen s \<and> (g = v_gen s \<longrightarrow> v_ch s = Some c)) \<and>
    (\<forall>c \<in> v_open s. v_ch s = Some c \<longrightarrow>
       v_watch s (v_gen s) = Some c \<or> (\<exists>t old. v_build s = Some (t, Swapping old (v_gen s) c)))"
proof -
  have inv: "ownerInv s" "watchInv s" using publisherRecovery.reach_inv [OF assms] by (simp_all add: recoveryInv_def)
  obtain h where h: "heldBy (v_build s) \<subseteq> {h}" using heldBy_one by blast
  obtain c where c: "v_ch s = Some c" using inv(1) by (auto simp: ownerInv_def)
  have "v_open s \<subseteq> {c, h}" using inv(1) h c by (auto simp: ownerInv_def)
  then have "card (v_open s) \<le> card {c, h}" by (rule card_mono [rotated]) simp
  also have "\<dots> \<le> 2" by (simp add: card_insert_if)
  finally have card: "card (v_open s) \<le> 2" .
  have "\<exists>t old. v_build s = Some (t, Swapping old (v_gen s) c)" if "swapping (v_build s)"
    using that inv(1) c by (cases "v_build s" rule: swapping.cases) (auto simp: ownerInv_def)
  then have "v_watch s (v_gen s) = Some c \<or> (\<exists>t old. v_build s = Some (t, Swapping old (v_gen s) c))" if "c \<in> v_open s"
    using that inv(2) c by (auto simp: watchInv_def)
  with inv(1) c card show ?thesis by (auto simp: ownerInv_def)
qed

text \<open>The current channel and the fresh one of a running rebuild are open together.\<close>

theorem publisher_channels_owned_witness:
  "\<exists>s. reach fresh recoveryStep s \<and> v_open s = {0, 1} \<and> card (v_open s) \<le> 2 \<and> v_ch s = Some 0 \<and> v_watch s (v_gen s) = Some 0"
proof -
  let ?es = "[ConnDown, ConnUp, HookRuns, LockRebuild (Reconnecting 1), FirstCheck, OpenCh None None]"
  obtain s0 s where s: "fresh s0" "runTrace act ?es s0 = Some s" "v_open s = {0, 1}" "v_ch s = Some 0" "v_build s = Some (Reconnecting 1, Opened 1)"
    by (force simp: fresh_def NewSender_def noChannel_def recovery_ops Let_def)
  have r: "reach fresh recoveryStep s"
    by (rule runTrace_reach [OF s(2) reach_init [of fresh, OF s(1)]]) (auto simp: recoveryStep_def)
  show ?thesis using publisher_channels_owned [OF r] s r by auto
qed

text \<open>The reconnect hook may find a live channel: after a loss a retry loop that was already running
  installs a channel of the new connection before the hook calls \<^verbatim>\<open>Reconnect\<close>, which then drains the
  pending calls of that live channel and resets its tag counter
  (\<open>live_drain_breaks_alignment\<close> shows what can follow).\<close>

theorem reconnect_finds_live_channel:
  "\<exists>s t. reach fresh recoveryStep s \<and> act HookRuns s = Some t \<and> v_ch s = Some 1 \<and> 1 \<in> v_open s \<and> v_watch s (v_gen s) = Some 1 \<and>
     v_build s = None"
proof -
  let ?es = "[LockRebuild (Retrying 1), FirstCheck, OpenCh None None, CheckClosed, SecondSection, FinishSwap]"
  obtain s0 s where s: "fresh s0" "runTrace act (lossTrace @ ?es) s0 = Some s" "v_ch s = Some 1" "1 \<in> v_open s" "v_watch s (v_gen s) = Some 1"
    "v_build s = None" "HookDue \<in># v_tasks s"
    by (simp add: fresh_def NewSender_def noChannel_def recovery_ops lossTrace_def Let_def)
  then show ?thesis using lossTrace_reach [OF s(2,1)] by auto
qed

end
