(* ===== verification/Recovery_Refinement.thy ===== *)
theory Recovery_Refinement
  imports Rabbit_Recovery
begin

section \<open>Refinement\<close>

text \<open>
  Past the first check nobody else changes the generation, because \<^verbatim>\<open>rebuildMu\<close> is held, and the
  watcher of the generation just installed is not running yet.
\<close>

fun genOk :: "nat \<Rightarrow> (nat \<rightharpoonup> chan) \<Rightarrow> (task \<times> rebuildPc) option \<Rightarrow> bool" where
  "genOk gen w (Some (t, Opening)) \<longleftrightarrow> expectedGen t = Some gen"
| "genOk gen w (Some (t, Opened c)) \<longleftrightarrow> expectedGen t = Some gen"
| "genOk gen w (Some (t, Installing c)) \<longleftrightarrow> expectedGen t = Some gen"
| "genOk gen w (Some (t, Swapping old g c)) \<longleftrightarrow> w g = None"
| "genOk gen w _ \<longleftrightarrow> True"

abbreviation generationKept :: "recovery \<Rightarrow> bool" where
  "generationKept s \<equiv> genOk (v_gen s) (v_watch s) (v_build s)"

lemma generationKept_act:
  assumes "recoveryInv s" and "generationKept s" and "act e s = Some t"
  shows "generationKept t"
proof (cases e)
  case SecondSection
  have "v_watch s (Suc (v_gen s)) = None"
    using assms(1) by (cases "v_watch s (Suc (v_gen s))") (force simp: recoveryInv_def ownerInv_def)+
  with SecondSection assms(2,3) show ?thesis
    by (auto simp: recovery_ops Let_def split: option.splits prod.splits rebuildPc.splits if_splits)
next
  case (WatcherExits g)
  with assms(2,3) show ?thesis
    by (cases "v_build s" rule: swapping.cases) (auto simp: Let_def split: option.splits if_splits rebuildPc.splits)
qed (use assms(2,3) in \<open>auto simp: recovery_ops Let_def split: option.splits prod.splits rebuildPc.splits if_splits sum.splits\<close>)

interpretation rebuildGeneration: machine_invariant fresh recoveryStep "\<lambda>s. recoveryInv s \<and> generationKept s"
proof unfold_locales
  show "recoveryInv s \<and> generationKept s" if "fresh s" for s
    using that publisherRecovery.init_inv [OF that] by (auto simp: fresh_def NewSender_def noChannel_def recovery_ops Let_def)
  show "recoveryInv t \<and> generationKept t" if "recoveryInv s \<and> generationKept s" "recoveryStep s t" for s t
    using that by (auto simp: recoveryStep_def intro: generationKept_act recoveryInv_act)
qed

text \<open>
  A state of the recovery and a state of the sender that agree on the generation, the channels, the
  watchers and the rebuild in progress; the sender's model starts the watcher with the installation.
\<close>

fun buildOf :: "(task \<times> rebuildPc) option \<Rightarrow> (nat \<times> chan) option" where
  "buildOf (Some (t, Opened c)) = map_option (\<lambda>g. (g, c)) (expectedGen t)"
| "buildOf (Some (t, Installing c)) = map_option (\<lambda>g. (g, c)) (expectedGen t)"
| "buildOf _ = None"

fun watchersOf :: "(nat \<rightharpoonup> chan) \<Rightarrow> (task \<times> rebuildPc) option \<Rightarrow> (nat \<rightharpoonup> chan)" where
  "watchersOf w (Some (t, Swapping old g c)) = w(g \<mapsto> c)"
| "watchersOf w _ = w"

lemma watchersOf_other:
  assumes "genOk gen w b" and "w g = Some c"
  shows "watchersOf w b g = w g" "watchersOf (w(g := None)) b = (watchersOf w b)(g := None)"
  using assms by (cases b rule: swapping.cases; fastforce simp: fun_upd_twist)+

definition agrees :: "recovery \<Rightarrow> senderSys \<Rightarrow> bool" where
  "agrees r s \<longleftrightarrow> s_gen s = v_gen r \<and> s_ch s = v_ch r \<and> nextChan s = v_next r \<and> chanOpen s = (\<lambda>c. c \<in> v_open r) \<and>
     watchers s = watchersOf (v_watch r) (v_build r) \<and> rebuilding s = buildOf (v_build r)"

lemma pending_order:
  assumes "pendingInv s"
  shows "\<exists>ks. distinct ks \<and> set ks = dom (pending s)"
proof -
  have "dom (pending s) \<subseteq> {1..nextTag s}" using pendingInvD(2,3) [OF assms] by auto
  then have "finite (dom (pending s))" by (rule finite_subset) simp
  then show ?thesis by (metis finite_distinct_list)
qed

lemma fullStep_star: "fire e s = Some t \<Longrightarrow> fullStep\<^sup>*\<^sup>* s t"
  by (rule r_into_rtranclp) (auto simp: fullStep_def)

text \<open>Every action of the recovery is a run of the sender's model: nothing, one event, or two.\<close>

text \<open>An action is matched by no step or by steps of the sender.\<close>

definition simulated :: "recovery \<Rightarrow> senderSys \<Rightarrow> bool" where
  "simulated r' s \<longleftrightarrow> (\<exists>s'. fullStep\<^sup>*\<^sup>* s s' \<and> agrees r' s')"

lemma simulated_stutter: "agrees r' s \<Longrightarrow> simulated r' s"
  unfolding simulated_def by blast

lemma simulated_one: "fire f s = Some s' \<Longrightarrow> agrees r' s' \<Longrightarrow> simulated r' s"
  unfolding simulated_def using fullStep_star by blast

lemma open_simulated:
  assumes sim: "agrees r s" and inv: "pendingInv s" "generationKept r" and step: "act (OpenCh a b) r = Some r'"
  shows "simulated r' s"
proof -
  obtain t where t: "v_build r = Some (t, Opening)" "expectedGen t = Some (v_gen r)"
    using step inv(2) by (auto split: option.splits prod.splits rebuildPc.splits)
  show ?thesis
  proof (cases a)
    case (Some x)
    with t step sim show ?thesis by (intro simulated_stutter) (auto simp: agrees_def recovery_ops)
  next
    case None
    let ?s = "rebuildOpen (v_gen r) s"
    have open1: "fire (RebuildOpen (v_gen r)) s = Some ?s" using sim t by (simp add: agrees_def)
    show ?thesis
    proof (cases b)
      case None
      with \<open>a = None\<close> t step sim show ?thesis
        by (intro simulated_one [OF open1]) (auto simp: agrees_def recovery_ops rebuildOpen_def fun_eq_iff Let_def split: if_splits)
    next
      case (Some x)
      have "fire RebuildDiscard ?s = Some (rebuildDiscard (nextChan s) ?s)" by (simp add: rebuildOpen_def Let_def)
      then have "fullStep\<^sup>*\<^sup>* s (rebuildDiscard (nextChan s) ?s)" using open1 fullStep_star by (meson rtranclp_trans)
      moreover have "agrees r' (rebuildDiscard (nextChan s) ?s)"
        using \<open>a = None\<close> Some t step sim
        by (auto simp: agrees_def recovery_ops rebuildOpen_def rebuildDiscard_def fun_eq_iff Let_def split: if_splits)
      ultimately show ?thesis unfolding simulated_def by blast
    qed
  qed
qed

lemma check_simulated:
  assumes sim: "agrees r s" and inv: "pendingInv s" "generationKept r" and step: "act CheckClosed r = Some r'"
  shows "simulated r' s"
proof -
  obtain t c where t: "v_build r = Some (t, Opened c)" "expectedGen t = Some (v_gen r)"
    using step inv(2) by (auto split: option.splits prod.splits rebuildPc.splits)
  show ?thesis
  proof (cases "c \<in> v_open r")
    case True
    with t step sim show ?thesis by (intro simulated_stutter) (auto simp: agrees_def)
  next
    case False
    with t step sim show ?thesis
      by (intro simulated_one [of RebuildDiscard]) (auto simp: agrees_def recovery_ops rebuildDiscard_def fun_eq_iff split: if_splits)
  qed
qed

lemma install_simulated:
  assumes sim: "agrees r s" and inv: "pendingInv s" "generationKept r" and step: "act SecondSection r = Some r'"
  shows "simulated r' s"
proof -
  obtain ks where ks: "distinct ks" "set ks = dom (pending s)" using pending_order [OF inv(1)] by blast
  obtain t c where t: "v_build r = Some (t, Installing c)" "expectedGen t = Some (v_gen r)"
    using step inv(2) by (auto split: option.splits prod.splits rebuildPc.splits)
  show ?thesis
  proof (cases "superseded t r")
    case True
    with t step sim show ?thesis
      by (intro simulated_one [of RebuildDiscard]) (auto simp: agrees_def rebuildReturns_def closeChan_def rebuildDiscard_def fun_eq_iff split: if_splits)
  next
    case False
    with t step sim ks show ?thesis
      by (intro simulated_one [of "RebuildInstall ks"])
        (auto simp: agrees_def installChannel_def rebuildInstall_def failPendingLocked_eq Let_def)
  qed
qed

lemma swap_simulated:
  assumes sim: "agrees r s" and inv: "pendingInv s" "generationKept r" and step: "act FinishSwap r = Some r'"
  shows "simulated r' s"
proof -
  obtain t old g c where t: "v_build r = Some (t, Swapping old g c)" "r' = finishSwap t old g c r"
    using step by (auto split: option.splits prod.splits rebuildPc.splits)
  show ?thesis
  proof (cases "old \<noteq> None \<and> the old \<in> v_open r")
    case True
    with t sim show ?thesis
      by (intro simulated_one [of "BrokerClose (the old)"]) (auto simp: agrees_def finishSwap_def rebuildReturns_def closeChan_def fun_eq_iff split: if_splits)
  next
    case False
    with t sim show ?thesis
      by (intro simulated_stutter) (auto simp: agrees_def finishSwap_def rebuildReturns_def Let_def split: option.splits)
  qed
qed

lemma act_simulated:
  assumes sim: "agrees r s" and inv: "pendingInv s" "generationKept r" and step: "act e r = Some r'"
  shows "simulated r' s"
proof -
  obtain ks where ks: "distinct ks" "set ks = dom (pending s)" using pending_order [OF inv(1)] by blast
  show ?thesis
  proof (cases e)
    case ConnDown
    with step sim show ?thesis by (intro simulated_stutter) (auto simp: agrees_def)
  next
    case ConnUp
    with step sim show ?thesis by (intro simulated_stutter) (auto simp: agrees_def split: if_splits)
  next
    case (ChannelDies c)
    with step sim show ?thesis by (intro simulated_one [of "BrokerClose c"]) (auto simp: agrees_def closeChan_def fun_eq_iff split: if_splits)
  next
    case (WatcherExits g)
    then obtain c where c: "v_watch r g = Some c" "c \<notin> v_open r"
      using step by (auto split: option.splits if_splits)
    moreover note watchersOf_other [OF inv(2) c(1)]
    moreover have "v_gen r' = v_gen r" "v_ch r' = v_ch r" "v_next r' = v_next r" "v_open r' = v_open r" "v_build r' = v_build r"
      "v_watch r' = (v_watch r)(g := None)"
      using WatcherExits step c by (auto simp: Let_def split: if_splits)
    ultimately show ?thesis using sim ks
      by (intro simulated_one [of "ChannelClosed g ks"]) (auto simp: agrees_def onChannelClosed_def failPendingLocked_eq)
  next
    case (CheckConn g)
    with step sim show ?thesis by (intro simulated_stutter) (auto simp: agrees_def Let_def split: if_splits)
  next
    case HookRuns
    with step sim ks show ?thesis
      by (intro simulated_one [of "ReconnectDrain ks"]) (auto simp: agrees_def failPendingLocked_eq split: if_splits)
  next
    case (LockRebuild t)
    with step sim show ?thesis by (intro simulated_stutter) (auto simp: agrees_def split: if_splits)
  next
    case FirstCheck
    with step sim show ?thesis
      by (intro simulated_stutter) (auto simp: agrees_def recovery_ops split: option.splits prod.splits rebuildPc.splits if_splits)
  next
    case (OpenCh a b)
    then show ?thesis using open_simulated [OF sim inv] step by blast
  next
    case CheckClosed
    then show ?thesis using check_simulated [OF sim inv] step by blast
  next
    case SecondSection
    then show ?thesis using install_simulated [OF sim inv] step by blast
  next
    case FinishSwap
    then show ?thesis using swap_simulated [OF sim inv] step by blast
  qed
qed

lemma reach_star: "reach init step s \<Longrightarrow> step\<^sup>*\<^sup>* s t \<Longrightarrow> reach init step t"
  by (rotate_tac, induction rule: rtranclp_induct) (auto intro: reach_step)

lemma fresh_agrees: "fresh r \<Longrightarrow> \<exists>s. reach (\<lambda>s. s = initSys) fullStep s \<and> agrees r s"
proof -
  assume "fresh r"
  moreover obtain s where run: "runTrace fire (take 2 goodTrace) initSys = Some s"
    and "s_gen s = 1" "s_ch s = Some 0" "nextChan s = 1" "chanOpen s = (\<lambda>c. c = 0)" "watchers s = [1 \<mapsto> 0]" "rebuilding s = None"
    by (simp add: goodTrace_def trace_eval fun_eq_iff)
  ultimately have "agrees r s"
    by (auto simp: agrees_def fresh_def NewSender_def noChannel_def recovery_ops Let_def)
  then show ?thesis using fullTrace_reach [OF run] by blast
qed

text \<open>C17: The goroutines of the code are covered by the events of the sender's model: every reachable state of
  the recovery agrees with a reachable state of the sender on the generation, the channels, the
  watchers and the rebuild in progress, and from any such state of the sender each action of the
  recovery (a watcher's exit, a step of \<^verbatim>\<open>rebuild\<close> or \<^verbatim>\<open>Reconnect\<close>, a channel's death) is matched by
  events of the sender that keep the agreement. What holds of every run of the sender, for whatever
  calls are in flight, holds under the code's own control flow.\<close>

theorem recovery_refines_sender:
  assumes "reach fresh recoveryStep r"
  shows "(\<exists>s. reach (\<lambda>s. s = initSys) fullStep s \<and> agrees r s) \<and>
    (\<forall>s e r'. reach (\<lambda>s. s = initSys) fullStep s \<and> agrees r s \<and> act e r = Some r' \<longrightarrow> (\<exists>s'. fullStep\<^sup>*\<^sup>* s s' \<and> agrees r' s'))"
proof -
  have matched: "\<exists>s'. fullStep\<^sup>*\<^sup>* s s' \<and> agrees r' s'"
    if "reach fresh recoveryStep r" "reach (\<lambda>s. s = initSys) fullStep s" "agrees r s" "act e r = Some r'" for r s e r'
    using act_simulated [OF that(3) _ _ that(4), unfolded simulated_def] rebuildGeneration.reach_inv [OF that(1)] wholeSender.reach_inv [OF that(2)]
    by (simp add: baseInv_def)
  have "\<exists>s. reach (\<lambda>s. s = initSys) fullStep s \<and> agrees r s"
    using assms
  proof induction
    case (reach_step r r')
    then show ?case using matched reach_star unfolding recoveryStep_def by meson
  qed (rule fresh_agrees)
  with matched [OF assms] show ?thesis by blast
qed

theorem recovery_refines_sender_witness:
  "\<exists>r s s'. reach fresh recoveryStep r \<and> agrees r s \<and> v_watch r 1 = Some 0 \<and> fullStep\<^sup>*\<^sup>* s s' \<and> s_gen s' = 1 \<and> chanOpen s' 0 = False"
proof -
  obtain r where r: "fresh r" "act (ChannelDies 0) r = Some (closeChan 0 r)" "v_watch r 1 = Some 0" "v_gen r = 1"
    by (simp add: fresh_def NewSender_def noChannel_def recovery_ops Let_def)
  have reach: "reach fresh recoveryStep r" by (rule reach_init [of fresh, OF r(1)])
  obtain s where s: "reach (\<lambda>s. s = initSys) fullStep s" "agrees r s" using fresh_agrees [OF r(1)] by blast
  then obtain s' where "fullStep\<^sup>*\<^sup>* s s'" "agrees (closeChan 0 r) s'"
    using recovery_refines_sender [OF reach] r(2) by blast
  then have "s_gen s' = 1" "chanOpen s' 0 = False" "fullStep\<^sup>*\<^sup>* s s'" using r(4) by (simp_all add: agrees_def closeChan_def)
  then show ?thesis using reach s(2) r(3) by blast
qed

end
