(* ===== verification/Matcher.thy ===== *)
theory Matcher
  imports RC_Prelude
begin

text \<open>
  The topic-pattern matcher of \<^verbatim>\<open>internal/matcher/keymatcher.go\<close>: wildcard detection, segment
  matching, and the choice of the most specific pattern. The matching rules of the package
  comment are stated on their own as the inductive relation \<open>topic_match\<close>; the choice is shown
  to be independent of the order of the candidates for patterns without \<^verbatim>\<open>#\<close>.
\<close>

section \<open>The code\<close>

definition singleWordWildcard :: gostring where "singleWordWildcard = ''*''"
definition multipleWordWildcard :: gostring where "multipleWordWildcard = ''#''"
definition separator :: char where "separator = CHR ''.''"

lemmas wildcards = singleWordWildcard_def multipleWordWildcard_def

definition HasWildcard :: "gostring \<Rightarrow> bool" where
  "HasWildcard s \<longleftrightarrow> list_ex (\<lambda>c. c = CHR ''*'' \<or> c = CHR ''#'') s"

fun matchSegments :: "gostring list \<Rightarrow> gostring list \<Rightarrow> bool" where
  "matchSegments [] key = (key = [])"
| "matchSegments (head # rest) key =
     (if head = multipleWordWildcard
      then (if rest = [] then True
            else list_ex (\<lambda>i. matchSegments rest (drop i key)) [0..<Suc (length key)])
      else (case key of
              [] \<Rightarrow> False
            | k # ks \<Rightarrow> if head = singleWordWildcard \<or> head = k then matchSegments rest ks
                       else False))"

definition Matches :: "gostring \<Rightarrow> gostring \<Rightarrow> bool" where
  "Matches routingKey pattern =
     (if \<not> HasWildcard pattern then False
      else matchSegments (splitOn separator pattern) (splitOn separator routingKey))"

function compareSegments :: "int \<Rightarrow> gostring list \<Rightarrow> gostring list \<Rightarrow> nat \<Rightarrow> int" where
  "compareSegments current first second idx =
     (if idx \<ge> length first \<or> idx \<ge> length second then current
      else if first ! idx = second ! idx then compareSegments current first second (idx + 1)
      else if first ! idx \<noteq> singleWordWildcard \<and> first ! idx \<noteq> multipleWordWildcard then -1
      else if second ! idx \<noteq> singleWordWildcard \<and> second ! idx \<noteq> multipleWordWildcard then 1
      else if first ! idx = multipleWordWildcard \<and> second ! idx = singleWordWildcard
        then compareSegments 1 first second (idx + 1)
      else if first ! idx = singleWordWildcard \<and> second ! idx = multipleWordWildcard
        then compareSegments (-1) first second (idx + 1)
      else int (length second) - int (length first))"
  by pat_completeness auto
termination
  by (relation "measure (\<lambda>(current, first, second, idx). length first - idx)") auto

declare compareSegments.simps [simp del]

definition compare :: "gostring \<Rightarrow> gostring \<Rightarrow> int" where
  "compare a b =
     (let aParts = splitOn separator a; bParts = splitOn separator b;
          initial = int (length bParts) - int (length aParts)
      in compareSegments initial aParts bParts 0)"

definition MostSpecific :: "gostring list \<Rightarrow> gostring" where
  "MostSpecific candidates =
     (case candidates of
        [] \<Rightarrow> []
      | c0 # cs \<Rightarrow> foldl (\<lambda>best c. if compare c best < 0 then c else best) c0 cs)"

definition Resolve :: "gostring \<Rightarrow> gostring list \<Rightarrow> gostring" where
  "Resolve name keys = MostSpecific (filter (\<lambda>k. Matches name k) keys)"

section \<open>The matching rules\<close>

text \<open>
  The rules the package documents: a literal segment matches itself, \<^verbatim>\<open>*\<close> exactly one segment,
  \<^verbatim>\<open>#\<close> any number of segments.
\<close>

inductive topic_match :: "gostring list \<Rightarrow> gostring list \<Rightarrow> bool" where
  tm_end: "topic_match [] []"
| tm_literal: "topic_match ps ks \<Longrightarrow> topic_match (p # ps) (p # ks)"
| tm_single: "topic_match ps ks \<Longrightarrow> topic_match (singleWordWildcard # ps) (k # ks)"
| tm_none: "topic_match ps ks \<Longrightarrow> topic_match (multipleWordWildcard # ps) ks"
| tm_more: "topic_match (multipleWordWildcard # ps) ks \<Longrightarrow> topic_match (multipleWordWildcard # ps) (k # ks)"

inductive_simps topic_match_Nil [simp]: "topic_match [] ks"

inductive_cases topic_match_ConsE: "topic_match (p # ps) ks"

lemma topic_match_hash_drop:
  "topic_match ps (drop i ks) \<Longrightarrow> topic_match (multipleWordWildcard # ps) ks"
proof (induction i arbitrary: ks)
  case 0
  then show ?case by (auto intro: topic_match.intros)
next
  case (Suc i)
  then show ?case by (cases ks) (auto intro: topic_match.intros)
qed

lemma topic_match_hashD:
  "topic_match (multipleWordWildcard # ps) ks \<Longrightarrow> \<exists>i \<le> length ks. topic_match ps (drop i ks)"
proof (induction "multipleWordWildcard # ps" ks rule: topic_match.induct)
  case (tm_literal ks)
  then show ?case by (intro exI [of _ 1]) auto
next
  case (tm_more ks k)
  then obtain i where "i \<le> length ks" and "topic_match ps (drop i ks)" by auto
  then show ?case by (intro exI [of _ "Suc i"]) auto
qed (auto simp: wildcards intro: exI [of _ 0])

lemma topic_match_hash:
  "topic_match (multipleWordWildcard # ps) ks \<longleftrightarrow> (\<exists>i \<le> length ks. topic_match ps (drop i ks))"
  using topic_match_hash_drop topic_match_hashD by blast

lemma topic_match_hash_only: "topic_match [multipleWordWildcard] ks"
  by (auto simp: topic_match_hash intro: exI [of _ "length ks"])

lemma topic_match_other:
  "p \<noteq> multipleWordWildcard \<Longrightarrow>
   topic_match (p # ps) ks \<longleftrightarrow>
     (\<exists>k ks'. ks = k # ks' \<and> (p = singleWordWildcard \<or> p = k) \<and> topic_match ps ks')"
  by (auto intro: topic_match.intros elim: topic_match_ConsE)

lemma list_ex_upt: "list_ex P [0..<Suc n] \<longleftrightarrow> (\<exists>i \<le> n. P i)"
  by (auto simp: list_ex_iff less_Suc_eq_le simp del: upt_Suc)

lemma matchSegments_iff: "matchSegments ps ks \<longleftrightarrow> topic_match ps ks"
proof (induction ps ks rule: matchSegments.induct)
  case (1 key)
  then show ?case by simp
next
  case (2 head rest key)
  show ?case
  proof (cases "head = multipleWordWildcard")
    case True
    then show ?thesis
      using 2(1)
      by (cases "rest = []")
        (auto simp: list_ex_upt topic_match_hash simp del: upt_Suc intro: exI [of _ "length key"])
  next
    case False
    then show ?thesis using 2(2) by (auto simp: topic_match_other split: list.splits)
  qed
qed


section \<open>Choosing the most specific pattern\<close>

text \<open>
  The selection loop keeps the best candidate so far. Its contract: if the comparator is a strict
  total order on the candidates for one key, the result is the least candidate, whatever the order
  in which the candidates are visited.
\<close>

lemma select_member:
  "foldl (\<lambda>best c. if cmp c best < (0::int) then c else best) c0 cs \<in> insert c0 (set cs)"
proof (induction cs arbitrary: c0)
  case (Cons c cs)
  from Cons [of "if cmp c c0 < 0 then c else c0"] show ?case by (auto split: if_splits)
qed simp

locale specificity =
  fixes cmp :: "'a \<Rightarrow> 'a \<Rightarrow> int"
    and cand :: "'k \<Rightarrow> 'a set"
  assumes cmp_asym: "a \<in> cand k \<Longrightarrow> b \<in> cand k \<Longrightarrow> cmp a b < 0 \<Longrightarrow> \<not> cmp b a < 0"
    and cmp_trans: "a \<in> cand k \<Longrightarrow> b \<in> cand k \<Longrightarrow> c \<in> cand k \<Longrightarrow>
      cmp a b < 0 \<Longrightarrow> cmp b c < 0 \<Longrightarrow> cmp a c < 0"
    and cmp_total: "a \<in> cand k \<Longrightarrow> b \<in> cand k \<Longrightarrow> a \<noteq> b \<Longrightarrow> cmp a b < 0 \<or> cmp b a < 0"
begin

lemma select_least:
  assumes "insert c0 (set cs) \<subseteq> cand k" and "x \<in> insert c0 (set cs)"
    and "x \<noteq> foldl (\<lambda>best c. if cmp c best < 0 then c else best) c0 cs"
  shows "cmp (foldl (\<lambda>best c. if cmp c best < 0 then c else best) c0 cs) x < 0"
  using assms
proof (induction cs arbitrary: c0 x)
  case Nil
  then show ?case by simp
next
  case (Cons c cs)
  let ?b = "if cmp c c0 < 0 then c else c0"
  let ?r = "foldl (\<lambda>best c. if cmp c best < 0 then c else best) ?b cs"
  have r: "?r \<in> cand k" using select_member [of cmp ?b cs] Cons.prems(1)
    by (auto split: if_splits)
  have IH: "y \<in> insert ?b (set cs) \<Longrightarrow> y \<noteq> ?r \<Longrightarrow> cmp ?r y < 0" for y
    using Cons.IH [of ?b y] Cons.prems(1) by (auto split: if_splits)
  show ?case
  proof (cases "x \<in> insert ?b (set cs)")
    case True
    then show ?thesis using IH [of x] Cons.prems(3) by (simp split: if_splits)
  next
    case False
    then have "cmp ?b x < 0"
      using Cons.prems(1,2) cmp_total [of c k c0] by (auto split: if_splits)
    moreover have "?b = ?r \<or> cmp ?r ?b < 0" using IH [of ?b] by blast
    ultimately have "cmp ?r x < 0"
      using r Cons.prems(1,2) cmp_trans [of ?r k ?b x] by (auto split: if_splits)
    then show ?thesis by simp
  qed
qed

lemma select_order_independent:
  assumes "insert c0 (set cs) \<subseteq> cand k" and "insert d0 (set ds) = insert c0 (set cs)"
  shows "foldl (\<lambda>best c. if cmp c best < 0 then c else best) d0 ds
       = foldl (\<lambda>best c. if cmp c best < 0 then c else best) c0 cs" (is "?d = ?c")
proof (rule ccontr)
  assume ne: "?d \<noteq> ?c"
  have mem: "?d \<in> insert c0 (set cs)" "?c \<in> insert c0 (set cs)"
    using select_member [of cmp d0 ds] select_member [of cmp c0 cs] assms(2) by auto
  then have "cmp ?c ?d < 0" and "cmp ?d ?c < 0"
    using select_least [of c0 cs k ?d] select_least [of d0 ds k ?c] assms ne by auto
  then show False using cmp_asym [of ?c k ?d] mem assms(1) by blast
qed

end

section \<open>Patterns without the multi-segment wildcard\<close>

definition hashFree :: "gostring \<Rightarrow> bool" where
  "hashFree p \<longleftrightarrow> multipleWordWildcard \<notin> set (splitOn separator p)"

text \<open>The candidates for a name among the patterns without \<^verbatim>\<open>#\<close> segments.\<close>

definition starCandidates :: "gostring \<Rightarrow> gostring set" where
  "starCandidates name = {p. hashFree p \<and> Matches name p}"

definition starFits :: "gostring list \<Rightarrow> gostring list \<Rightarrow> bool" where
  "starFits ps ks \<longleftrightarrow> multipleWordWildcard \<notin> set ps \<and>
     list_all2 (\<lambda>p k. p = singleWordWildcard \<or> p = k) ps ks"

lemma topic_match_starFits:
  "multipleWordWildcard \<notin> set ps \<Longrightarrow> topic_match ps ks \<longleftrightarrow> starFits ps ks"
  by (induction ps arbitrary: ks)
    (auto simp: starFits_def topic_match_other list_all2_Cons1)

lemma starCandidates_fit:
  "p \<in> starCandidates name \<Longrightarrow> starFits (splitOn separator p) (splitOn separator name)"
  by (auto simp: starCandidates_def hashFree_def Matches_def matchSegments_iff
      topic_match_starFits split: if_splits)

text \<open>On such candidates the comparator decides at the first position where they differ.\<close>

fun starLess :: "gostring list \<Rightarrow> gostring list \<Rightarrow> bool" where
  "starLess (x # xs) (y # ys) = (if x = y then starLess xs ys else x \<noteq> singleWordWildcard)"
| "starLess _ _ = False"

lemma compareSegments_starLess:
  assumes "starFits (drop idx a) ks" and "starFits (drop idx b) ks" and "length a = length b"
  shows "compareSegments 0 a b idx < 0 \<longleftrightarrow> starLess (drop idx a) (drop idx b)"
  using assms
proof (induction "0::int" a b idx arbitrary: ks rule: compareSegments.induct)
  case (1 a b idx)
  show ?case
  proof (cases "idx < length a")
    case False
    with 1(6) show ?thesis by (simp add: compareSegments.simps [of _ a b idx])
  next
    case True
    then have da: "drop idx a = a ! idx # drop (Suc idx) a"
      and db: "drop idx b = b ! idx # drop (Suc idx) b"
      using 1(6) by (simp_all add: Cons_nth_drop_Suc)
    with 1(4,5) obtain k ks' where ks: "ks = k # ks'"
      and fit: "starFits (drop (Suc idx) a) ks'" "starFits (drop (Suc idx) b) ks'"
      and ab: "a ! idx = singleWordWildcard \<or> a ! idx = k"
        "b ! idx = singleWordWildcard \<or> b ! idx = k"
        "a ! idx \<noteq> multipleWordWildcard" "b ! idx \<noteq> multipleWordWildcard"
      by (auto simp: starFits_def list_all2_Cons1)
    show ?thesis
    proof (cases "a ! idx = b ! idx")
      case True
      then show ?thesis
        using \<open>idx < length a\<close> 1(1) [OF _ True, of ks'] 1(6) fit da db
        by (simp add: compareSegments.simps [of _ a b idx])
    next
      case False
      then show ?thesis
        using \<open>idx < length a\<close> 1(6) ab da db
        by (auto simp: compareSegments.simps [of _ a b idx])
    qed
  qed
qed

lemma compare_starLess:
  assumes "a \<in> starCandidates name" and "b \<in> starCandidates name"
  shows "compare a b < 0 \<longleftrightarrow> starLess (splitOn separator a) (splitOn separator b)"
proof -
  from assms [THEN starCandidates_fit]
  have fa: "starFits (splitOn separator a) (splitOn separator name)"
    and fb: "starFits (splitOn separator b) (splitOn separator name)" .
  then have "length (splitOn separator a) = length (splitOn separator b)"
    by (metis list_all2_lengthD starFits_def)
  with compareSegments_starLess [of 0 "splitOn separator a" _ "splitOn separator b"] fa fb
  show ?thesis by (auto simp: compare_def)
qed

lemma starLess_asym: "starFits a ks \<Longrightarrow> starFits b ks \<Longrightarrow> starLess a b \<Longrightarrow> \<not> starLess b a"
  by (induction a b arbitrary: ks rule: starLess.induct)
    (auto simp: starFits_def list_all2_Cons1 split: if_splits)

lemma starLess_trans:
  "starFits a ks \<Longrightarrow> starFits b ks \<Longrightarrow> starFits c ks \<Longrightarrow> starLess a b \<Longrightarrow> starLess b c \<Longrightarrow> starLess a c"
proof (induction a b arbitrary: ks c rule: starLess.induct)
  case (1 x xs y ys)
  then show ?case
    by (cases c) (auto simp: starFits_def list_all2_Cons1 split: if_splits)
qed auto

lemma starLess_total:
  "starFits a ks \<Longrightarrow> starFits b ks \<Longrightarrow> a \<noteq> b \<Longrightarrow> starLess a b \<or> starLess b a"
proof (induction a b arbitrary: ks rule: starLess.induct)
  case (1 x xs y ys)
  then show ?case by (auto simp: starFits_def list_all2_Cons1)
qed (auto simp: starFits_def)

interpretation star: specificity compare starCandidates
proof
  fix a b c :: gostring and k
  assume a: "a \<in> starCandidates k" and b: "b \<in> starCandidates k"
  note fits = starCandidates_fit [OF a] starCandidates_fit [OF b]
  show "compare a b < 0 \<Longrightarrow> \<not> compare b a < 0"
    using starLess_asym [OF fits] by (simp add: compare_starLess [OF a b] compare_starLess [OF b a])
  show "a \<noteq> b \<Longrightarrow> compare a b < 0 \<or> compare b a < 0"
    using starLess_total [OF fits]
    by (simp add: compare_starLess [OF a b] compare_starLess [OF b a] splitOn_inject)
  assume c: "c \<in> starCandidates k"
  show "compare a b < 0 \<Longrightarrow> compare b c < 0 \<Longrightarrow> compare a c < 0"
    using starLess_trans [OF fits starCandidates_fit [OF c]]
    by (simp add: compare_starLess [OF a b] compare_starLess [OF b c] compare_starLess [OF a c])
qed

section \<open>Properties\<close>

text \<open>C14: \<^verbatim>\<open>Matches\<close> implements the documented topic rules: a name matches a pattern exactly when
  the pattern holds a wildcard character and its segments match the segments of the name under the
  rules for literals, \<^verbatim>\<open>*\<close> and \<^verbatim>\<open>#\<close>. The search over all splits for \<^verbatim>\<open>#\<close> loses no match.\<close>

theorem Matches_topic_rules:
  "Matches routingKey pattern \<longleftrightarrow>
     (CHR ''*'' \<in> set pattern \<or> CHR ''#'' \<in> set pattern) \<and>
     topic_match (splitOn separator pattern) (splitOn separator routingKey)"
  by (auto simp: Matches_def HasWildcard_def list_ex_iff matchSegments_iff)

lemma MostSpecific_member: "cs \<noteq> [] \<Longrightarrow> MostSpecific cs \<in> set cs"
  using select_member [of compare] by (cases cs) (auto simp: MostSpecific_def)

lemma Matches_nonempty: "Matches name p \<Longrightarrow> p \<noteq> []"
  by (auto simp: Matches_def HasWildcard_def)

lemma Resolve_member:
  "\<exists>k \<in> set keys. Matches name k \<Longrightarrow> Resolve name keys \<in> set keys \<and> Matches name (Resolve name keys)"
  using MostSpecific_member [of "filter (\<lambda>k. Matches name k) keys"]
  by (auto simp: Resolve_def filter_empty_conv)

lemma Resolve_none: "\<not> (\<exists>k \<in> set keys. Matches name k) \<Longrightarrow> Resolve name keys = []"
  by (auto simp: Resolve_def MostSpecific_def)

lemma Resolve_empty_iff: "Resolve name keys = [] \<longleftrightarrow> \<not> (\<exists>k \<in> set keys. Matches name k)"
  using Resolve_member [of keys name] Resolve_none [of keys name] Matches_nonempty by blast

text \<open>\<^verbatim>\<open>Resolve\<close> answers with a registered pattern that matches the name when there is one,
  and with the empty string exactly when no registered pattern matches, so the empty string is a
  safe "not found" marker for its callers.\<close>

theorem Resolve_correct:
  "if \<exists>k \<in> set keys. Matches name k
   then Resolve name keys \<in> set keys \<and> Matches name (Resolve name keys) \<and> Resolve name keys \<noteq> []
   else Resolve name keys = []"
  using Resolve_member [of keys name] Resolve_none [of keys name] Matches_nonempty by auto

lemma Resolve_star_unique:
  assumes "set ks = set ks'" and "\<And>k. k \<in> set ks \<Longrightarrow> Matches name k \<Longrightarrow> hashFree k"
  shows "Resolve name ks = Resolve name ks'"
proof -
  let ?c = "filter (\<lambda>k. Matches name k) ks" and ?d = "filter (\<lambda>k. Matches name k) ks'"
  have eq: "set ?c = set ?d" using assms(1) by auto
  have cand: "set ?c \<subseteq> starCandidates name" using assms(2) by (auto simp: starCandidates_def)
  show ?thesis
  proof (cases ?c)
    case Nil
    with eq have "?d = []" by simp
    with Nil show ?thesis by (simp add: Resolve_def)
  next
    case (Cons c cs)
    with eq obtain d ds where d: "?d = d # ds" by (cases ?d) auto
    have "foldl (\<lambda>best c. if compare c best < 0 then c else best) d ds
        = foldl (\<lambda>best c. if compare c best < 0 then c else best) c cs"
      using star.select_order_independent [of c cs name d ds] cand eq Cons d by auto
    with Cons d show ?thesis by (simp add: Resolve_def MostSpecific_def)
  qed
qed

lemma Resolve_star_least:
  assumes "\<And>k. k \<in> set ks \<Longrightarrow> Matches name k \<Longrightarrow> hashFree k"
    and "p \<in> set ks" and "Matches name p" and "p \<noteq> Resolve name ks"
  shows "compare (Resolve name ks) p < 0"
proof -
  let ?c = "filter (\<lambda>k. Matches name k) ks"
  have cand: "set ?c \<subseteq> starCandidates name" using assms(1) by (auto simp: starCandidates_def)
  have p: "p \<in> set ?c" using assms(2,3) by auto
  then obtain c cs where c: "?c = c # cs" by (cases ?c) auto
  then show ?thesis
    using star.select_least [of c cs name p] cand p assms(4)
    by (auto simp: Resolve_def MostSpecific_def)
qed



text \<open>with \<^verbatim>\<open>#\<close> patterns the choice does depend on the visiting order. Both
  \<^verbatim>\<open>#.b.c\<close> and \<^verbatim>\<open>#.c\<close> match \<^verbatim>\<open>a.b.c\<close>, \<^verbatim>\<open>compare\<close> calls each more specific than the other, and
  the pattern visited last wins, although the first is the longer and so the documented winner.\<close>

theorem Resolve_hash_order_dependent:
  "compare ''#.b.c'' ''#.c'' < 0 \<and> compare ''#.c'' ''#.b.c'' < 0 \<and>
   Resolve ''a.b.c'' [''#.b.c'', ''#.c''] = ''#.c'' \<and>
   Resolve ''a.b.c'' [''#.c'', ''#.b.c''] = ''#.b.c''"
proof (intro conjI)
  show "compare ''#.b.c'' ''#.c'' < 0" by code_simp
  show "compare ''#.c'' ''#.b.c'' < 0" by code_simp
  show "Resolve ''a.b.c'' [''#.b.c'', ''#.c''] = ''#.c''" by code_simp
  show "Resolve ''a.b.c'' [''#.c'', ''#.b.c''] = ''#.b.c''" by code_simp
qed

text \<open>
  The comment on \<^verbatim>\<open>MostSpecific\<close> says that fewer wildcards beat more; the comparator looks at the
  first differing position instead, and picks the pattern with two wildcards over the one with one.
\<close>

lemma fewer_wildcards_can_lose:
  "Resolve ''a.b.c'' [''a.*.*'', ''*.b.c''] = ''a.*.*''"
  by code_simp

end
