(* ===== verification/Registry_Interface.thy ===== *)
theory Registry_Interface
  imports RC_Async Matcher
begin

text \<open>
  The contract of \<^verbatim>\<open>async.HandlerRegistry\<close> (\<^verbatim>\<open>pkg/async/registry.go\<close>) as two interfaces: a
  table of handlers that is only ever extended, and the resolution of a delivered name to a
  handler (exact name first, then the most specific matching pattern). Both registries interpret
  them on their own operations; the listeners rest on the facts proved here once.
\<close>

section \<open>Registration\<close>

text \<open>Registering several handlers, as an application does before \<^verbatim>\<open>Start\<close>: the first error stops it.\<close>

fun registerAll :: "('s \<Rightarrow> gostring \<Rightarrow> 'h \<Rightarrow> goerror + 's) \<Rightarrow> 's \<Rightarrow> (gostring \<times> 'h) list \<Rightarrow> goerror + 's" where
  "registerAll listen s [] = Inr s"
| "registerAll listen s ((n, h) # xs) =
     (case listen s n h of Inl e \<Rightarrow> Inl e | Inr s' \<Rightarrow> registerAll listen s' xs)"

locale handler_table =
  fixes handlers :: "'s \<Rightarrow> gostring \<rightharpoonup> 'h"
    and listen :: "'s \<Rightarrow> gostring \<Rightarrow> 'h \<Rightarrow> goerror + 's"
    and accepts :: "'s \<Rightarrow> gostring \<Rightarrow> bool"
  assumes listen_new: "accepts s n \<Longrightarrow> handlers s n = None \<Longrightarrow>
      \<exists>s'. listen s n h = Inr s' \<and> handlers s' = (handlers s)(n \<mapsto> h)"
    and listen_dup: "handlers s n = Some h' \<Longrightarrow> \<exists>e. listen s n h = Inl e"
    and listen_refused: "\<not> accepts s n \<Longrightarrow> \<exists>e. listen s n h = Inl e"
    and listen_accepts: "listen s n h = Inr s' \<Longrightarrow> accepts s' m = accepts s m"
begin

lemma listen_ok_iff: "(\<exists>s'. listen s n h = Inr s') \<longleftrightarrow> accepts s n \<and> handlers s n = None"
  using listen_new [of s n h] listen_dup [of s n _ h] listen_refused [of s n h]
  by (cases "handlers s n") (auto, metis old.sum.exhaust sum.distinct(1))

lemma listen_handlers: "listen s n h = Inr s' \<Longrightarrow> handlers s' = (handlers s)(n \<mapsto> h)"
  using listen_ok_iff [of s n h] listen_new [of s n h] by auto

lemma registerAll_handlers:
  "registerAll listen s xs = Inr s' \<Longrightarrow>
     handlers s' = handlers s ++ map_of xs \<and> distinct (map fst xs)
     \<and> fst ` set xs \<inter> dom (handlers s) = {}"
proof (induction xs arbitrary: s)
  case (Cons x xs)
  obtain n h where x: "x = (n, h)" by (cases x)
  with Cons.prems obtain t where t: "listen s n h = Inr t" and r: "registerAll listen t xs = Inr s'"
    by (auto split: sum.splits)
  note IH = Cons.IH [OF r]
  have ht: "handlers t = (handlers s)(n \<mapsto> h)" and none: "handlers s n = None"
    using listen_handlers [OF t] listen_ok_iff [of s n h] t by auto
  have n: "n \<notin> fst ` set xs" using IH ht by auto
  then have "map_of xs n = None" by (simp add: map_of_eq_None_iff)
  then have "(handlers s)(n \<mapsto> h) ++ map_of xs = handlers s ++ map_of ((n, h) # xs)"
    by (simp add: map_add_def fun_eq_iff split: option.split)
  then have "handlers s' = handlers s ++ map_of (x # xs)" using IH ht x by metis
  moreover have "distinct (map fst (x # xs))" and "fst ` set (x # xs) \<inter> dom (handlers s) = {}"
    using IH ht x n none by auto
  ultimately show ?case by blast
qed simp

lemma registerAll_ok:
  "distinct (map fst xs) \<Longrightarrow> fst ` set xs \<inter> dom (handlers s) = {} \<Longrightarrow>
   (\<And>n. n \<in> fst ` set xs \<Longrightarrow> accepts s n) \<Longrightarrow> \<exists>s'. registerAll listen s xs = Inr s'"
proof (induction xs arbitrary: s)
  case (Cons x xs)
  obtain n h where x: "x = (n, h)" by (cases x)
  with Cons.prems obtain t where t: "listen s n h = Inr t" "handlers t = (handlers s)(n \<mapsto> h)"
    using listen_new [of s n h] by auto
  moreover have "fst ` set xs \<inter> dom (handlers t) = {}" and "n \<notin> fst ` set xs"
    using Cons.prems x t(2) by (auto simp: image_iff)
  then have "\<exists>s'. registerAll listen t xs = Inr s'"
    using Cons.prems x listen_accepts [OF t(1)] by (intro Cons.IH) auto
  ultimately show ?case using x by simp
qed simp

end

section \<open>Resolution\<close>

text \<open>
  What a registry may answer for a delivered name: the handler of that very name; otherwise the
  handler of the pattern \<^verbatim>\<open>Resolve\<close> picks under some visiting order of the keys; otherwise nil.
\<close>

definition patternHandler :: "(gostring \<rightharpoonup> 'h) \<Rightarrow> gostring \<Rightarrow> 'h option" where
  "patternHandler m pat = (if pat = [] then None else m pat)"

definition resolves :: "(gostring \<rightharpoonup> 'h) \<Rightarrow> gostring \<Rightarrow> 'h option \<Rightarrow> bool" where
  "resolves m name r \<longleftrightarrow>
     (case m name of
        Some h \<Rightarrow> r = Some h
      | None \<Rightarrow> \<exists>ks. keyOrder m ks \<and> r = patternHandler m (Resolve name ks))"

lemma resolves_exact: "m name = Some h \<Longrightarrow> resolves m name r \<longleftrightarrow> r = Some h"
  by (simp add: resolves_def)

lemma resolves_SomeD:
  assumes "resolves m name (Some h)"
  shows "\<exists>p. m p = Some h \<and> (p = name \<or> m name = None \<and> Matches name p)"
proof (cases "m name")
  case (Some h')
  with assms show ?thesis by (auto simp: resolves_def)
next
  case None
  with assms obtain ks where ks: "keyOrder m ks" and p: "Resolve name ks \<noteq> []" "m (Resolve name ks) = Some h"
    by (auto simp: resolves_def patternHandler_def split: if_splits)
  with None show ?thesis using Resolve_member [of ks name] Resolve_none [of ks name] by blast
qed

lemma resolves_None_iff:
  assumes "resolves m name r"
  shows "r = None \<longleftrightarrow> m name = None \<and> (\<forall>p \<in> dom m. \<not> Matches name p)"
proof (cases "m name")
  case (Some h)
  with assms show ?thesis by (auto simp: resolves_def)
next
  case None
  with assms obtain ks where ks: "keyOrder m ks" and r: "r = patternHandler m (Resolve name ks)"
    by (auto simp: resolves_def)
  then have "set ks = dom m" by (simp add: keyOrder_def)
  then show ?thesis
    using None r Resolve_empty_iff [of name ks] Resolve_member [of ks name]
    by (auto simp: patternHandler_def)
qed

text \<open>Without \<^verbatim>\<open>#\<close> patterns there is exactly one possible answer.\<close>

lemma resolves_star_unique:
  assumes "resolves m name r" and "resolves m name r'"
    and "\<And>p. p \<in> dom m \<Longrightarrow> Matches name p \<Longrightarrow> hashFree p"
  shows "r = r'"
proof (cases "m name")
  case (Some h)
  with assms(1,2) show ?thesis by (auto simp: resolves_def)
next
  case None
  with assms(1,2) obtain ks ks' where "keyOrder m ks" and "keyOrder m ks'"
    and r: "r = patternHandler m (Resolve name ks)" "r' = patternHandler m (Resolve name ks')"
    by (auto simp: resolves_def)
  then have "Resolve name ks = Resolve name ks'"
    using assms(3) by (intro Resolve_star_unique) (auto simp: keyOrder_def)
  with r show ?thesis by simp
qed

locale name_resolver =
  fixes handlers :: "'s \<Rightarrow> gostring \<rightharpoonup> 'h"
    and lookup :: "'s \<Rightarrow> gostring list \<Rightarrow> gostring \<Rightarrow> 'h option \<times> 's"
    and inv :: "'s \<Rightarrow> bool"
  assumes lookup_resolves: "inv s \<Longrightarrow> keyOrder (handlers s) ks \<Longrightarrow>
      resolves (handlers s) n (fst (lookup s ks n))"
    and lookup_handlers: "handlers (snd (lookup s ks n)) = handlers s"
    and lookup_inv: "inv s \<Longrightarrow> keyOrder (handlers s) ks \<Longrightarrow> inv (snd (lookup s ks n))"
begin

lemma exact_first:
  "inv s \<Longrightarrow> keyOrder (handlers s) ks \<Longrightarrow> handlers s n = Some h \<Longrightarrow> fst (lookup s ks n) = Some h"
  using lookup_resolves [of s ks n] by (simp add: resolves_exact)

lemma found:
  "inv s \<Longrightarrow> keyOrder (handlers s) ks \<Longrightarrow> fst (lookup s ks n) = Some h \<Longrightarrow>
   \<exists>p. handlers s p = Some h \<and> (p = n \<or> handlers s n = None \<and> Matches n p)"
  using lookup_resolves [of s ks n] resolves_SomeD [of "handlers s" n h] by simp

lemma not_found:
  "inv s \<Longrightarrow> keyOrder (handlers s) ks \<Longrightarrow>
   fst (lookup s ks n) = None \<longleftrightarrow> handlers s n = None \<and> (\<forall>p \<in> dom (handlers s). \<not> Matches n p)"
  using lookup_resolves [of s ks n] resolves_None_iff by blast

lemma star_deterministic:
  assumes "inv s" and "inv t" and "handlers s = handlers t"
    and "keyOrder (handlers s) ks" and "keyOrder (handlers s) ks'"
    and "\<And>p. p \<in> dom (handlers s) \<Longrightarrow> Matches n p \<Longrightarrow> hashFree p"
  shows "fst (lookup s ks n) = fst (lookup t ks' n)"
  using assms lookup_resolves [of s ks n] lookup_resolves [of t ks' n] resolves_star_unique by metis

end

end
