(* ===== verification/Rabbit_Registry.thy ===== *)
theory Rabbit_Registry
  imports Registry_Interface
begin

text \<open>
  The handler registry of the RabbitMQ transport (\<^verbatim>\<open>internal/rabbit/registry.go\<close>): four handler
  maps and three resolution caches. A lookup first reads under the shared lock and, on a miss,
  takes the exclusive lock, checks again and fills the cache. A handler is an abstract non-nil
  value; a lookup that returns nil is \<open>None\<close>.
\<close>

section \<open>State and operations\<close>

text \<open>A cache maps a delivered name to the matched pattern, or to the empty string for no match;
  a nil cache map is \<open>None\<close>.\<close>

type_synonym cache = "(gostring \<rightharpoonup> gostring) option"

record ('e, 'c, 'q, 'n) rabbitRegistry =
  eventHandlers :: "gostring \<rightharpoonup> 'e"
  cmdHandlers :: "gostring \<rightharpoonup> 'c"
  queryHandlers :: "gostring \<rightharpoonup> 'q"
  notifHandlers :: "gostring \<rightharpoonup> 'n"
  eventCache :: cache
  cmdCache :: cache
  notifCache :: cache

definition newHandlerRegistry :: "('e, 'c, 'q, 'n) rabbitRegistry" where
  "newHandlerRegistry = \<lparr>eventHandlers = Map.empty, cmdHandlers = Map.empty,
     queryHandlers = Map.empty, notifHandlers = Map.empty,
     eventCache = None, cmdCache = None, notifCache = None\<rparr>"

definition ListenEvent ::
  "('e, 'c, 'q, 'n) rabbitRegistry \<Rightarrow> gostring \<Rightarrow> 'e \<Rightarrow> goerror + ('e, 'c, 'q, 'n) rabbitRegistry" where
  "ListenEvent r name h =
     (if eventHandlers r name \<noteq> None then Inl (ErrDuplicateHandler (''event '' @ goQuote name))
      else Inr (r\<lparr>eventHandlers := (eventHandlers r)(name \<mapsto> h), eventCache := None\<rparr>))"

definition ListenCommand ::
  "('e, 'c, 'q, 'n) rabbitRegistry \<Rightarrow> gostring \<Rightarrow> 'c \<Rightarrow> goerror + ('e, 'c, 'q, 'n) rabbitRegistry" where
  "ListenCommand r name h =
     (if cmdHandlers r name \<noteq> None then Inl (ErrDuplicateHandler (''command '' @ goQuote name))
      else Inr (r\<lparr>cmdHandlers := (cmdHandlers r)(name \<mapsto> h), cmdCache := None\<rparr>))"

definition ServeQuery ::
  "('e, 'c, 'q, 'n) rabbitRegistry \<Rightarrow> gostring \<Rightarrow> 'q \<Rightarrow> goerror + ('e, 'c, 'q, 'n) rabbitRegistry" where
  "ServeQuery r name h =
     (if HasWildcard name then Inl (ErrWildcardNotSupported (''query '' @ goQuote name))
      else if queryHandlers r name \<noteq> None then Inl (ErrDuplicateHandler (''query '' @ goQuote name))
      else Inr (r\<lparr>queryHandlers := (queryHandlers r)(name \<mapsto> h)\<rparr>))"

definition ListenNotification ::
  "('e, 'c, 'q, 'n) rabbitRegistry \<Rightarrow> gostring \<Rightarrow> 'n \<Rightarrow> goerror + ('e, 'c, 'q, 'n) rabbitRegistry" where
  "ListenNotification r name h =
     (if notifHandlers r name \<noteq> None
      then Inl (ErrDuplicateHandler (''notification '' @ goQuote name))
      else Inr (r\<lparr>notifHandlers := (notifHandlers r)(name \<mapsto> h), notifCache := None\<rparr>))"

text \<open>\<^verbatim>\<open>resolvePattern\<close> is the registry's own copy of the matching loop.\<close>

definition resolvePattern :: "gostring \<Rightarrow> gostring list \<Rightarrow> gostring" where
  "resolvePattern name keys =
     MostSpecific (foldl (\<lambda>matches k. if Matches name k then matches @ [k] else matches) [] keys)"

text \<open>
  The two critical sections shared, line for line, by the three cached lookups. \<open>readPath\<close> is the
  part under the shared lock: \<open>None\<close> means it fell through. \<open>writePath\<close> is the part under the
  exclusive lock; \<open>ks\<close> is the visiting order of \<^verbatim>\<open>keysOf\<close>.
\<close>

definition cacheGet :: "cache \<Rightarrow> gostring \<Rightarrow> gostring option" where
  "cacheGet c name = (case c of None \<Rightarrow> None | Some m \<Rightarrow> m name)"

definition cachePut :: "cache \<Rightarrow> gostring \<Rightarrow> gostring \<Rightarrow> cache" where
  "cachePut c name pat = Some ((case c of None \<Rightarrow> Map.empty | Some m \<Rightarrow> m)(name \<mapsto> pat))"

definition keysOf :: "(gostring \<rightharpoonup> 'v) \<Rightarrow> gostring list \<Rightarrow> gostring list" where
  "keysOf m ks = copyKeys m ks"

definition readPath :: "(gostring \<rightharpoonup> 'h) \<Rightarrow> cache \<Rightarrow> gostring \<Rightarrow> 'h option option" where
  "readPath m c name =
     (case m name of
        Some h \<Rightarrow> Some (Some h)
      | None \<Rightarrow> (case cacheGet c name of
                  Some pat \<Rightarrow> Some (if pat \<noteq> [] then m pat else None)
                | None \<Rightarrow> None))"

definition writePath ::
  "(gostring \<rightharpoonup> 'h) \<Rightarrow> cache \<Rightarrow> gostring list \<Rightarrow> gostring \<Rightarrow> 'h option \<times> cache" where
  "writePath m c ks name =
     (case m name of
        Some h \<Rightarrow> (Some h, c)
      | None \<Rightarrow>
         (case cacheGet c name of
            Some pat \<Rightarrow> (if pat = [] then None else m pat, c)
          | None \<Rightarrow> (let pat = resolvePattern name (keysOf m ks)
                    in (if pat = [] then None else m pat, cachePut c name pat))))"

definition EventHandler_read where
  "EventHandler_read r name = readPath (eventHandlers r) (eventCache r) name"
definition EventHandler_write where
  "EventHandler_write r ks name =
     (let hc = writePath (eventHandlers r) (eventCache r) ks name in (fst hc, r\<lparr>eventCache := snd hc\<rparr>))"
definition EventHandler ::
  "('e, 'c, 'q, 'n) rabbitRegistry \<Rightarrow> gostring list \<Rightarrow> gostring
     \<Rightarrow> 'e option \<times> ('e, 'c, 'q, 'n) rabbitRegistry" where
  "EventHandler r ks name =
     (case EventHandler_read r name of Some h \<Rightarrow> (h, r) | None \<Rightarrow> EventHandler_write r ks name)"

definition CommandHandler_read where
  "CommandHandler_read r name = readPath (cmdHandlers r) (cmdCache r) name"
definition CommandHandler_write where
  "CommandHandler_write r ks name =
     (let hc = writePath (cmdHandlers r) (cmdCache r) ks name in (fst hc, r\<lparr>cmdCache := snd hc\<rparr>))"
definition CommandHandler ::
  "('e, 'c, 'q, 'n) rabbitRegistry \<Rightarrow> gostring list \<Rightarrow> gostring
     \<Rightarrow> 'c option \<times> ('e, 'c, 'q, 'n) rabbitRegistry" where
  "CommandHandler r ks name =
     (case CommandHandler_read r name of Some h \<Rightarrow> (h, r) | None \<Rightarrow> CommandHandler_write r ks name)"

definition NotificationHandler_read where
  "NotificationHandler_read r name = readPath (notifHandlers r) (notifCache r) name"
definition NotificationHandler_write where
  "NotificationHandler_write r ks name =
     (let hc = writePath (notifHandlers r) (notifCache r) ks name in (fst hc, r\<lparr>notifCache := snd hc\<rparr>))"
definition NotificationHandler ::
  "('e, 'c, 'q, 'n) rabbitRegistry \<Rightarrow> gostring list \<Rightarrow> gostring
     \<Rightarrow> 'n option \<times> ('e, 'c, 'q, 'n) rabbitRegistry" where
  "NotificationHandler r ks name =
     (case NotificationHandler_read r name of
        Some h \<Rightarrow> (h, r) | None \<Rightarrow> NotificationHandler_write r ks name)"

definition QueryHandler :: "('e, 'c, 'q, 'n) rabbitRegistry \<Rightarrow> gostring \<Rightarrow> 'q option" where
  "QueryHandler r name = queryHandlers r name"

text \<open>The name lists: the keys of the map in the visiting order \<open>ks\<close>, copied one by one.\<close>

definition EventNames :: "('e, 'c, 'q, 'n) rabbitRegistry \<Rightarrow> gostring list \<Rightarrow> gostring list" where
  "EventNames r ks = copyKeys (eventHandlers r) ks"

definition CommandNames :: "('e, 'c, 'q, 'n) rabbitRegistry \<Rightarrow> gostring list \<Rightarrow> gostring list" where
  "CommandNames r ks = copyKeys (cmdHandlers r) ks"

definition QueryNames :: "('e, 'c, 'q, 'n) rabbitRegistry \<Rightarrow> gostring list \<Rightarrow> gostring list" where
  "QueryNames r ks = copyKeys (queryHandlers r) ks"

definition NotificationNames :: "('e, 'c, 'q, 'n) rabbitRegistry \<Rightarrow> gostring list \<Rightarrow> gostring list" where
  "NotificationNames r ks = copyKeys (notifHandlers r) ks"

lemmas registry_ops [op_defs] = ListenEvent_def ListenCommand_def ServeQuery_def
  ListenNotification_def
lemmas lookup_ops = EventHandler_def EventHandler_read_def EventHandler_write_def
  CommandHandler_def CommandHandler_read_def CommandHandler_write_def
  NotificationHandler_def NotificationHandler_read_def NotificationHandler_write_def


section \<open>Cache coherence\<close>

lemma resolvePattern_Resolve: "resolvePattern name keys = Resolve name keys"
  by (simp add: resolvePattern_def Resolve_def foldl_snoc)

text \<open>
  A cached answer is one that a fresh resolution against the current handlers could give, and the
  cached name has no handler of its own.
\<close>

definition cacheOk :: "(gostring \<rightharpoonup> 'h) \<Rightarrow> cache \<Rightarrow> bool" where
  "cacheOk m c \<longleftrightarrow> finite (dom m) \<and>
     (\<forall>name pat. cacheGet c name = Some pat \<longrightarrow>
        m name = None \<and> (\<exists>ks. keyOrder m ks \<and> pat = Resolve name ks))"

definition registryOk :: "('e, 'c, 'q, 'n) rabbitRegistry \<Rightarrow> bool" where
  "registryOk r \<longleftrightarrow> cacheOk (eventHandlers r) (eventCache r) \<and> cacheOk (cmdHandlers r) (cmdCache r)
     \<and> cacheOk (notifHandlers r) (notifCache r)
     \<and> (\<forall>name. HasWildcard name \<longrightarrow> queryHandlers r name = None)"

lemma cacheGet_None [simp]: "cacheGet None name = None"
  by (simp add: cacheGet_def)

lemma cacheGet_cachePut: "cacheGet (cachePut c name pat) n = (if n = name then Some pat else cacheGet c n)"
  by (simp add: cacheGet_def cachePut_def split: option.splits)

lemma cacheOk_nil [simp]: "cacheOk m None \<longleftrightarrow> finite (dom m)"
  by (simp add: cacheOk_def)

lemma cacheOk_put:
  "cacheOk m c \<Longrightarrow> m name = None \<Longrightarrow> keyOrder m ks \<Longrightarrow> cacheOk m (cachePut c name (Resolve name ks))"
  by (auto simp: cacheOk_def cacheGet_cachePut)

lemma readPath_resolves: "cacheOk m c \<Longrightarrow> readPath m c name = Some r \<Longrightarrow> resolves m name r"
  by (fastforce simp: cacheOk_def readPath_def resolves_def patternHandler_def
      split: option.splits if_splits)

lemma writePath_resolves:
  "cacheOk m c \<Longrightarrow> keyOrder m ks \<Longrightarrow> resolves m name (fst (writePath m c ks name))"
  by (fastforce simp: cacheOk_def writePath_def resolves_def patternHandler_def Let_def keysOf_def
      resolvePattern_Resolve split: option.splits)

lemma writePath_cacheOk: "cacheOk m c \<Longrightarrow> keyOrder m ks \<Longrightarrow> cacheOk m (snd (writePath m c ks name))"
  by (auto simp: writePath_def Let_def keysOf_def resolvePattern_Resolve cacheOk_put
      split: option.splits)

text \<open>After the exclusive section has run once, the shared section answers, with the same handler.\<close>

lemma readPath_after_write:
  "readPath m (snd (writePath m c ks name)) name = Some (fst (writePath m c ks name))"
  by (auto simp: readPath_def writePath_def Let_def cacheGet_cachePut split: option.splits)

lemma readPath_write_other:
  "readPath m c n = Some r \<Longrightarrow> readPath m (snd (writePath m c ks name)) n = Some r"
  by (cases "m n") (auto simp: readPath_def writePath_def Let_def cacheGet_cachePut
      split: option.splits if_splits)

lemmas path_facts = readPath_resolves writePath_resolves writePath_cacheOk

section \<open>The registry as a table and as a resolver\<close>

interpretation rabbitEvents: handler_table eventHandlers ListenEvent "\<lambda>_ _. True"
  by unfold_locales (auto simp: op_defs split: if_splits)

interpretation rabbitCommands: handler_table cmdHandlers ListenCommand "\<lambda>_ _. True"
  by unfold_locales (auto simp: op_defs split: if_splits)

interpretation rabbitNotifications: handler_table notifHandlers ListenNotification "\<lambda>_ _. True"
  by unfold_locales (auto simp: op_defs split: if_splits)

interpretation rabbitQueries: handler_table queryHandlers ServeQuery "\<lambda>_ name. \<not> HasWildcard name"
  by unfold_locales (auto simp: op_defs split: if_splits)

interpretation rabbitEventLookup: name_resolver eventHandlers EventHandler registryOk
  by unfold_locales
    (auto simp: lookup_ops registryOk_def Let_def path_facts split: option.splits)

interpretation rabbitCommandLookup: name_resolver cmdHandlers CommandHandler registryOk
  by unfold_locales
    (auto simp: lookup_ops registryOk_def Let_def path_facts split: option.splits)

interpretation rabbitNotificationLookup: name_resolver notifHandlers NotificationHandler registryOk
  by unfold_locales
    (auto simp: lookup_ops registryOk_def Let_def path_facts split: option.splits)

section \<open>Runs\<close>

text \<open>
  Everything other goroutines can do to a registry between two critical sections: a successful
  registration, or one of the exclusive sections of a lookup (the shared sections change nothing).
\<close>

inductive lookupStep ::
  "('e, 'c, 'q, 'n) rabbitRegistry \<Rightarrow> ('e, 'c, 'q, 'n) rabbitRegistry \<Rightarrow> bool" where
  lookup_event: "keyOrder (eventHandlers r) ks \<Longrightarrow> lookupStep r (snd (EventHandler_write r ks name))"
| lookup_command: "keyOrder (cmdHandlers r) ks \<Longrightarrow> lookupStep r (snd (CommandHandler_write r ks name))"
| lookup_notification:
    "keyOrder (notifHandlers r) ks \<Longrightarrow> lookupStep r (snd (NotificationHandler_write r ks name))"

inductive registryStep ::
  "('e, 'c, 'q, 'n) rabbitRegistry \<Rightarrow> ('e, 'c, 'q, 'n) rabbitRegistry \<Rightarrow> bool" where
  listen_event: "ListenEvent r name h = Inr r' \<Longrightarrow> registryStep r r'"
| listen_command: "ListenCommand r name h = Inr r' \<Longrightarrow> registryStep r r'"
| serve_query: "ServeQuery r name h = Inr r' \<Longrightarrow> registryStep r r'"
| listen_notification: "ListenNotification r name h = Inr r' \<Longrightarrow> registryStep r r'"
| lookup: "lookupStep r r' \<Longrightarrow> registryStep r r'"

abbreviation registryReach :: "('e, 'c, 'q, 'n) rabbitRegistry \<Rightarrow> bool" where
  "registryReach \<equiv> reach (\<lambda>r. r = newHandlerRegistry) registryStep"

lemma registryOk_new: "registryOk newHandlerRegistry"
  by (simp add: registryOk_def newHandlerRegistry_def)

lemma lookupStep_ok: "lookupStep r r' \<Longrightarrow> registryOk r \<Longrightarrow> registryOk r'"
  by (induction rule: lookupStep.induct)
    (auto simp: registryOk_def lookup_ops Let_def path_facts)

interpretation rabbitRegistry: machine_invariant "\<lambda>r. r = newHandlerRegistry" registryStep registryOk
proof
  fix r r' :: "('a, 'b, 'c, 'd) rabbitRegistry"
  show "r = newHandlerRegistry \<Longrightarrow> registryOk r" by (simp add: registryOk_new)
  assume ok: "registryOk r" and step: "registryStep r r'"
  from step show "registryOk r'"
  proof cases
    case lookup
    then show ?thesis using lookupStep_ok ok by blast
  qed (use ok in \<open>auto simp: registryOk_def op_defs cacheOk_def split: if_splits\<close>)
qed

lemma lookupStep_frame:
  "lookupStep r r' \<Longrightarrow> eventHandlers r' = eventHandlers r \<and> cmdHandlers r' = cmdHandlers r \<and>
     notifHandlers r' = notifHandlers r \<and> queryHandlers r' = queryHandlers r"
  by (induction rule: lookupStep.induct) (auto simp: lookup_ops Let_def)

lemma lookupStep_read:
  assumes "lookupStep r r'"
  shows "EventHandler_read r n = Some h \<Longrightarrow> EventHandler_read r' n = Some h"
    and "CommandHandler_read r n = Some c \<Longrightarrow> CommandHandler_read r' n = Some c"
    and "NotificationHandler_read r n = Some k \<Longrightarrow> NotificationHandler_read r' n = Some k"
  using assms
  by (auto simp: lookup_ops Let_def readPath_write_other elim!: lookupStep.cases)

lemma lookups_read:
  assumes "lookupStep\<^sup>*\<^sup>* r r'"
  shows "EventHandler_read r n = Some h \<Longrightarrow> EventHandler_read r' n = Some h"
    and "CommandHandler_read r n = Some c \<Longrightarrow> CommandHandler_read r' n = Some c"
    and "NotificationHandler_read r n = Some k \<Longrightarrow> NotificationHandler_read r' n = Some k"
  using assms by (induction rule: rtranclp_induct) (auto intro: lookupStep_read)

lemma handler_then_read:
  "EventHandler r ks n = (e, r') \<Longrightarrow> EventHandler_read r' n = Some e"
  "CommandHandler r ks n = (c, r') \<Longrightarrow> CommandHandler_read r' n = Some c"
  "NotificationHandler r ks n = (k, r') \<Longrightarrow> NotificationHandler_read r' n = Some k"
  by (auto simp: lookup_ops Let_def readPath_after_write split: option.splits)

section \<open>Properties\<close>

text \<open>C13: caching is transparent. In every registry state a run can reach, whatever was
  registered and looked up before, each of the two critical sections of each cached lookup answers
  as a fresh resolution against the handlers registered at that moment would: the exact name first,
  otherwise the pattern the matcher picks, otherwise nil. A stale cache entry is never used, also
  when registrations run between the shared and the exclusive section.\<close>

theorem rabbit_lookup_resolves:
  assumes "registryReach r"
  shows "(EventHandler_read r name = Some e \<longrightarrow> resolves (eventHandlers r) name e) \<and>
    (keyOrder (eventHandlers r) ks \<longrightarrow>
       resolves (eventHandlers r) name (fst (EventHandler_write r ks name))) \<and>
    (CommandHandler_read r name = Some c \<longrightarrow> resolves (cmdHandlers r) name c) \<and>
    (keyOrder (cmdHandlers r) ks \<longrightarrow>
       resolves (cmdHandlers r) name (fst (CommandHandler_write r ks name))) \<and>
    (NotificationHandler_read r name = Some k \<longrightarrow> resolves (notifHandlers r) name k) \<and>
    (keyOrder (notifHandlers r) ks \<longrightarrow>
       resolves (notifHandlers r) name (fst (NotificationHandler_write r ks name)))"
proof -
  have ok: "cacheOk (eventHandlers r) (eventCache r)" "cacheOk (cmdHandlers r) (cmdCache r)"
    "cacheOk (notifHandlers r) (notifCache r)"
    using rabbitRegistry.reach_inv [OF assms] by (auto simp: registryOk_def)
  then show ?thesis
    by (simp add: lookup_ops Let_def path_facts)
qed

text \<open>A registry with one event pattern, as an application builds it.\<close>

definition exampleRegistry :: "(nat, nat, nat, nat) rabbitRegistry" where
  "exampleRegistry = newHandlerRegistry\<lparr>eventHandlers := [''order.*'' \<mapsto> 7]\<rparr>"

lemma exampleRegistry_reach: "registryReach exampleRegistry"
proof -
  have "ListenEvent newHandlerRegistry ''order.*'' 7 = Inr exampleRegistry"
    by (simp add: op_defs exampleRegistry_def newHandlerRegistry_def)
  then show ?thesis by (intro reach_step [OF reach_init] listen_event) auto
qed

theorem rabbit_lookup_resolves_witness:
  "resolves (eventHandlers exampleRegistry) ''order.created''
     (fst (EventHandler_write exampleRegistry [''order.*''] ''order.created'')) \<and>
   fst (EventHandler_write exampleRegistry [''order.*''] ''order.created'') = Some 7"
proof -
  have "keyOrder (eventHandlers exampleRegistry) [''order.*'']"
    by (auto simp: keyOrder_def exampleRegistry_def newHandlerRegistry_def)
  moreover have "fst (EventHandler_write exampleRegistry [''order.*''] ''order.created'') = Some 7"
    by code_simp
  ultimately show ?thesis using rabbit_lookup_resolves [OF exampleRegistry_reach] by blast
qed

text \<open>a resolution is stable. Once a lookup has answered for a name, every later lookup of
  that name gives the same answer and changes nothing, whatever other lookups ran in between and
  in whatever order the runtime visits the map, until a handler is registered.\<close>

theorem rabbit_lookup_stable:
  assumes "EventHandler r ks name = (e, r1)" and "CommandHandler s ks name = (c, s1)"
    and "NotificationHandler t ks name = (k, t1)"
    and "lookupStep\<^sup>*\<^sup>* r1 r2" and "lookupStep\<^sup>*\<^sup>* s1 s2" and "lookupStep\<^sup>*\<^sup>* t1 t2"
  shows "EventHandler r2 ks' name = (e, r2) \<and> CommandHandler s2 ks' name = (c, s2) \<and>
    NotificationHandler t2 ks' name = (k, t2)"
  using handler_then_read(1) [OF assms(1)] handler_then_read(2) [OF assms(2)]
    handler_then_read(3) [OF assms(3)] lookups_read(1) [OF assms(4)] lookups_read(2) [OF assms(5)]
    lookups_read(3) [OF assms(6)]
  by (simp add: EventHandler_def CommandHandler_def NotificationHandler_def)

theorem rabbit_lookup_stable_witness:
  "EventHandler (snd (EventHandler exampleRegistry [''order.*''] ''order.created'')) [] ''order.created''
   = (Some 7, snd (EventHandler exampleRegistry [''order.*''] ''order.created''))"
proof -
  let ?r = exampleRegistry and ?n = "''order.created''"
  have fst: "fst (EventHandler ?r [''order.*''] ?n) = Some 7" by code_simp
  have e: "EventHandler ?r [''order.*''] ?n = (Some 7, snd (EventHandler ?r [''order.*''] ?n))"
    using fst by (metis prod.collapse)
  have c: "CommandHandler ?r [''order.*''] ?n
    = (fst (CommandHandler ?r [''order.*''] ?n), snd (CommandHandler ?r [''order.*''] ?n))" by simp
  have k: "NotificationHandler ?r [''order.*''] ?n
    = (fst (NotificationHandler ?r [''order.*''] ?n), snd (NotificationHandler ?r [''order.*''] ?n))"
    by simp
  show ?thesis
    using rabbit_lookup_stable [OF e c k rtranclp.rtrancl_refl rtranclp.rtrancl_refl
        rtranclp.rtrancl_refl] by blast
qed

text \<open>registration only ever extends the tables. Registering handlers under distinct names
  on a fresh registry succeeds and stores each of them, and afterwards every delivery of one of
  those names finds its own handler, whatever wildcard patterns are registered beside it; a name
  already taken is refused with the duplicate error, and a query name with a wildcard character is
  always refused.\<close>

theorem rabbit_registration:
  assumes "distinct (map fst xs)"
  shows "\<exists>r. registerAll ListenEvent (newHandlerRegistry :: ('e, 'c, 'q, 'n) rabbitRegistry) xs = Inr r \<and>
     eventHandlers r = map_of xs \<and>
     (\<forall>name h h' ks. map_of xs name = Some h \<longrightarrow>
        fst (EventHandler r ks name) = Some h \<and>
        ListenEvent r name h' = Inl (ErrDuplicateHandler (''event '' @ goQuote name))) \<and>
     (\<forall>name h. HasWildcard name \<longrightarrow>
        ServeQuery r name h = Inl (ErrWildcardNotSupported (''query '' @ goQuote name)))"
proof -
  obtain r :: "('e, 'c, 'q, 'n) rabbitRegistry" where r: "registerAll ListenEvent newHandlerRegistry xs = Inr r"
    using rabbitEvents.registerAll_ok [of xs newHandlerRegistry] assms
    by (auto simp: newHandlerRegistry_def)
  have "eventHandlers r = map_of xs"
    using rabbitEvents.registerAll_handlers [OF r] by (simp add: newHandlerRegistry_def)
  then show ?thesis using r
    by (auto simp: EventHandler_def EventHandler_read_def readPath_def op_defs)
qed

theorem rabbit_registration_witness:
  "\<exists>r. registerAll ListenEvent (newHandlerRegistry :: (nat, nat, nat, nat) rabbitRegistry)
        [(''order.created'', 1), (''order.*'', 2)] = Inr r \<and>
     fst (EventHandler r [''order.*''] ''order.created'') = Some 1"
proof -
  let ?xs = "[(''order.created'', 1::nat), (''order.*'', 2)]"
  have d: "distinct (map fst ?xs)" by simp
  obtain r :: "(nat, nat, nat, nat) rabbitRegistry"
    where "registerAll ListenEvent newHandlerRegistry ?xs = Inr r"
      and "\<forall>name h h' ks. map_of ?xs name = Some h \<longrightarrow> fst (EventHandler r ks name) = Some h \<and>
        ListenEvent r name h' = Inl (ErrDuplicateHandler (''event '' @ goQuote name))"
    using rabbit_registration [OF d] by blast
  then show ?thesis by (intro exI [of _ r]) simp
qed

end
