(* ===== verification/Rabbit_Dispatch.thy ===== *)
theory Rabbit_Dispatch
  imports Rabbit_Gateway Rabbit_Registry
begin

text \<open>
  What the RabbitMQ listeners do with one delivery: the shared delivery contract
  (\<^verbatim>\<open>internal/rabbit/dispatch.go\<close>) and the dispatch functions of the event, command, notification,
  query and reply listeners. \<open>unmarshal\<close> is \<^verbatim>\<open>json.Unmarshal\<close> into a \<^verbatim>\<open>RawEnvelope\<close>. The outcome of a
  dispatch is the list of acknowledgements it sent for the delivery, in order; log lines are left out.
\<close>

section \<open>Deliveries\<close>

record delivery =
  d_Body :: bytes
  d_Headers :: table

datatype settlement = Ack | Nack bool

type_synonym unmarshalFn = "bytes \<Rightarrow> gostring + RawEnvelope"

text \<open>
  A piece of code that ran to its end, or panicked after some acknowledgements: \<^verbatim>\<open>dispatchEnvelope\<close>
  recovers the panic and applies the failure policy. \<open>nack = False\<close> stands for a nil \<^verbatim>\<open>nack\<close> function.
\<close>

datatype outcome = Completed "settlement list" | Panicked "settlement list"

definition dispatchEnvelope :: "unmarshalFn \<Rightarrow> bool \<Rightarrow> bool \<Rightarrow> delivery \<Rightarrow> (RawEnvelope \<Rightarrow> outcome) \<Rightarrow> settlement list" where
  "dispatchEnvelope unmarshal requeueOnFailure nack d handle =
     (case unmarshal (d_Body d) of
        Inl e \<Rightarrow> (if nack then [Nack False] else [])
      | Inr env \<Rightarrow>
          (case handle env of
             Completed ss \<Rightarrow> ss
           | Panicked ss \<Rightarrow> ss @ (if nack then [Nack requeueOnFailure] else [])))"

definition runEnvelopeHandler :: "bool \<Rightarrow> ('m \<Rightarrow> unit hresult) option \<Rightarrow> 'm \<Rightarrow> outcome" where
  "runEnvelopeHandler requeueOnFailure handler msg =
     (case handler of
        None \<Rightarrow> Completed [Ack]
      | Some h \<Rightarrow>
          (case h msg of
             HErr e \<Rightarrow> Completed [Nack requeueOnFailure]
           | HPanic p \<Rightarrow> Panicked []
           | HOk u \<Rightarrow> Completed [Ack]))"

section \<open>The listeners\<close>

text \<open>
  \<open>lookup\<close> is the handler found by the registry for a name: \<^verbatim>\<open>l.reg.EventHandler\<close> and its likes, whose
  effect on the resolution cache is the business of the registry.
\<close>

definition eventDispatch :: "unmarshalFn \<Rightarrow> Config \<Rightarrow> (gostring \<Rightarrow> eventHandler option) \<Rightarrow> delivery \<Rightarrow> settlement list" where
  "eventDispatch unmarshal cfg lookup d =
     (let requeueOnFailure = (\<not> WithDLQRetry cfg)
      in dispatchEnvelope unmarshal requeueOnFailure True d
           (\<lambda>env. runEnvelopeHandler requeueOnFailure (lookup (env_Name env))
              \<lparr>ev_Name = env_Name env, ev_EventID = env_EventID env, ev_Data = env_Data env\<rparr>))"

definition commandDispatch :: "unmarshalFn \<Rightarrow> Config \<Rightarrow> (gostring \<Rightarrow> commandHandler option) \<Rightarrow> delivery \<Rightarrow> settlement list" where
  "commandDispatch unmarshal cfg lookup d =
     (let requeueOnFailure = (\<not> WithDLQRetry cfg)
      in dispatchEnvelope unmarshal requeueOnFailure True d
           (\<lambda>env. runEnvelopeHandler requeueOnFailure (lookup (env_Name env))
              \<lparr>cmd_Name = env_Name env, cmd_CommandID = env_CommandID env, cmd_Data = env_Data env\<rparr>))"

text \<open>What the handler of a notification gave, \<open>None\<close> when there is none; an error or a panic is only logged.\<close>

definition notificationOutcome :: "(gostring \<Rightarrow> notificationHandler option) \<Rightarrow> RawEnvelope \<Rightarrow> unit hresult option" where
  "notificationOutcome lookup env =
     map_option (\<lambda>h. h \<lparr>n_Name = env_Name env, n_EventID = env_EventID env, n_Data = env_Data env\<rparr>) (lookup (env_Name env))"

definition notificationDispatch :: "unmarshalFn \<Rightarrow> (gostring \<Rightarrow> notificationHandler option) \<Rightarrow> delivery \<Rightarrow> settlement list" where
  "notificationDispatch unmarshal lookup d =
     dispatchEnvelope unmarshal False False d
       (\<lambda>env. case notificationOutcome lookup env of
                None \<Rightarrow> Completed []
              | Some (HPanic p) \<Rightarrow> Panicked []
              | Some r \<Rightarrow> Completed [])"

text \<open>
  The query listener also publishes: it returns the settlements and the replies it attempted. The
  handler runs before the reply context is made, \<open>now\<close> is the clock at that moment.
\<close>

definition queryHandle :: "'r marshalFn \<Rightarrow> gostring marshalFn \<Rightarrow> sendFn \<Rightarrow> gateway \<Rightarrow> int \<Rightarrow> ctx \<Rightarrow>
    (gostring \<Rightarrow> 'r option queryHandler option) \<Rightarrow> delivery \<Rightarrow> RawEnvelope \<Rightarrow> outcome \<times> publishing list" where
  "queryHandle marshal marshalError send g now ctx lookup d env =
     (let from = \<lparr>CorrelationID = headerString (d_Headers d) hdr_CorrelationID,
                  ReplyID = headerString (d_Headers d) hdr_ReplyID\<rparr>
      in case lookup (env_Resource env) of
           None \<Rightarrow> (Completed [Ack], [])
         | Some h \<Rightarrow>
             (case h \<lparr>q_Resource = env_Resource env, q_QueryData = env_QueryData env\<rparr> from of
                HPanic p \<Rightarrow> (Panicked [], [])
              | HErr e \<Rightarrow>
                  (Completed [Ack], snd (replyError marshalError send g (replyContext g now ctx (d_Headers d)) (errorText e) from))
              | HOk r \<Rightarrow>
                  (Completed [Ack], snd (Reply marshal send g (replyContext g now ctx (d_Headers d)) r from))))"

definition queryDispatch :: "unmarshalFn \<Rightarrow> 'r marshalFn \<Rightarrow> gostring marshalFn \<Rightarrow> sendFn \<Rightarrow> gateway \<Rightarrow> int \<Rightarrow> ctx \<Rightarrow>
    (gostring \<Rightarrow> 'r option queryHandler option) \<Rightarrow> delivery \<Rightarrow> settlement list \<times> publishing list" where
  "queryDispatch unmarshal marshal marshalError send g now ctx lookup d =
     (let handle = queryHandle marshal marshalError send g now ctx lookup d
      in (dispatchEnvelope unmarshal (\<not> WithDLQRetry (gw_cfg g)) True d (\<lambda>env. fst (handle env)),
          (case unmarshal (d_Body d) of Inl e \<Rightarrow> [] | Inr env \<Rightarrow> snd (handle env))))"

text \<open>The reply listener hands the delivery to the reply router.\<close>

definition replyRoute :: "delivery \<Rightarrow> routerSys \<Rightarrow> routerSys" where
  "replyRoute d rs =
     (let correlationID = headerString (d_Headers d) hdr_CorrelationID
      in if correlationID = [] then rs
         else Route correlationID
                \<lparr>p_Body = d_Body d,
                 p_IsError = (headerString (d_Headers d) hdr_ReplyError = ''true''),
                 p_IsEmpty = (headerString (d_Headers d) hdr_CompletionOnlySignal = ''true'')\<rparr> rs)"

section \<open>The acknowledgement contract\<close>

text \<open>
  A manual-acknowledgement listener settles every delivery exactly once. A consumer that dispatches
  a sequence of deliveries thus settles each of them, in order.
\<close>

locale manual_ack =
  fixes dispatch :: "delivery \<Rightarrow> settlement list"
    and requeueOnFailure :: bool
  assumes settles_once: "length (dispatch d) = 1"
    and requeues_by_policy: "Nack r \<in> set (dispatch d) \<Longrightarrow> r \<Longrightarrow> requeueOnFailure"
begin

lemma dispatch_cases: "dispatch d = [Ack] \<or> dispatch d = [Nack False] \<or> dispatch d = [Nack True] \<and> requeueOnFailure"
proof -
  obtain x where x: "dispatch d = [x]" using settles_once [of d] by (cases "dispatch d") auto
  show ?thesis
  proof (cases x)
    case Ack
    with x show ?thesis by simp
  next
    case (Nack r)
    with x requeues_by_policy [of r d] show ?thesis by (cases r) auto
  qed
qed

lemma consumed_all_settled: "length (concat (map dispatch ds)) = length ds"
  by (induction ds) (simp_all add: settles_once)

end

lemma runEnvelopeHandler_cases:
  "runEnvelopeHandler r h msg \<in> {Completed [Ack], Completed [Nack r], Panicked []}"
  by (auto simp: runEnvelopeHandler_def split: option.split hresult.split)

lemma dispatchEnvelope_settles:
  assumes "\<And>env. handle env \<in> {Completed [Ack], Completed [Nack r], Panicked []}"
  shows "dispatchEnvelope u r True d handle \<in> {[Ack], [Nack r], [Nack False]}"
proof (cases "u (d_Body d)")
  case (Inr env)
  then show ?thesis using assms [of env] by (auto simp: dispatchEnvelope_def)
qed (simp add: dispatchEnvelope_def)

lemma manual_ackI:
  assumes "\<And>d. dispatch d \<in> {[Ack], [Nack r], [Nack False]}"
  shows "manual_ack dispatch r"
proof
  show "length (dispatch d) = 1" for d using assms [of d] by auto
  show "r" if "Nack q \<in> set (dispatch d)" "q" for q d using assms [of d] that by auto
qed

interpretation eventAck: manual_ack "eventDispatch unmarshal cfg lookup" "\<not> WithDLQRetry cfg" for unmarshal cfg lookup
  by (rule manual_ackI)
    (simp only: eventDispatch_def Let_def, rule dispatchEnvelope_settles, rule runEnvelopeHandler_cases)

interpretation commandAck: manual_ack "commandDispatch unmarshal cfg lookup" "\<not> WithDLQRetry cfg" for unmarshal cfg lookup
  by (rule manual_ackI)
    (simp only: commandDispatch_def Let_def, rule dispatchEnvelope_settles, rule runEnvelopeHandler_cases)

lemma queryHandle_cases:
  "fst (queryHandle m me send g now ctx lookup d env) \<in> {Completed [Ack], Completed [Nack r], Panicked []}"
  by (auto simp: queryHandle_def Let_def split: option.split hresult.split)

interpretation queryAck: manual_ack "\<lambda>d. fst (queryDispatch unmarshal m me send g now ctx lookup d)"
  "\<not> WithDLQRetry (gw_cfg g)" for unmarshal m me send g now ctx lookup
  by (rule manual_ackI)
    (simp only: queryDispatch_def Let_def fst_conv, rule dispatchEnvelope_settles, rule queryHandle_cases)

section \<open>Properties\<close>

text \<open>The settlement a delivery should get: not an envelope, no handler, or what the handler did.\<close>

definition expectedSettlement :: "bool \<Rightarrow> 'e + unit hresult option \<Rightarrow> settlement" where
  "expectedSettlement requeue o' =
     (case o' of
        Inl e \<Rightarrow> Nack False
      | Inr None \<Rightarrow> Ack
      | Inr (Some (HOk u)) \<Rightarrow> Ack
      | Inr (Some r) \<Rightarrow> Nack requeue)"

text \<open>Event deliveries are settled exactly once and by the outcome: a handler that succeeds, or no
  handler at all, acks; a handler that fails or panics nacks, requeueing exactly when DLQ retry is
  off; a body that is not an envelope is nacked without requeue. Commands follow the same rules,
  and a consumer that dispatches any sequence of deliveries settles every one of them.\<close>

theorem delivery_settlement:
  "eventDispatch unmarshal cfg lookupE d =
     [expectedSettlement (\<not> WithDLQRetry cfg)
        (map_sum id (\<lambda>env. map_option (\<lambda>h. h \<lparr>ev_Name = env_Name env, ev_EventID = env_EventID env,
            ev_Data = env_Data env\<rparr>) (lookupE (env_Name env))) (unmarshal (d_Body d)))] \<and>
   commandDispatch unmarshal cfg lookupC d =
     [expectedSettlement (\<not> WithDLQRetry cfg)
        (map_sum id (\<lambda>env. map_option (\<lambda>h. h \<lparr>cmd_Name = env_Name env, cmd_CommandID = env_CommandID env,
            cmd_Data = env_Data env\<rparr>) (lookupC (env_Name env))) (unmarshal (d_Body d)))] \<and>
   length (concat (map (eventDispatch unmarshal cfg lookupE) ds)) = length ds \<and>
   length (concat (map (commandDispatch unmarshal cfg lookupC) ds)) = length ds"
  using eventAck.consumed_all_settled [of unmarshal cfg lookupE ds]
    commandAck.consumed_all_settled [of unmarshal cfg lookupC ds]
  by (simp add: eventDispatch_def commandDispatch_def dispatchEnvelope_def runEnvelopeHandler_def
      expectedSettlement_def Let_def split: sum.split option.split hresult.split)

text \<open>A query is answered or redelivered, never silently dropped: the delivery is settled exactly
  once; when the handler returns, with a value or an error, the delivery is acked and exactly one
  reply is attempted (unless the value cannot be marshalled), to the reply queue and under the
  correlation id of the request; when the handler panics no reply is sent and the delivery is nacked
  by the retry policy.\<close>

theorem query_settlement:
  assumes "unmarshal (d_Body d) = Inr env" and "lookup (env_Resource env) = Some h"
    and "res = h \<lparr>q_Resource = env_Resource env, q_QueryData = env_QueryData env\<rparr>
           \<lparr>CorrelationID = headerString (d_Headers d) hdr_CorrelationID, ReplyID = headerString (d_Headers d) hdr_ReplyID\<rparr>"
    and "\<And>v. \<exists>b. m v = Inr b" and "\<And>v. \<exists>b. me v = Inr b"
  shows "case queryDispatch unmarshal m me send g now ctx lookup d of (settlements, replies) \<Rightarrow>
     (case res of
        HPanic p \<Rightarrow> settlements = [Nack (\<not> WithDLQRetry (gw_cfg g))] \<and> replies = []
      | _ \<Rightarrow> settlements = [Ack] \<and> (\<exists>pb. replies = [pb] \<and> pb_Confirm pb \<and>
          pb_Exchange pb = GlobalReplyExchange (gw_cfg g) \<and>
          pb_RoutingKey pb = headerString (d_Headers d) hdr_ReplyID \<and>
          headerString (pb_Headers pb) hdr_CorrelationID = headerString (d_Headers d) hdr_CorrelationID \<and>
          pb_Ctx pb = replyContext g now ctx (d_Headers d)))"
proof -
  have r: "\<exists>pb. snd (Reply m send g c v fr) = [pb] \<and> pb_Confirm pb \<and>
      pb_Exchange pb = GlobalReplyExchange (gw_cfg g) \<and> pb_RoutingKey pb = ReplyID fr \<and>
      headerString (pb_Headers pb) hdr_CorrelationID = CorrelationID fr \<and> pb_Ctx pb = c" for c v fr
  proof (cases v)
    case (Some a)
    with assms(4) [of a] show ?thesis
      by (auto simp: Reply_def Let_def SendWithConfirm_def headerString_def header_names)
  qed (simp add: Reply_def Let_def SendWithConfirm_def headerString_def header_names)
  have e: "\<exists>pb. snd (replyError me send g c t fr) = [pb] \<and> pb_Confirm pb \<and>
      pb_Exchange pb = GlobalReplyExchange (gw_cfg g) \<and> pb_RoutingKey pb = ReplyID fr \<and>
      headerString (pb_Headers pb) hdr_CorrelationID = CorrelationID fr \<and> pb_Ctx pb = c" for c t fr
    using assms(5) [of t] by (auto simp: replyError_def Let_def SendWithConfirm_def headerString_def header_names)
  show ?thesis
    using r e assms(1-3)
    by (simp add: queryDispatch_def queryHandle_def dispatchEnvelope_def Let_def split: hresult.split)
      (metis From.select_convs)
qed

definition exampleGateway :: gateway where
  "exampleGateway = withReplySupport ''app.replies.1'' (newGateway (toInternalConfig 0 ((NewConfigWithDefaults 0)\<lparr>rc_AppName := ''app''\<rparr>)))"

definition exampleQuery :: delivery where
  "exampleQuery = \<lparr>d_Body = ''{}'', d_Headers = [hdr_CorrelationID \<mapsto> HString ''id-1'', hdr_ReplyID \<mapsto> HString ''caller.replies.1'']\<rparr>"

theorem query_settlement_witness:
  "\<exists>pb. queryDispatch (\<lambda>_. Inr (emptyEnvelope\<lparr>env_Resource := ''r''\<rparr>)) Inr Inr (\<lambda>_. None) exampleGateway 0 None
       [''r'' \<mapsto> (\<lambda>q fr. HOk (Some ''7''))] exampleQuery = ([Ack], [pb]) \<and>
     pb_RoutingKey pb = ''caller.replies.1'' \<and> headerString (pb_Headers pb) hdr_CorrelationID = ''id-1''"
proof -
  let ?D = "queryDispatch (\<lambda>_. Inr (emptyEnvelope\<lparr>env_Resource := ''r''\<rparr>)) Inr Inr (\<lambda>_. None) exampleGateway 0 None
       [''r'' \<mapsto> (\<lambda>q fr. HOk (Some ''7''))] exampleQuery"
  have "case ?D of (settlements, replies) \<Rightarrow> settlements = [Ack] \<and> (\<exists>pb. replies = [pb] \<and> pb_Confirm pb \<and>
          pb_Exchange pb = GlobalReplyExchange (gw_cfg exampleGateway) \<and>
          pb_RoutingKey pb = headerString (d_Headers exampleQuery) hdr_ReplyID \<and>
          headerString (pb_Headers pb) hdr_CorrelationID = headerString (d_Headers exampleQuery) hdr_CorrelationID \<and>
          pb_Ctx pb = replyContext exampleGateway 0 None (d_Headers exampleQuery))"
    using query_settlement [of "\<lambda>_. Inr (emptyEnvelope\<lparr>env_Resource := ''r''\<rparr>)" exampleQuery
        "emptyEnvelope\<lparr>env_Resource := ''r''\<rparr>" "[''r'' \<mapsto> (\<lambda>q fr. HOk (Some ''7''))]" "\<lambda>q fr. HOk (Some ''7'')"
        "HOk (Some ''7'')" Inr Inr, where send = "\<lambda>_. None" and g = exampleGateway and now = 0 and ctx = None]
    by simp
  then show ?thesis
    by (auto simp: exampleQuery_def headerString_def header_names split: prod.splits)
qed

end
