(* ===== verification/RC_JSON.thy ===== *)
theory RC_JSON
  imports RC_Async
begin

text \<open>
  What the source uses of Go's \<^verbatim>\<open>encoding/json\<close>: quoting and unquoting of strings (with HTML escaping, as
  \<^verbatim>\<open>json.Marshal\<close> does), the scanner that delimits values, the encoding of the message structs of
  \<^verbatim>\<open>pkg/async/types.go\<close> by their tags, and the decoding of \<^verbatim>\<open>RawEnvelope\<close>, whose payload stays raw text.
  Strings are byte sequences. The encoding of a payload is the application's and stays a parameter.
\<close>

section \<open>UTF-8\<close>

abbreviation code :: "char \<Rightarrow> nat" where
  "code c \<equiv> of_char c"

definition inRange :: "nat \<Rightarrow> nat \<Rightarrow> char \<Rightarrow> bool" where
  "inRange lo hi c \<longleftrightarrow> lo \<le> code c \<and> code c \<le> hi"

abbreviation contByte :: "char \<Rightarrow> bool" where
  "contByte \<equiv> inRange 0x80 0xBF"

text \<open>The length of the well-formed sequence a text starts with, or 0: \<^verbatim>\<open>utf8.DecodeRune\<close> and its error.\<close>

definition lead2 :: "char \<Rightarrow> char \<Rightarrow> bool" where
  "lead2 a b \<longleftrightarrow> inRange 0xC2 0xDF a \<and> contByte b"

definition lead3 :: "char \<Rightarrow> char \<Rightarrow> char \<Rightarrow> bool" where
  "lead3 a b c \<longleftrightarrow> contByte c \<and>
     (code a = 0xE0 \<and> inRange 0xA0 0xBF b \<or> (inRange 0xE1 0xEC a \<or> inRange 0xEE 0xEF a) \<and> contByte b \<or>
      code a = 0xED \<and> inRange 0x80 0x9F b)"

definition lead4 :: "char \<Rightarrow> char \<Rightarrow> char \<Rightarrow> char \<Rightarrow> bool" where
  "lead4 a b c d \<longleftrightarrow> contByte c \<and> contByte d \<and>
     (code a = 0xF0 \<and> inRange 0x90 0xBF b \<or> inRange 0xF1 0xF3 a \<and> contByte b \<or> code a = 0xF4 \<and> inRange 0x80 0x8F b)"

fun runeLen :: "bytes \<Rightarrow> nat" where
  "runeLen [] = 0"
| "runeLen [a] = (if code a < 128 then 1 else 0)"
| "runeLen [a, b] = (if code a < 128 then 1 else if lead2 a b then 2 else 0)"
| "runeLen [a, b, c] = (if code a < 128 then 1 else if lead2 a b then 2 else if lead3 a b c then 3 else 0)"
| "runeLen (a # b # c # d # s) =
     (if code a < 128 then 1 else if lead2 a b then 2 else if lead3 a b c then 3 else if lead4 a b c d then 4 else 0)"

function validUTF8 :: "bytes \<Rightarrow> bool" where
  "validUTF8 s = (if s = [] then True else if runeLen s = 0 then False else validUTF8 (drop (runeLen s) s))"
  by pat_completeness auto
termination
  by (relation "measure length") (auto intro: diff_less)

declare validUTF8.simps [simp del]

definition replacementChar :: bytes where
  "replacementChar = map char_of [0xEF, 0xBF, 0xBD :: nat]"

text \<open>\<^verbatim>\<open>utf8.AppendRune\<close>; surrogates and values out of range give the replacement character.\<close>

definition encodeRune :: "nat \<Rightarrow> bytes" where
  "encodeRune r =
     (if r < 0x80 then [char_of r]
      else if r < 0x800 then map char_of [0xC0 + r div 64, 0x80 + r mod 64]
      else if 0xD800 \<le> r \<and> r < 0xE000 \<or> 0x10FFFF < r then replacementChar
      else if r < 0x10000 then map char_of [0xE0 + r div 4096, 0x80 + r div 64 mod 64, 0x80 + r mod 64]
      else map char_of [0xF0 + r div 262144, 0x80 + r div 4096 mod 64, 0x80 + r div 64 mod 64, 0x80 + r mod 64])"

section \<open>Strings\<close>

text \<open>\<^verbatim>\<open>appendString\<close> with HTML escaping.\<close>

definition escapeAscii :: "char \<Rightarrow> bytes" where
  "escapeAscii c =
     (let n = code c in
      if n = 0x22 \<or> n = 0x5C then [CHR 0x5C, c]
      else if n = 0x08 then [CHR 0x5C, CHR ''b'']
      else if n = 0x0C then [CHR 0x5C, CHR ''f'']
      else if n = 0x0A then [CHR 0x5C, CHR ''n'']
      else if n = 0x0D then [CHR 0x5C, CHR ''r'']
      else if n = 0x09 then [CHR 0x5C, CHR ''t'']
      else if n < 0x20 \<or> n = 0x3C \<or> n = 0x3E \<or> n = 0x26
        then [CHR 0x5C, CHR ''u'', CHR ''0'', CHR ''0'', hexDigit (n div 16), hexDigit (n mod 16)]
      else [c])"

text \<open>A well-formed sequence of several bytes; the two line separators are escaped.\<close>

definition escapeRune :: "bytes \<Rightarrow> bytes" where
  "escapeRune r =
     (if r = map char_of [0xE2, 0x80, 0xA8 :: nat] then CHR 0x5C # ''u2028''
      else if r = map char_of [0xE2, 0x80, 0xA9 :: nat] then CHR 0x5C # ''u2029''
      else r)"

function escapeJSON :: "bytes \<Rightarrow> bytes" where
  "escapeJSON [] = []"
| "escapeJSON (c # cs) =
     (if code c < 128 then escapeAscii c @ escapeJSON cs
      else if runeLen (c # cs) = 0 then CHR 0x5C # ''ufffd'' @ escapeJSON cs
      else escapeRune (take (runeLen (c # cs)) (c # cs)) @ escapeJSON (drop (runeLen (c # cs)) (c # cs)))"
  by pat_completeness auto
termination
  by (relation "measure length") (auto simp: gr0_conv_Suc)

declare escapeJSON.simps(2) [simp del]

definition quoteJSON :: "bytes \<Rightarrow> bytes" where
  "quoteJSON s = CHR 0x22 # escapeJSON s @ [CHR 0x22]"

text \<open>\<^verbatim>\<open>getu4\<close> without its prefix, and \<^verbatim>\<open>unquoteBytes\<close> on the text between the quotes.\<close>

definition hexVal :: "char \<Rightarrow> nat option" where
  "hexVal c =
     (let n = code c in
      if 48 \<le> n \<and> n \<le> 57 then Some (n - 48)
      else if 97 \<le> n \<and> n \<le> 102 then Some (n - 87)
      else if 65 \<le> n \<and> n \<le> 70 then Some (n - 55)
      else None)"

fun hex4 :: "bytes \<Rightarrow> (nat \<times> bytes) option" where
  "hex4 (a # b # c # d # s) =
     (case (hexVal a, hexVal b, hexVal c, hexVal d) of
        (Some w, Some x, Some y, Some z) \<Rightarrow> Some (((w * 16 + x) * 16 + y) * 16 + z, s)
      | _ \<Rightarrow> None)"
| "hex4 _ = None"

text \<open>The low half of a surrogate pair that follows a high half.\<close>

fun lowSurrogate :: "bytes \<Rightarrow> (nat \<times> bytes) option" where
  "lowSurrogate (b # u # s) =
     (if b = CHR 0x5C \<and> u = CHR ''u''
      then (case hex4 s of Some (r, t) \<Rightarrow> if 0xDC00 \<le> r \<and> r < 0xE000 then Some (r, t) else None | None \<Rightarrow> None)
      else None)"
| "lowSurrogate _ = None"

lemma hex4_length: "hex4 s = Some (r, t) \<Longrightarrow> length t < length s"
  by (cases s rule: hex4.cases) (auto split: option.splits)

lemma lowSurrogate_length: "lowSurrogate s = Some (r, t) \<Longrightarrow> length t < length s"
  by (cases s rule: lowSurrogate.cases) (auto split: option.splits if_splits dest: hex4_length)

definition simpleEscape :: "char \<Rightarrow> char option" where
  "simpleEscape e =
     (if e \<in> {CHR 0x22, CHR 0x5C, CHR ''/'', CHR 0x27} then Some e
      else if e = CHR ''b'' then Some (CHR 0x08)
      else if e = CHR ''f'' then Some (CHR 0x0C)
      else if e = CHR ''n'' then Some (CHR 0x0A)
      else if e = CHR ''r'' then Some (CHR 0x0D)
      else if e = CHR ''t'' then Some (CHR 0x09)
      else None)"

function unquoteJSON :: "bytes \<Rightarrow> bytes option" where
  "unquoteJSON [] = Some []"
| "unquoteJSON (c # cs) =
     (if c = CHR 0x5C then
        (case cs of
           [] \<Rightarrow> None
         | e # ds \<Rightarrow>
             (if e = CHR ''u'' then
                (case hex4 ds of
                   None \<Rightarrow> None
                 | Some (r, t) \<Rightarrow>
                     (if 0xD800 \<le> r \<and> r < 0xE000 then
                        (case (if r < 0xDC00 then lowSurrogate t else None) of
                           Some (r2, t2) \<Rightarrow> map_option ((@) (encodeRune (0x10000 + (r - 0xD800) * 1024 + (r2 - 0xDC00)))) (unquoteJSON t2)
                         | None \<Rightarrow> map_option ((@) replacementChar) (unquoteJSON t))
                      else map_option ((@) (encodeRune r)) (unquoteJSON t)))
              else (case simpleEscape e of None \<Rightarrow> None | Some x \<Rightarrow> map_option ((#) x) (unquoteJSON ds))))
      else if c = CHR 0x22 \<or> code c < 0x20 then None
      else if code c < 128 then map_option ((#) c) (unquoteJSON cs)
      else if runeLen (c # cs) = 0 then map_option ((@) replacementChar) (unquoteJSON cs)
      else map_option ((@) (take (runeLen (c # cs)) (c # cs))) (unquoteJSON (drop (runeLen (c # cs)) (c # cs))))"
  by pat_completeness auto
termination
  by (relation "measure length")
    (auto simp: gr0_conv_Suc split: if_splits dest!: hex4_length lowSurrogate_length)

declare unquoteJSON.simps(2) [simp del]

section \<open>Strings survive the round trip\<close>

lemma code_chars:
  "code c = 0x22 \<longleftrightarrow> c = CHR 0x22" "code c = 0x5C \<longleftrightarrow> c = CHR 0x5C" "code c = 0x08 \<longleftrightarrow> c = CHR 0x08"
  "code c = 0x0C \<longleftrightarrow> c = CHR 0x0C" "code c = 0x0A \<longleftrightarrow> c = CHR 0x0A" "code c = 0x0D \<longleftrightarrow> c = CHR 0x0D"
  "code c = 0x09 \<longleftrightarrow> c = CHR 0x09"
  using of_char_eq_iff [where 'a = nat, of c "CHR 0x22"] of_char_eq_iff [where 'a = nat, of c "CHR 0x5C"]
    of_char_eq_iff [where 'a = nat, of c "CHR 0x08"] of_char_eq_iff [where 'a = nat, of c "CHR 0x0C"]
    of_char_eq_iff [where 'a = nat, of c "CHR 0x0A"] of_char_eq_iff [where 'a = nat, of c "CHR 0x0D"]
    of_char_eq_iff [where 'a = nat, of c "CHR 0x09"]
  by simp_all

lemma runeLen_pos: "0 < runeLen s \<Longrightarrow> 128 \<le> code (hd s) \<Longrightarrow> 2 \<le> runeLen s \<and> runeLen s \<le> length s \<and>
    list_all (\<lambda>c. 128 \<le> code c) (take (runeLen s) s)"
  by (cases s rule: runeLen.cases) (auto simp: lead2_def lead3_def lead4_def inRange_def split: if_splits)

lemma runeLen_le: "runeLen s \<le> length s"
  by (cases s rule: runeLen.cases) auto

text \<open>What a well-formed sequence is does not depend on what follows it.\<close>

lemma runeLen_prefix:
  "code a < 128 \<Longrightarrow> runeLen (a # s) = 1"
  "128 \<le> code a \<Longrightarrow> lead2 a b \<Longrightarrow> runeLen (a # b # s) = 2"
  "128 \<le> code a \<Longrightarrow> \<not> lead2 a b \<Longrightarrow> lead3 a b c \<Longrightarrow> runeLen (a # b # c # s) = 3"
proof -
  show "code a < 128 \<Longrightarrow> runeLen (a # s) = 1" by (cases "a # s" rule: runeLen.cases) auto
  show "128 \<le> code a \<Longrightarrow> lead2 a b \<Longrightarrow> runeLen (a # b # s) = 2" by (cases "a # b # s" rule: runeLen.cases) auto
  show "128 \<le> code a \<Longrightarrow> \<not> lead2 a b \<Longrightarrow> lead3 a b c \<Longrightarrow> runeLen (a # b # c # s) = 3"
    by (cases "a # b # c # s" rule: runeLen.cases) auto
qed

lemma runeLen_append:
  assumes "runeLen s = n" and "0 < n"
  shows "runeLen (take n s @ t) = n"
  using assms by (cases s rule: runeLen.cases) (auto split: if_splits simp: runeLen_prefix not_less)

lemma hexVal_hexDigit: "n < 16 \<Longrightarrow> hexVal (hexDigit n) = Some n"
  by (auto simp: hexVal_def hexDigit_def digit_char_def Let_def of_char_of)

lemma hex4_u00:
  "n < 128 \<Longrightarrow> hex4 (CHR ''0'' # CHR ''0'' # hexDigit (n div 16) # hexDigit (n mod 16) # s) = Some (n, s)"
  using hexVal_hexDigit [of "n div 16"] hexVal_hexDigit [of "n mod 16"]
  by (simp add: hexVal_def [of "CHR ''0''"])

lemma unquote_simple:
  "simpleEscape e = Some x \<Longrightarrow> unquoteJSON (CHR 0x5C # e # s) = map_option ((#) x) (unquoteJSON s)"
  by (auto simp: unquoteJSON.simps(2) simpleEscape_def split: if_splits)

lemma unquote_u:
  "hex4 s = Some (r, t) \<Longrightarrow> r < 0xD800 \<Longrightarrow> unquoteJSON (CHR 0x5C # CHR ''u'' # s) = map_option ((@) (encodeRune r)) (unquoteJSON t)"
  by (simp add: unquoteJSON.simps(2) [of "CHR 0x5C"])

lemma unquote_escapeAscii:
  assumes "code c < 128"
  shows "unquoteJSON (escapeAscii c @ s) = map_option ((#) c) (unquoteJSON s)"
proof -
  have enc: "(@) (encodeRune (code c)) = (#) c" using assms by (simp add: encodeRune_def fun_eq_iff)
  have u: "unquoteJSON (CHR 0x5C # CHR ''u'' # CHR ''0'' # CHR ''0'' # hexDigit (code c div 16) # hexDigit (code c mod 16) # s) =
      map_option ((#) c) (unquoteJSON s)"
    using unquote_u [OF hex4_u00 [OF assms, of s]] assms enc by simp
  have plain: "unquoteJSON (c # s) = map_option ((#) c) (unquoteJSON s)"
    if "code c \<noteq> 0x22" "code c \<noteq> 0x5C" "\<not> code c < 0x20"
    using that assms by (simp add: unquoteJSON.simps(2) code_chars)
  have q: "simpleEscape c = Some c" if "code c = 0x22 \<or> code c = 0x5C"
    using that by (auto simp: code_chars simpleEscape_def)
  show ?thesis
    unfolding escapeAscii_def Let_def
    using u plain unquote_simple [OF q] by (auto simp: code_chars unquote_simple simpleEscape_def)
qed

lemma unquote_escapeRune:
  assumes "runeLen s = n" and "0 < n" and "128 \<le> code (hd s)"
  shows "unquoteJSON (escapeRune (take n s) @ t) = map_option ((@) (take n s)) (unquoteJSON t)"
proof -
  have n: "2 \<le> n" "n \<le> length s" "list_all (\<lambda>c. 128 \<le> code c) (take n s)"
    using runeLen_pos [of s] assms by auto
  then obtain c cs where cs: "take n s = c # cs" "128 \<le> code c" by (cases "take n s") auto
  have big: "c \<noteq> CHR 0x5C" "c \<noteq> CHR 0x22" using cs(2) by auto
  have l: "length (c # cs) = n" using n(2) cs(1) by (metis length_take min.absorb2)
  have r: "runeLen (c # cs @ t) = n" using runeLen_append [OF assms(1,2), of t] cs(1) by simp
  have parts: "take n (c # cs @ t) = c # cs" "drop n (c # cs @ t) = t" using l by auto
  have plain: "unquoteJSON (take n s @ t) = map_option ((@) (take n s)) (unquoteJSON t)"
    unfolding cs(1) using big cs(2) r l assms(2) parts by (simp add: unquoteJSON.simps(2) [of c])
  have sep: "unquoteJSON (CHR 0x5C # ''u2028'' @ t) = map_option ((@) (map char_of [0xE2, 0x80, 0xA8 :: nat])) (unquoteJSON t)"
    "unquoteJSON (CHR 0x5C # ''u2029'' @ t) = map_option ((@) (map char_of [0xE2, 0x80, 0xA9 :: nat])) (unquoteJSON t)"
    using unquote_u [of "''2028'' @ t" "0x2028" t] unquote_u [of "''2029'' @ t" "0x2029" t]
    by (simp_all add: hexVal_def encodeRune_def)
  show ?thesis using plain sep by (auto simp: escapeRune_def)
qed

lemma unquote_escape: "validUTF8 s \<Longrightarrow> unquoteJSON (escapeJSON s) = Some s"
proof (induction s rule: escapeJSON.induct)
  case 1
  then show ?case by simp
next
  case (2 c cs)
  show ?case
  proof (cases "code c < 128")
    case True
    then have "validUTF8 cs" using 2(4) by (simp add: validUTF8.simps [of "c # cs"] runeLen_prefix)
    with True 2(1) show ?thesis by (simp add: escapeJSON.simps(2) unquote_escapeAscii)
  next
    case False
    let ?n = "runeLen (c # cs)"
    have n: "0 < ?n" "validUTF8 (drop ?n (c # cs))"
      using 2(4) by (auto simp: validUTF8.simps [of "c # cs"] split: if_splits)
    have "unquoteJSON (escapeJSON (drop ?n (c # cs))) = Some (drop ?n (c # cs))" using False n 2(3) by simp
    then show ?thesis
      using False n unquote_escapeRune [of "c # cs" ?n] by (simp add: escapeJSON.simps(2))
  qed
qed

text \<open>What the decoder gives is valid UTF-8: each step adds one well-formed sequence.\<close>

lemma validUTF8_rune:
  assumes "runeLen w = length w" and "w \<noteq> []" and "validUTF8 t"
  shows "validUTF8 (w @ t)"
  using runeLen_append [of w "length w" t] assms by (simp add: validUTF8.simps [of "w @ t"])

lemma rune3:
  fixes a b c :: nat
  assumes "a < 16" "b < 64" "c < 64" "a = 0 \<Longrightarrow> 32 \<le> b" "a = 13 \<Longrightarrow> b < 32"
  shows "runeLen [char_of (0xE0 + a), char_of (0x80 + b), char_of (0x80 + c)] = 3"
proof -
  have codes: "code (char_of (0xE0 + a)) = 0xE0 + a" "code (char_of (0x80 + b)) = 0x80 + b" "code (char_of (0x80 + c)) = 0x80 + c"
    using assms(1-3) by simp_all
  have "lead3 (char_of (0xE0 + a)) (char_of (0x80 + b)) (char_of (0x80 + c))"
    unfolding lead3_def inRange_def codes using assms by linarith
  moreover have "\<not> lead2 (char_of (0xE0 + a)) (char_of (0x80 + b))" "\<not> code (char_of (0xE0 + a)) < 128"
    unfolding lead2_def inRange_def codes by simp_all
  ultimately show ?thesis by simp
qed

lemma rune4:
  fixes a b c d :: nat
  assumes "a < 5" "b < 64" "c < 64" "d < 64" "a = 0 \<Longrightarrow> 16 \<le> b" "a = 4 \<Longrightarrow> b < 16"
  shows "runeLen [char_of (0xF0 + a), char_of (0x80 + b), char_of (0x80 + c), char_of (0x80 + d)] = 4"
proof -
  have codes: "code (char_of (0xF0 + a)) = 0xF0 + a" "code (char_of (0x80 + b)) = 0x80 + b" "code (char_of (0x80 + c)) = 0x80 + c"
    "code (char_of (0x80 + d)) = 0x80 + d"
    using assms(1-4) by simp_all
  have "lead4 (char_of (0xF0 + a)) (char_of (0x80 + b)) (char_of (0x80 + c)) (char_of (0x80 + d))"
    unfolding lead4_def inRange_def codes using assms by linarith
  moreover have "\<not> lead2 (char_of (0xF0 + a)) (char_of (0x80 + b))" "\<not> lead3 (char_of (0xF0 + a)) (char_of (0x80 + b)) (char_of (0x80 + c))"
    "\<not> code (char_of (0xF0 + a)) < 128"
    unfolding lead2_def lead3_def inRange_def codes by simp_all
  ultimately show ?thesis by simp
qed

lemma encodeRune_rune: "runeLen (encodeRune r) = length (encodeRune r) \<and> encodeRune r \<noteq> []"
proof -
  have rep: "runeLen replacementChar = length replacementChar \<and> replacementChar \<noteq> []"
    by (simp add: replacementChar_def lead2_def lead3_def inRange_def of_char_of)
  consider "r < 0x80" | "0x80 \<le> r" "r < 0x800" | "0x800 \<le> r" "0xD800 \<le> r \<and> r < 0xE000 \<or> 0x10FFFF < r"
    | "0x800 \<le> r" "\<not> (0xD800 \<le> r \<and> r < 0xE000 \<or> 0x10FFFF < r)" "r < 0x10000" | "0x10000 \<le> r" "\<not> (0x10FFFF < r)"
    by linarith
  then show ?thesis
  proof cases
    case 1
    then show ?thesis by (simp add: encodeRune_def of_char_of)
  next
    case 2
    have "r div 64 < 32" "2 \<le> r div 64" using 2 by simp_all
    then show ?thesis using 2 by (simp add: encodeRune_def of_char_of lead2_def inRange_def)
  next
    case 3
    then show ?thesis using rep by (simp add: encodeRune_def)
  next
    case 4
    let ?q = "r div 64"
    have q: "?q = 64 * (?q div 64) + ?q mod 64" "r div 4096 = ?q div 64" "?q mod 64 < 64" "?q < 1024" "32 \<le> ?q"
      using 4 mult_div_mod_eq [of 64 ?q] by (simp_all add: div_mult2_eq [symmetric])
    have "\<not> (864 \<le> ?q \<and> ?q < 896)" using 4(2) by linarith
    with q have "?q div 64 < 16" "?q div 64 = 0 \<Longrightarrow> 32 \<le> ?q mod 64" "?q div 64 = 13 \<Longrightarrow> ?q mod 64 < 32" by linarith+
    then have "runeLen [char_of (0xE0 + ?q div 64), char_of (0x80 + ?q mod 64), char_of (0x80 + r mod 64)] = 3"
      by (intro rune3) simp_all
    moreover have "encodeRune r = [char_of (0xE0 + ?q div 64), char_of (0x80 + ?q mod 64), char_of (0x80 + r mod 64)]"
      using 4 q(2) by (auto simp: encodeRune_def)
    ultimately show ?thesis by (simp del: runeLen.simps)
  next
    case 5
    let ?q = "r div 4096"
    have q: "?q = 64 * (?q div 64) + ?q mod 64" "r div 262144 = ?q div 64" "?q mod 64 < 64" "?q < 272" "16 \<le> ?q"
      using 5 mult_div_mod_eq [of 64 ?q] by (simp_all add: div_mult2_eq [symmetric])
    then have "?q div 64 < 5" "?q div 64 = 0 \<Longrightarrow> 16 \<le> ?q mod 64" "?q div 64 = 4 \<Longrightarrow> ?q mod 64 < 16" by linarith+
    then have "runeLen [char_of (0xF0 + ?q div 64), char_of (0x80 + ?q mod 64), char_of (0x80 + r div 64 mod 64), char_of (0x80 + r mod 64)] = 4"
      by (intro rune4) simp_all
    moreover have "encodeRune r = [char_of (0xF0 + ?q div 64), char_of (0x80 + ?q mod 64), char_of (0x80 + r div 64 mod 64), char_of (0x80 + r mod 64)]"
      using 5 q(2) by (auto simp: encodeRune_def)
    ultimately show ?thesis by (simp del: runeLen.simps)
  qed
qed

lemma encodeRune_valid: "validUTF8 t \<Longrightarrow> validUTF8 (encodeRune r @ t)"
  using validUTF8_rune [of "encodeRune r"] encodeRune_rune by blast

lemma replacement_valid: "validUTF8 t \<Longrightarrow> validUTF8 (replacementChar @ t)"
  using encodeRune_valid [of t "0xD800"] by (simp add: encodeRune_def)

lemma ascii_Cons_valid: "code c < 128 \<Longrightarrow> validUTF8 t \<Longrightarrow> validUTF8 (c # t)"
  by (simp add: validUTF8.simps [of "c # t"] runeLen_prefix)

lemma simpleEscape_ascii: "simpleEscape e = Some x \<Longrightarrow> code x < 128"
  by (auto simp: simpleEscape_def split: if_splits)

lemma unquote_valid: "unquoteJSON s = Some t \<Longrightarrow> validUTF8 t"
proof (induction s arbitrary: t rule: unquoteJSON.induct)
  case 1
  then show ?case by (simp add: validUTF8.simps)
next
  case (2 c cs)
  have "runeLen (take (runeLen (c # cs)) (c # cs)) = length (take (runeLen (c # cs)) (c # cs)) \<and> take (runeLen (c # cs)) (c # cs) \<noteq> []" if "runeLen (c # cs) \<noteq> 0"
    using runeLen_append [of "c # cs" "runeLen (c # cs)" "[]"] runeLen_le [of "c # cs"] that by auto
  note rune = validUTF8_rune [of "take (runeLen (c # cs)) (c # cs)"] this
  show ?case
    using 2 rune
    by (auto simp: unquoteJSON.simps(2) [of c cs] encodeRune_valid replacement_valid ascii_Cons_valid simpleEscape_ascii
        split: if_splits list.splits option.splits prod.splits)
qed

section \<open>The scanner\<close>

definition isSpace :: "char \<Rightarrow> bool" where
  "isSpace c \<longleftrightarrow> c \<in> {CHR 0x20, CHR 0x09, CHR 0x0D, CHR 0x0A}"

definition skipWs :: "bytes \<Rightarrow> bytes" where
  "skipWs s = dropWhile isSpace s"

text \<open>Each function consumes one syntactic unit and returns the rest. \<open>skipString\<close> starts after the opening quote.\<close>

function skipString :: "bytes \<Rightarrow> bytes option" where
  "skipString [] = None"
| "skipString (c # cs) =
     (if c = CHR 0x22 then Some cs
      else if c = CHR 0x5C then
        (case cs of
           [] \<Rightarrow> None
         | e # ds \<Rightarrow>
             (if e = CHR ''u'' then (case hex4 ds of None \<Rightarrow> None | Some (r, t) \<Rightarrow> skipString t)
              else if simpleEscape e \<noteq> None \<and> e \<noteq> CHR 0x27 then skipString ds
              else None))
      else if code c < 0x20 then None
      else skipString cs)"
  by pat_completeness auto
termination
  by (relation "measure length") (auto dest!: hex4_length)

declare skipString.simps(2) [simp del]

definition isDigit :: "char \<Rightarrow> bool" where
  "isDigit c = inRange 48 57 c"

definition skipDigits :: "bytes \<Rightarrow> bytes option" where
  "skipDigits s = (case s of [] \<Rightarrow> None | c # r \<Rightarrow> if isDigit c then Some (dropWhile isDigit r) else None)"

definition skipInt :: "bytes \<Rightarrow> bytes option" where
  "skipInt s = (case s of [] \<Rightarrow> None | c # r \<Rightarrow> if c = CHR ''0'' then Some r else skipDigits s)"

definition skipFrac :: "bytes \<Rightarrow> bytes option" where
  "skipFrac s = (case s of [] \<Rightarrow> Some [] | c # r \<Rightarrow> if c = CHR ''.'' then skipDigits r else Some s)"

definition skipSign :: "char set \<Rightarrow> bytes \<Rightarrow> bytes" where
  "skipSign signs s = (case s of [] \<Rightarrow> [] | c # r \<Rightarrow> if c \<in> signs then r else s)"

definition skipExp :: "bytes \<Rightarrow> bytes option" where
  "skipExp s =
     (case s of
        [] \<Rightarrow> Some []
      | c # r \<Rightarrow> if c \<in> {CHR ''e'', CHR ''E''} then skipDigits (skipSign {CHR ''+'', CHR ''-''} r) else Some s)"

definition skipNumber :: "bytes \<Rightarrow> bytes option" where
  "skipNumber s = Option.bind (skipInt (skipSign {CHR ''-''} s)) (\<lambda>r. Option.bind (skipFrac r) skipExp)"

definition skipWord :: "bytes \<Rightarrow> bytes \<Rightarrow> bytes option" where
  "skipWord w s = (if take (length w) s = w then Some (drop (length w) s) else None)"

text \<open>The part of \<open>s\<close> before its suffix \<open>r\<close>.\<close>

definition upto :: "bytes \<Rightarrow> bytes \<Rightarrow> bytes" where
  "upto s r = take (length s - length r) s"

lemma skipWs_length: "length (skipWs s) \<le> length s"
  by (simp add: skipWs_def length_dropWhile_le)

lemma skipWs_Cons_length: "skipWs s = c # r \<Longrightarrow> length r < length s"
  using skipWs_length [of s] by simp

lemma skipString_length: "skipString s = Some r \<Longrightarrow> length r < length s"
proof (induction s rule: measure_induct_rule [of length])
  case (less s)
  have step: "length r < length s" if "skipString t = Some r" "length t < length s" for t
    using less.IH [OF that(2,1)] that(2) by simp
  show ?case
  proof (cases s)
    case (Cons c cs)
    then show ?thesis
      using less.prems
      by (auto simp: skipString.simps(2) [of c cs] split: if_splits list.splits option.splits
          dest!: hex4_length dest: step)
  qed (use less.prems in simp)
qed

text \<open>
  Values, the members of an object after its opening brace (the key literals between their quotes,
  and the raw values) and the elements of an array. \<open>d\<close> is the nesting still allowed. The test of
  the length before the next round is always true (\<open>skipValue_length\<close>).
\<close>

function (sequential) skipValue :: "nat \<Rightarrow> bytes \<Rightarrow> bytes option"
  and scanMembers :: "nat \<Rightarrow> bytes \<Rightarrow> ((bytes \<times> bytes) list \<times> bytes) option"
  and skipElems :: "nat \<Rightarrow> bytes \<Rightarrow> bytes option" where
  "skipValue d s =
     (case s of
        [] \<Rightarrow> None
      | c # r \<Rightarrow>
          (if c = CHR 0x22 then skipString r
           else if c = CHR ''{'' then
             (if d = 0 then None
              else (case skipWs r of
                      [] \<Rightarrow> None
                    | x # r1 \<Rightarrow> if x = CHR ''}'' then Some r1 else map_option snd (scanMembers (d - 1) (x # r1))))
           else if c = CHR ''['' then
             (if d = 0 then None
              else (case skipWs r of
                      [] \<Rightarrow> None
                    | x # r1 \<Rightarrow> if x = CHR '']'' then Some r1 else skipElems (d - 1) (x # r1)))
           else if c = CHR ''t'' then skipWord ''true'' s
           else if c = CHR ''f'' then skipWord ''false'' s
           else if c = CHR ''n'' then skipWord ''null'' s
           else skipNumber s))"
| "scanMembers d s =
     (case s of
        [] \<Rightarrow> None
      | c # r \<Rightarrow>
          (if c \<noteq> CHR 0x22 then None
           else (case skipString r of
                   None \<Rightarrow> None
                 | Some r1 \<Rightarrow>
                     (case skipWs r1 of
                        [] \<Rightarrow> None
                      | x # r2 \<Rightarrow>
                          (if x \<noteq> CHR '':'' then None
                           else (case skipValue d (skipWs r2) of
                                   None \<Rightarrow> None
                                 | Some r3 \<Rightarrow>
                                     (case skipWs r3 of
                                        [] \<Rightarrow> None
                                      | y # r4 \<Rightarrow>
                                          (let kv = (butlast (upto r r1), upto (skipWs r2) r3) in
                                           if y = CHR ''}'' then Some ([kv], r4)
                                           else if y = CHR '','' \<and> length r4 < length s
                                             then map_option (\<lambda>(kvs, t). (kv # kvs, t)) (scanMembers d (skipWs r4))
                                           else None))))))))"
| "skipElems d s =
     (case skipValue d s of
        None \<Rightarrow> None
      | Some r \<Rightarrow>
          (case skipWs r of
             [] \<Rightarrow> None
           | y # r1 \<Rightarrow>
               (if y = CHR '']'' then Some r1
                else if y = CHR '','' \<and> length r1 < length s then skipElems d (skipWs r1)
                else None)))"
  by pat_completeness auto
termination
proof (relation "measures [\<lambda>x. case x of Inl (d, s) \<Rightarrow> length s | Inr (Inl (d, s)) \<Rightarrow> length s | Inr (Inr (d, s)) \<Rightarrow> length s,
    \<lambda>x. case x of Inl p \<Rightarrow> 0 | Inr q \<Rightarrow> (1 :: nat)]")
qed (auto dest!: skipWs_Cons_length skipString_length intro: le_less_trans [OF skipWs_length])

declare skipValue.simps [simp del] scanMembers.simps [simp del] skipElems.simps [simp del]

definition maxNestingDepth :: nat where
  "maxNestingDepth = 10000"

section \<open>Decoding into structs\<close>

text \<open>
  Field names match up to case folding; beside the ASCII letters, the long s folds to S and the
  Kelvin sign to K.
\<close>

definition upperByte :: "char \<Rightarrow> char" where
  "upperByte c = (if inRange 97 122 c then char_of (code c - 32) else c)"

fun foldName :: "bytes \<Rightarrow> bytes" where
  "foldName [] = []"
| "foldName (a # s) =
     (if code a < 128 then upperByte a # foldName s
      else if take 2 (a # s) = map char_of [0xC5, 0xBF :: nat] then CHR ''S'' # foldName (drop 1 s)
      else if take 3 (a # s) = map char_of [0xE2, 0x84, 0xAA :: nat] then CHR ''K'' # foldName (drop 2 s)
      else a # foldName s)"

lemma foldName_ascii: "code a < 128 \<Longrightarrow> foldName (a # s) = upperByte a # foldName s"
  by simp

declare foldName.simps(2) [simp del]

definition isField :: "gostring \<Rightarrow> bytes \<Rightarrow> bool" where
  "isField name key \<longleftrightarrow> foldName key = foldName name"

text \<open>A raw value stored into a string field: a string literal; null leaves the field; anything else is a type error.\<close>

definition storeString :: "bytes \<Rightarrow> gostring \<Rightarrow> gostring option" where
  "storeString raw cur =
     (case raw of
        [] \<Rightarrow> None
      | c # r \<Rightarrow> if c = CHR 0x22 then unquoteJSON (butlast r) else if raw = ''null'' then Some cur else None)"

text \<open>The fields of \<^verbatim>\<open>RawEnvelope\<close>; a raw message takes the text of its value.\<close>

definition setField :: "bytes \<times> bytes \<Rightarrow> RawEnvelope \<Rightarrow> RawEnvelope option" where
  "setField kv env =
     (case unquoteJSON (fst kv) of
        None \<Rightarrow> None
      | Some key \<Rightarrow>
          if isField ''name'' key then map_option (\<lambda>v. env\<lparr>env_Name := v\<rparr>) (storeString (snd kv) (env_Name env))
          else if isField ''eventId'' key then map_option (\<lambda>v. env\<lparr>env_EventID := v\<rparr>) (storeString (snd kv) (env_EventID env))
          else if isField ''commandId'' key then map_option (\<lambda>v. env\<lparr>env_CommandID := v\<rparr>) (storeString (snd kv) (env_CommandID env))
          else if isField ''resource'' key then map_option (\<lambda>v. env\<lparr>env_Resource := v\<rparr>) (storeString (snd kv) (env_Resource env))
          else if isField ''data'' key then Some (env\<lparr>env_Data := snd kv\<rparr>)
          else if isField ''queryData'' key then Some (env\<lparr>env_QueryData := snd kv\<rparr>)
          else Some env)"

definition setErrorMessage :: "bytes \<times> bytes \<Rightarrow> gostring \<Rightarrow> gostring option" where
  "setErrorMessage kv msg =
     (case unquoteJSON (fst kv) of
        None \<Rightarrow> None
      | Some key \<Rightarrow> if isField ''errorMessage'' key then storeString (snd kv) msg else Some msg)"

fun setFields :: "('kv \<Rightarrow> 'a \<Rightarrow> 'a option) \<Rightarrow> 'kv list \<Rightarrow> 'a \<Rightarrow> 'a option" where
  "setFields f [] x = Some x"
| "setFields f (kv # kvs) x = (case f kv x of None \<Rightarrow> None | Some y \<Rightarrow> setFields f kvs y)"

text \<open>The members of the text when it is one JSON object; null is decoded like an empty object; the rest is an error.\<close>

definition topMembers :: "bytes \<Rightarrow> (bytes \<times> bytes) list option" where
  "topMembers body =
     (case skipWs body of
        [] \<Rightarrow> None
      | c # r \<Rightarrow>
          if c = CHR ''{'' then
            (case skipWs r of
               [] \<Rightarrow> None
             | x # r1 \<Rightarrow>
                 if x = CHR ''}'' then (if skipWs r1 = [] then Some [] else None)
                 else (case scanMembers (maxNestingDepth - 1) (x # r1) of
                         None \<Rightarrow> None
                       | Some (kvs, t) \<Rightarrow> if skipWs t = [] then Some kvs else None))
          else (case skipWord ''null'' (c # r) of
                  None \<Rightarrow> None
                | Some t \<Rightarrow> if skipWs t = [] then Some [] else None))"

definition unmarshalEnvelope :: "bytes \<Rightarrow> RawEnvelope option" where
  "unmarshalEnvelope body = Option.bind (topMembers body) (\<lambda>kvs. setFields setField kvs emptyEnvelope)"

definition unmarshalError :: "bytes \<Rightarrow> gostring option" where
  "unmarshalError body = Option.bind (topMembers body) (\<lambda>kvs. setFields setErrorMessage kvs [])"

text \<open>With the text of the error, which is the library's: what \<^verbatim>\<open>json.Unmarshal(body, &env)\<close> returns.\<close>

definition jsonEnvelope :: "(bytes \<Rightarrow> gostring) \<Rightarrow> bytes \<Rightarrow> gostring + RawEnvelope" where
  "jsonEnvelope err body = (case unmarshalEnvelope body of None \<Rightarrow> Inl (err body) | Some env \<Rightarrow> Inr env)"

section \<open>Encoding of structs\<close>

fun members :: "(gostring \<times> bytes) list \<Rightarrow> bytes" where
  "members [] = []"
| "members [(k, v)] = quoteJSON k @ CHR '':'' # v"
| "members ((k, v) # kv # kvs) = quoteJSON k @ CHR '':'' # v @ CHR '','' # members (kv # kvs)"

definition marshalObject :: "(gostring \<times> bytes) list \<Rightarrow> bytes" where
  "marshalObject kvs = CHR ''{'' # members kvs @ [CHR ''}'']"

text \<open>The message structs; \<open>enc\<close> is the encoding of the payload, which may fail.\<close>

definition marshalEvent :: "('d \<Rightarrow> gostring + bytes) \<Rightarrow> 'd DomainEvent \<Rightarrow> gostring + bytes" where
  "marshalEvent enc ev =
     (case enc (ev_Data ev) of
        Inl e \<Rightarrow> Inl e
      | Inr v \<Rightarrow> Inr (marshalObject [(''name'', quoteJSON (ev_Name ev)), (''eventId'', quoteJSON (ev_EventID ev)), (''data'', v)]))"

definition marshalNotification :: "('d \<Rightarrow> gostring + bytes) \<Rightarrow> 'd Notification \<Rightarrow> gostring + bytes" where
  "marshalNotification enc n =
     (case enc (n_Data n) of
        Inl e \<Rightarrow> Inl e
      | Inr v \<Rightarrow> Inr (marshalObject [(''name'', quoteJSON (n_Name n)), (''eventId'', quoteJSON (n_EventID n)), (''data'', v)]))"

definition marshalCommand :: "('d \<Rightarrow> gostring + bytes) \<Rightarrow> 'd Command \<Rightarrow> gostring + bytes" where
  "marshalCommand enc cmd =
     (case enc (cmd_Data cmd) of
        Inl e \<Rightarrow> Inl e
      | Inr v \<Rightarrow> Inr (marshalObject [(''name'', quoteJSON (cmd_Name cmd)), (''commandId'', quoteJSON (cmd_CommandID cmd)), (''data'', v)]))"

definition marshalQuery :: "('d \<Rightarrow> gostring + bytes) \<Rightarrow> 'd AsyncQuery \<Rightarrow> gostring + bytes" where
  "marshalQuery enc q =
     (case enc (q_QueryData q) of
        Inl e \<Rightarrow> Inl e
      | Inr v \<Rightarrow> Inr (marshalObject [(''resource'', quoteJSON (q_Resource q)), (''queryData'', v)]))"

text \<open>\<^verbatim>\<open>json.Marshal(map[string]string{"errorMessage": msg})\<close>.\<close>

definition marshalError :: "gostring \<Rightarrow> bytes" where
  "marshalError msg = marshalObject [(''errorMessage'', quoteJSON msg)]"

section \<open>The scanner on longer texts\<close>

text \<open>A number ends at a delimiter.\<close>

definition delimits :: "bytes \<Rightarrow> bool" where
  "delimits t \<longleftrightarrow> (case t of [] \<Rightarrow> True | c # r \<Rightarrow> isSpace c \<or> c \<in> {CHR '','', CHR ''}'', CHR '']''})"

lemma skipWs_append: "skipWs s \<noteq> [] \<Longrightarrow> skipWs (s @ t) = skipWs s @ t"
  by (induction s) (auto simp: skipWs_def)

lemma skipWs_Cons_append: "skipWs s = c # r \<Longrightarrow> skipWs (s @ t) = c # r @ t"
  by (simp add: skipWs_append)

lemma hex4_append: "hex4 s = Some (r, u) \<Longrightarrow> hex4 (s @ t) = Some (r, u @ t)"
  by (cases s rule: hex4.cases) (auto split: option.splits)

lemma skipString_append: "skipString s = Some r \<Longrightarrow> skipString (s @ t) = Some (r @ t)"
proof (induction s rule: measure_induct_rule [of length])
  case (less s)
  have step: "skipString (u @ t) = Some (r @ t)" if "skipString u = Some r" "length u < length s" for u
    using less.IH [OF that(2,1)] .
  have stepu: "skipString (u @ t) = Some (r @ t)" if "skipString u = Some r" "hex4 v = Some (n, u)" "length v < length s" for u v n
    using step [OF that(1)] hex4_length [OF that(2)] that(3) by simp
  show ?case
  proof (cases s)
    case (Cons c cs)
    then show ?thesis
      using less.prems
      by (auto simp: skipString.simps(2) [of c] hex4_append split: if_splits list.splits option.splits
          dest: step stepu)
  qed (use less.prems in simp)
qed

lemma upto_append: "length r \<le> length s \<Longrightarrow> upto (s @ t) (r @ t) = upto s r"
  by (simp add: upto_def)

lemma digits_append:
  "dropWhile isDigit s \<noteq> [] \<or> delimits t \<Longrightarrow> dropWhile isDigit (s @ t) = dropWhile isDigit s @ t"
  by (induction s) (auto simp: delimits_def isDigit_def inRange_def isSpace_def split: list.splits)

lemma skipDigits_append: "skipDigits s = Some r \<Longrightarrow> r \<noteq> [] \<or> delimits t \<Longrightarrow> skipDigits (s @ t) = Some (r @ t)"
  by (auto simp: skipDigits_def digits_append split: list.splits if_splits)

lemma skipInt_append: "skipInt s = Some r \<Longrightarrow> r \<noteq> [] \<or> delimits t \<Longrightarrow> skipInt (s @ t) = Some (r @ t)"
  using skipDigits_append [of s r t] by (auto simp: skipInt_def split: list.splits if_splits)

lemma skipSign_append: "skipSign x s \<noteq> [] \<Longrightarrow> skipSign x (s @ t) = skipSign x s @ t"
  by (auto simp: skipSign_def split: list.splits)

lemma skipFrac_append: "skipFrac s = Some r \<Longrightarrow> r \<noteq> [] \<or> delimits t \<Longrightarrow> skipFrac (s @ t) = Some (r @ t)"
  using skipDigits_append [of "tl s" r t]
  by (auto simp: skipFrac_def delimits_def isSpace_def split: list.splits if_splits)

lemma skipDigits_Nil: "skipDigits [] = None" "skipInt [] = None"
  by (simp_all add: skipDigits_def skipInt_def)

lemma skipExp_append: "skipExp s = Some r \<Longrightarrow> r \<noteq> [] \<or> delimits t \<Longrightarrow> skipExp (s @ t) = Some (r @ t)"
  using skipDigits_append [of "skipSign {CHR ''+'', CHR ''-''} (tl s)" r t] skipSign_append [of "{CHR ''+'', CHR ''-''}" "tl s" t]
  by (cases "skipSign {CHR ''+'', CHR ''-''} (tl s) = []")
    (auto simp: skipExp_def delimits_def isSpace_def skipDigits_Nil split: list.splits if_splits)

lemma skipDigits_length: "skipDigits s = Some r \<Longrightarrow> length r < length s"
  using length_dropWhile_le [of isDigit "tl s"] by (auto simp: skipDigits_def split: list.splits if_splits)

lemma skipInt_length: "skipInt s = Some r \<Longrightarrow> length r < length s"
  using skipDigits_length [of s r] by (auto simp: skipInt_def split: list.splits if_splits)

lemma skipSign_length: "length (skipSign x s) \<le> length s"
  by (simp add: skipSign_def split: list.split)

lemma skipFrac_length: "skipFrac s = Some r \<Longrightarrow> length r \<le> length s"
  using skipDigits_length [of "tl s" r] by (auto simp: skipFrac_def split: list.splits if_splits)

lemma skipExp_length: "skipExp s = Some r \<Longrightarrow> length r \<le> length s"
  using skipDigits_length [of "skipSign {CHR ''+'', CHR ''-''} (tl s)" r] skipSign_length [of "{CHR ''+'', CHR ''-''}" "tl s"]
  by (auto simp: skipExp_def split: list.splits if_splits)

lemma skipNumber_length: "skipNumber s = Some r \<Longrightarrow> length r < length s"
  using skipSign_length [of "{CHR ''-''}" s]
  by (fastforce simp: skipNumber_def bind_eq_Some_conv dest: skipInt_length skipFrac_length skipExp_length)

lemma skipNumber_append:
  assumes "skipNumber s = Some r" and "r \<noteq> [] \<or> delimits t"
  shows "skipNumber (s @ t) = Some (r @ t)"
proof -
  obtain r1 r2 where p: "skipInt (skipSign {CHR ''-''} s) = Some r1" "skipFrac r1 = Some r2" "skipExp r2 = Some r"
    using assms(1) by (auto simp: skipNumber_def bind_eq_Some_conv)
  have "r2 \<noteq> [] \<or> delimits t" "r1 \<noteq> [] \<or> delimits t"
    using assms(2) skipExp_length [OF p(3)] skipFrac_length [OF p(2)] by auto
  moreover have "skipSign {CHR ''-''} s \<noteq> []" using p(1) by (auto simp: skipDigits_Nil)
  ultimately show ?thesis
    using p assms(2) by (simp add: skipNumber_def skipSign_append skipInt_append skipFrac_append skipExp_append)
qed

lemma skipWord_append: "skipWord w s = Some r \<Longrightarrow> skipWord w (s @ t) = Some (r @ t)"
  by (auto simp: skipWord_def split: if_splits dest: arg_cong [of _ w length])

lemma skipWord_length: "skipWord w s = Some r \<Longrightarrow> w \<noteq> [] \<Longrightarrow> length r < length s"
  by (cases s) (auto simp: skipWord_def split: if_splits)

text \<open>The ways a value, the members of an object and the elements of an array are consumed.\<close>

lemma skipValue_cases:
  assumes "skipValue d s = Some r"
  obtains (String) u where "s = CHR 0x22 # u" "skipString u = Some r"
  | (Object) u x u1 where "s = CHR ''{'' # u" "0 < d" "skipWs u = x # u1"
      "x = CHR ''}'' \<and> r = u1 \<or> x \<noteq> CHR ''}'' \<and> (\<exists>kvs. scanMembers (d - 1) (x # u1) = Some (kvs, r))"
  | (Array) u x u1 where "s = CHR ''['' # u" "0 < d" "skipWs u = x # u1"
      "x = CHR '']'' \<and> r = u1 \<or> x \<noteq> CHR '']'' \<and> skipElems (d - 1) (x # u1) = Some r"
  | (Word) c u w where "s = c # u" "c \<in> {CHR ''t'', CHR ''f'', CHR ''n''}" "w \<noteq> []" "skipWord w s = Some r"
      "\<And>t. skipValue d (s @ t) = skipWord w (s @ t)"
  | (Number) c u where "s = c # u" "c \<notin> {CHR 0x22, CHR ''{'', CHR ''['', CHR ''t'', CHR ''f'', CHR ''n''}" "skipNumber s = Some r"
proof (cases s)
  case Nil
  then show ?thesis using assms by (simp add: skipValue.simps)
next
  case (Cons c u)
  consider "c = CHR 0x22" | "c = CHR ''{''" | "c = CHR ''[''" | "c = CHR ''t''" | "c = CHR ''f''" | "c = CHR ''n''"
    | "c \<notin> {CHR 0x22, CHR ''{'', CHR ''['', CHR ''t'', CHR ''f'', CHR ''n''}" by blast
  then show ?thesis
  proof cases
    case 1
    then show ?thesis using assms Cons by (intro String) (auto simp: skipValue.simps)
  next
    case 2
    then show ?thesis using assms Cons by (auto simp: skipValue.simps split: if_splits list.splits intro: Object)
  next
    case 3
    then show ?thesis using assms Cons by (auto simp: skipValue.simps split: if_splits list.splits intro: Array)
  next
    case 4
    then show ?thesis using assms Cons by (intro Word [of c u "''true''"]) (auto simp: skipValue.simps)
  next
    case 5
    then show ?thesis using assms Cons by (intro Word [of c u "''false''"]) (auto simp: skipValue.simps)
  next
    case 6
    then show ?thesis using assms Cons by (intro Word [of c u "''null''"]) (auto simp: skipValue.simps)
  next
    case 7
    then show ?thesis using assms Cons by (intro Number) (auto simp: skipValue.simps)
  qed
qed

lemma scanMembers_cases:
  assumes "scanMembers d s = Some (kvs, r)"
  obtains u r1 r2 r3 y r4 where "s = CHR 0x22 # u" "skipString u = Some r1" "skipWs r1 = CHR '':'' # r2"
    "skipValue d (skipWs r2) = Some r3" "skipWs r3 = y # r4"
    "y = CHR ''}'' \<and> r = r4 \<and> kvs = [(butlast (upto u r1), upto (skipWs r2) r3)] \<or>
     y = CHR '','' \<and> length r4 < length s \<and>
       (\<exists>kvs'. scanMembers d (skipWs r4) = Some (kvs', r) \<and> kvs = (butlast (upto u r1), upto (skipWs r2) r3) # kvs')"
  using assms by (simp add: scanMembers.simps [of d s] Let_def split: list.splits if_splits option.splits) auto

lemma skipElems_cases:
  assumes "skipElems d s = Some r"
  obtains r1 y r2 where "skipValue d s = Some r1" "skipWs r1 = y # r2"
    "y = CHR '']'' \<and> r = r2 \<or> y = CHR '','' \<and> length r2 < length s \<and> skipElems d (skipWs r2) = Some r"
  using assms by (auto simp: skipElems.simps [of d s] split: list.splits if_splits option.splits)

lemma skip_lengths:
  "(\<forall>d r. skipValue d s = Some r \<longrightarrow> length r < length s) \<and>
   (\<forall>d kvs r. scanMembers d s = Some (kvs, r) \<longrightarrow> length r < length s) \<and>
   (\<forall>d r. skipElems d s = Some r \<longrightarrow> length r < length s)"
proof (induction s rule: measure_induct_rule [of length])
  case (less s)
  have ihM: "length r < length s" if "scanMembers d w = Some (kvs, r)" "length w < length s" for d w kvs r
    using less.IH [OF that(2)] that by (meson order.strict_trans)
  have ihE: "length r < length s" if "skipElems d w = Some r" "length w < length s" for d w r
    using less.IH [OF that(2)] that by (meson order.strict_trans)
  have v: "length r < length s" if "skipValue d s = Some r" for d r
    using that
  proof (cases rule: skipValue_cases)
    case (Object u x u1)
    then show ?thesis using skipWs_Cons_length [OF Object(3)] ihM [of "d - 1" "x # u1"] by auto
  next
    case (Array u x u1)
    then show ?thesis using skipWs_Cons_length [OF Array(3)] ihE [of "d - 1" "x # u1"] by auto
  qed (auto dest: skipString_length skipWord_length skipNumber_length)
  moreover have "length r < length s" if "scanMembers d s = Some (kvs, r)" for d kvs r
    using that
  proof (cases rule: scanMembers_cases)
    case (1 u r1 r2 r3 y r4)
    have l: "length (skipWs r2) < length s" "length r1 < length u"
      using 1(1) skipString_length [OF 1(2)] skipWs_Cons_length [OF 1(3)] skipWs_length [of r2] by auto
    have "length r3 < length (skipWs r2)" using less.IH [OF l(1)] 1(4) by blast
    then have "length r4 < length s" using l(1) skipWs_Cons_length [OF 1(5)] by simp
    then show ?thesis using 1(6) ihM [of d "skipWs r4"] skipWs_length [of r4] by auto
  qed
  moreover have "length r < length s" if "skipElems d s = Some r" for d r
    using that
  proof (cases rule: skipElems_cases)
    case (1 r1 y r2)
    have "length r2 < length s" using v [OF 1(1)] skipWs_Cons_length [OF 1(2)] by simp
    then show ?thesis using 1(3) ihE [of d "skipWs r2"] skipWs_length [of r2] by auto
  qed
  ultimately show ?case by blast
qed

lemmas skipValue_length = skip_lengths [THEN conjunct1, rule_format]
lemmas scanMembers_length = skip_lengths [THEN conjunct2, THEN conjunct1, rule_format]

text \<open>What a value is does not depend on what follows it, when a delimiter follows.\<close>

lemma skip_appends:
  "(\<forall>d r. skipValue d s = Some r \<longrightarrow> r \<noteq> [] \<or> delimits t \<longrightarrow> skipValue d (s @ t) = Some (r @ t)) \<and>
   (\<forall>d kvs r. scanMembers d s = Some (kvs, r) \<longrightarrow> scanMembers d (s @ t) = Some (kvs, r @ t)) \<and>
   (\<forall>d r. skipElems d s = Some r \<longrightarrow> skipElems d (s @ t) = Some (r @ t))"
proof (induction s rule: measure_induct_rule [of length])
  case (less s)
  have v: "skipValue d (s @ t) = Some (r @ t)" if "skipValue d s = Some r" "r \<noteq> [] \<or> delimits t" for d r
    using that(1)
  proof (cases rule: skipValue_cases)
    case (String u)
    then show ?thesis by (simp add: skipValue.simps skipString_append)
  next
    case (Object u x u1)
    then have "scanMembers (d - 1) (x # u1 @ t) = Some (kvs, r @ t)" if "scanMembers (d - 1) (x # u1) = Some (kvs, r)" for kvs
      using less.IH [of "x # u1"] skipWs_Cons_length [OF Object(3)] that by simp
    with Object show ?thesis by (auto simp: skipValue.simps [of d "CHR ''{'' # u @ t"] skipWs_Cons_append)
  next
    case (Array u x u1)
    then have "skipElems (d - 1) (x # u1 @ t) = Some (r @ t)" if "skipElems (d - 1) (x # u1) = Some r"
      using less.IH [of "x # u1"] skipWs_Cons_length [OF Array(3)] that by simp
    with Array show ?thesis by (auto simp: skipValue.simps [of d "CHR ''['' # u @ t"] skipWs_Cons_append)
  next
    case (Word c u w)
    then show ?thesis using skipWord_append [OF Word(4), of t] by simp
  next
    case (Number c u)
    then show ?thesis using skipNumber_append [OF Number(3) that(2)] by (simp add: skipValue.simps)
  qed
  moreover have "scanMembers d (s @ t) = Some (kvs, r @ t)" if "scanMembers d s = Some (kvs, r)" for d kvs r
    using that
  proof (cases rule: scanMembers_cases)
    case (1 u r1 r2 r3 y r4)
    have l: "length (skipWs r2) < length s" "length r1 < length u"
      using 1(1) skipString_length [OF 1(2)] skipWs_Cons_length [OF 1(3)] skipWs_length [of r2] by auto
    have l3: "length r3 < length (skipWs r2)" by (rule skipValue_length [OF 1(4)])
    then have l4: "length r4 < length s" using l skipWs_Cons_length [OF 1(5)] by simp
    have "r3 \<noteq> []" using 1(5) by (auto simp: skipWs_def)
    then have val: "skipValue d (skipWs r2 @ t) = Some (r3 @ t)" using less.IH [OF l(1)] 1(4) by blast
    have ws: "skipWs (r2 @ t) = skipWs r2 @ t" using l3 by (intro skipWs_append) auto
    have sp: "upto (u @ t) (r1 @ t) = upto u r1" "upto (skipWs r2 @ t) (r3 @ t) = upto (skipWs r2) r3"
      using l(2) l3 by (simp_all add: upto_append)
    have next_: "scanMembers d (skipWs (r4 @ t)) = Some (kvs', r @ t)" if "scanMembers d (skipWs r4) = Some (kvs', r)" for kvs'
    proof -
      have "skipWs r4 \<noteq> []" using that by (auto simp: scanMembers.simps)
      then show ?thesis using less.IH [of "skipWs r4"] that l4 skipWs_length [of r4] by (simp add: skipWs_append)
    qed
    show ?thesis
      using 1 l4 next_ val ws sp
      by (auto simp: scanMembers.simps [of d "CHR 0x22 # u @ t"] skipString_append skipWs_Cons_append Let_def)
  qed
  moreover have "skipElems d (s @ t) = Some (r @ t)" if "skipElems d s = Some r" for d r
    using that
  proof (cases rule: skipElems_cases)
    case (1 r1 y r2)
    have "r1 \<noteq> []" using 1(2) by (auto simp: skipWs_def)
    then have val: "skipValue d (s @ t) = Some (r1 @ t)" using v [OF 1(1)] by blast
    have l: "length r2 < length s" using skipValue_length [OF 1(1)] skipWs_Cons_length [OF 1(2)] by simp
    have next_: "skipElems d (skipWs (r2 @ t)) = Some (r @ t)" if "skipElems d (skipWs r2) = Some r"
    proof -
      have "skipWs r2 \<noteq> []" using that by (auto simp: skipElems.simps skipValue.simps)
      then show ?thesis using less.IH [of "skipWs r2"] that l skipWs_length [of r2] by (simp add: skipWs_append)
    qed
    show ?thesis using 1 l next_ val by (auto simp: skipElems.simps [of d "s @ t"] skipWs_Cons_append)
  qed
  ultimately show ?case by blast
qed

lemmas skipValue_append = skip_appends [THEN conjunct1, rule_format]

lemma skipNumber_start: "skipNumber (c # u) = Some r \<Longrightarrow> \<not> isSpace c"
  by (auto simp: isSpace_def skipNumber_def skipSign_def skipInt_def skipDigits_def isDigit_def inRange_def)

lemma skipValue_trimmed:
  assumes "skipValue d v = Some r"
  shows "v \<noteq> [] \<and> skipWs (v @ t) = v @ t"
proof -
  obtain c u where c: "v = c # u" "\<not> isSpace c"
    using assms by (cases rule: skipValue_cases) (auto simp: isSpace_def dest: skipNumber_start)
  then show ?thesis by (simp add: skipWs_def)
qed

section \<open>Encoded texts are scanned as they were built\<close>

lemma skipString_plain: "list_all (\<lambda>c. 128 \<le> code c) xs \<Longrightarrow> skipString (xs @ t) = skipString t"
proof (induction xs)
  case (Cons x xs)
  then have "x \<noteq> CHR 0x22" "x \<noteq> CHR 0x5C" by auto
  with Cons show ?case by (simp add: skipString.simps(2) [of x])
qed simp

lemma skipString_u: "hex4 s = Some (r, t) \<Longrightarrow> skipString (CHR 0x5C # CHR ''u'' # s) = skipString t"
  by (simp add: skipString.simps(2) [of "CHR 0x5C"])

lemma skipString_escapeAscii: "code c < 128 \<Longrightarrow> skipString (escapeAscii c @ t) = skipString t"
  using skipString_u [OF hex4_u00 [of "code c" t]]
  by (auto simp: escapeAscii_def Let_def code_chars skipString.simps(2) [of "CHR 0x5C"] skipString.simps(2) [of c] simpleEscape_def)

lemma skipString_escapeRune:
  assumes "runeLen s = n" and "0 < n" and "128 \<le> code (hd s)"
  shows "skipString (escapeRune (take n s) @ t) = skipString t"
proof -
  have "list_all (\<lambda>c. 128 \<le> code c) (take n s)" using runeLen_pos [of s] assms by auto
  then show ?thesis
    using skipString_plain [of "take n s" t] skipString_u [of "''2028'' @ t" "0x2028" t] skipString_u [of "''2029'' @ t" "0x2029" t]
    by (simp add: escapeRune_def hexVal_def)
qed

lemma skipString_escape: "skipString (escapeJSON s @ CHR 0x22 # t) = Some t"
proof (induction s rule: escapeJSON.induct)
  case 1
  then show ?case by (simp add: skipString.simps(2))
next
  case (2 c cs)
  show ?case
  proof (cases "code c < 128")
    case True
    with 2(1) show ?thesis by (simp add: escapeJSON.simps(2) skipString_escapeAscii)
  next
    case False
    have "skipString (CHR 0x5C # ''ufffd'' @ x) = skipString x" for x
      using skipString_u [of "''fffd'' @ x" "0xFFFD" x] by (simp add: hexVal_def)
    with False 2(2,3) skipString_escapeRune [of "c # cs" "runeLen (c # cs)"] show ?thesis
      by (simp add: escapeJSON.simps(2))
  qed
qed

lemma skipValue_quote: "skipValue d (quoteJSON s) = Some []"
  using skipString_escape [of s "[]"] by (simp add: quoteJSON_def skipValue.simps)

lemma upto_split: "upto (a @ b) b = a"
  by (simp add: upto_def)

lemma scanMember:
  assumes "skipValue d v = Some []" and "y \<in> {CHR ''}'', CHR '',''}"
  shows "scanMembers d (quoteJSON k @ CHR '':'' # v @ y # rest) =
    (if y = CHR ''}'' then Some ([(escapeJSON k, v)], rest)
     else map_option (\<lambda>(kvs, t). ((escapeJSON k, v) # kvs, t)) (scanMembers d (skipWs rest)))"
proof -
  have v: "skipValue d (v @ y # rest) = Some (y # rest)" "skipWs (v @ y # rest) = v @ y # rest"
    using skipValue_append [OF assms(1), of "y # rest"] skipValue_trimmed [OF assms(1)] assms(2)
    by (auto simp: delimits_def)
  have k: "skipString (escapeJSON k @ CHR 0x22 # CHR '':'' # v @ y # rest) = Some (CHR '':'' # v @ y # rest)"
    by (rule skipString_escape)
  have key: "upto (escapeJSON k @ CHR 0x22 # t) t = escapeJSON k @ [CHR 0x22]" for t
    using upto_split [of "escapeJSON k @ [CHR 0x22]" t] by simp
  have ws: "skipWs (CHR '':'' # t) = CHR '':'' # t" "skipWs (y # rest) = y # rest" for t
    using assms(2) by (auto simp: skipWs_def isSpace_def)
  show ?thesis
    using assms(2) v k key ws
    by (auto simp: quoteJSON_def scanMembers.simps [of d "CHR 0x22 # escapeJSON k @ CHR 0x22 # CHR '':'' # v @ y # rest"]
        upto_split Let_def)
qed

lemma scanMembers_members:
  assumes "kvs \<noteq> []" and "\<forall>(k, v) \<in> set kvs. skipValue d v = Some []"
  shows "scanMembers d (members kvs @ CHR ''}'' # t) = Some (map (\<lambda>(k, v). (escapeJSON k, v)) kvs, t)"
  using assms
proof (induction kvs rule: members.induct)
  case (2 k v)
  then show ?case using scanMember [of d v "CHR ''}''" k t] by simp
next
  case (3 k v kv kvs)
  have "skipWs (members (kv # kvs) @ x) = members (kv # kvs) @ x" for x
    by (cases kv; cases kvs) (simp_all add: quoteJSON_def skipWs_def isSpace_def)
  with 3 scanMember [of d v "CHR '',''" k "members (kv # kvs) @ CHR ''}'' # t"] show ?case
    by simp
qed simp

text \<open>An object is a value one level up from its members.\<close>

lemma skipValue_object:
  assumes "kvs \<noteq> []" and "\<forall>(k, v) \<in> set kvs. skipValue d v = Some []"
  shows "skipValue (Suc d) (marshalObject kvs) = Some []"
proof -
  obtain m where m: "members kvs @ x = CHR 0x22 # m @ x" for x
    using assms(1) by (cases kvs rule: members.cases) (auto simp: quoteJSON_def)
  have "scanMembers d (members kvs @ [CHR ''}'']) = Some (map (\<lambda>(k, v). (escapeJSON k, v)) kvs, [])"
    using scanMembers_members [OF assms, of "[]"] by simp
  then show ?thesis
    unfolding marshalObject_def skipValue.simps [of "Suc d"] m by (simp add: skipWs_def isSpace_def)
qed

text \<open>A complete JSON value that can stand in an object: what \<^verbatim>\<open>json.Marshal\<close> produces for a payload.\<close>

definition isValue :: "bytes \<Rightarrow> bool" where
  "isValue v \<longleftrightarrow> skipValue (maxNestingDepth - 1) v = Some []"

lemma isValue_quote [simp]: "isValue (quoteJSON s)"
  by (simp add: isValue_def skipValue_quote)

lemma topMembers_marshal:
  assumes "kvs \<noteq> []" and "\<forall>(k, v) \<in> set kvs. isValue v"
  shows "topMembers (marshalObject kvs) = Some (map (\<lambda>(k, v). (escapeJSON k, v)) kvs)"
proof -
  obtain m where m: "members kvs @ x = CHR 0x22 # m @ x" for x
    using assms(1) by (cases kvs rule: members.cases) (auto simp: quoteJSON_def)
  have "scanMembers (maxNestingDepth - 1) (members kvs @ [CHR ''}'']) = Some (map (\<lambda>(k, v). (escapeJSON k, v)) kvs, [])"
    using scanMembers_members [of kvs "maxNestingDepth - 1" "[]"] assms by (simp add: isValue_def)
  then show ?thesis
    unfolding topMembers_def marshalObject_def m by (simp add: skipWs_def isSpace_def)
qed

lemma ascii_valid: "list_all (\<lambda>c. code c < 128) s \<Longrightarrow> validUTF8 s"
proof (induction s)
  case (Cons c s)
  then show ?case by (simp add: validUTF8.simps [of "c # s"] runeLen_prefix)
qed (simp add: validUTF8.simps)

lemma unquote_ascii: "list_all (\<lambda>c. code c < 128) s \<Longrightarrow> unquoteJSON (escapeJSON s) = Some s"
  by (simp add: unquote_escape ascii_valid)

lemma storeString_quote: "validUTF8 s \<Longrightarrow> storeString (quoteJSON s) cur = Some s"
  by (simp add: storeString_def quoteJSON_def unquote_escape)

lemma folded_names:
  "foldName ''name'' = ''NAME''" "foldName ''eventId'' = ''EVENTID''" "foldName ''commandId'' = ''COMMANDID''"
  "foldName ''resource'' = ''RESOURCE''" "foldName ''data'' = ''DATA''" "foldName ''queryData'' = ''QUERYDATA''"
  "foldName ''errorMessage'' = ''ERRORMESSAGE''"
  by (simp_all add: foldName_ascii upperByte_def inRange_def char_of_eq_iff)

lemma field_names:
  "isField ''name'' ''name''" "isField ''eventId'' ''eventId''" "isField ''commandId'' ''commandId''"
  "isField ''resource'' ''resource''" "isField ''data'' ''data''" "isField ''queryData'' ''queryData''"
  "isField ''errorMessage'' ''errorMessage''"
  "\<not> isField ''name'' ''eventId''" "\<not> isField ''name'' ''commandId''" "\<not> isField ''name'' ''resource''"
  "\<not> isField ''name'' ''data''" "\<not> isField ''name'' ''queryData''"
  "\<not> isField ''eventId'' ''commandId''" "\<not> isField ''eventId'' ''resource''" "\<not> isField ''eventId'' ''data''"
  "\<not> isField ''eventId'' ''queryData''"
  "\<not> isField ''commandId'' ''resource''" "\<not> isField ''commandId'' ''data''" "\<not> isField ''commandId'' ''queryData''"
  "\<not> isField ''resource'' ''data''" "\<not> isField ''resource'' ''queryData''" "\<not> isField ''data'' ''queryData''"
  by (simp_all add: isField_def folded_names)

lemmas decode_fields = unquote_ascii field_names storeString_quote setField_def setErrorMessage_def

lemma query_decodes:
  "validUTF8 (q_Resource q) \<Longrightarrow> enc (q_QueryData q) = Inr v \<Longrightarrow> isValue v \<Longrightarrow>
     \<exists>body. marshalQuery enc q = Inr body \<and>
       unmarshalEnvelope body = Some (emptyEnvelope\<lparr>env_Resource := q_Resource q, env_QueryData := v\<rparr>)"
  by (simp add: marshalQuery_def unmarshalEnvelope_def topMembers_marshal decode_fields)

lemma event_decodes:
  "validUTF8 (ev_Name ev) \<Longrightarrow> validUTF8 (ev_EventID ev) \<Longrightarrow> enc (ev_Data ev) = Inr v \<Longrightarrow> isValue v \<Longrightarrow>
     \<exists>body. marshalEvent enc ev = Inr body \<and>
       unmarshalEnvelope body = Some (emptyEnvelope\<lparr>env_Name := ev_Name ev, env_EventID := ev_EventID ev, env_Data := v\<rparr>)"
  by (simp add: marshalEvent_def unmarshalEnvelope_def topMembers_marshal decode_fields)

lemma command_decodes:
  "validUTF8 (cmd_Name cmd) \<Longrightarrow> validUTF8 (cmd_CommandID cmd) \<Longrightarrow> enc (cmd_Data cmd) = Inr v \<Longrightarrow> isValue v \<Longrightarrow>
     \<exists>body. marshalCommand enc cmd = Inr body \<and>
       unmarshalEnvelope body = Some (emptyEnvelope\<lparr>env_Name := cmd_Name cmd, env_CommandID := cmd_CommandID cmd, env_Data := v\<rparr>)"
  by (simp add: marshalCommand_def unmarshalEnvelope_def topMembers_marshal decode_fields)

lemma notification_decodes:
  "validUTF8 (n_Name n) \<Longrightarrow> validUTF8 (n_EventID n) \<Longrightarrow> enc (n_Data n) = Inr v \<Longrightarrow> isValue v \<Longrightarrow>
     \<exists>body. marshalNotification enc n = Inr body \<and>
       unmarshalEnvelope body = Some (emptyEnvelope\<lparr>env_Name := n_Name n, env_EventID := n_EventID n, env_Data := v\<rparr>)"
  by (simp add: marshalNotification_def unmarshalEnvelope_def topMembers_marshal decode_fields)

lemma error_decodes: "validUTF8 t \<Longrightarrow> unmarshalError (marshalError t) = Some t"
  by (simp add: marshalError_def unmarshalError_def topMembers_marshal decode_fields)

section \<open>Properties\<close>

text \<open>C8: The wire envelope makes the round trip through JSON: whatever bytes its names and ids hold, as long
  as they are valid UTF-8 (quotes, control characters and HTML characters included), and whatever
  JSON value its payload is encoded to, a message that one side marshals is decoded by the other side
  to exactly its name, its id and the text of its payload; an error text that is valid UTF-8 comes back unchanged.\<close>

theorem envelope_roundtrip:
  assumes "validUTF8 name" and "validUTF8 ident" and "enc d = Inr v" and "isValue v"
  shows "(\<exists>body. marshalEvent enc \<lparr>ev_Name = name, ev_EventID = ident, ev_Data = d\<rparr> = Inr body \<and>
      unmarshalEnvelope body = Some (emptyEnvelope\<lparr>env_Name := name, env_EventID := ident, env_Data := v\<rparr>)) \<and>
    (\<exists>body. marshalNotification enc \<lparr>n_Name = name, n_EventID = ident, n_Data = d\<rparr> = Inr body \<and>
      unmarshalEnvelope body = Some (emptyEnvelope\<lparr>env_Name := name, env_EventID := ident, env_Data := v\<rparr>)) \<and>
    (\<exists>body. marshalCommand enc \<lparr>cmd_Name = name, cmd_CommandID = ident, cmd_Data = d\<rparr> = Inr body \<and>
      unmarshalEnvelope body = Some (emptyEnvelope\<lparr>env_Name := name, env_CommandID := ident, env_Data := v\<rparr>)) \<and>
    (\<exists>body. marshalQuery enc \<lparr>q_Resource = name, q_QueryData = d\<rparr> = Inr body \<and>
      unmarshalEnvelope body = Some (emptyEnvelope\<lparr>env_Resource := name, env_QueryData := v\<rparr>)) \<and>
    unmarshalError (marshalError name) = Some name"
  using assms
  by (simp add: marshalEvent_def marshalNotification_def marshalCommand_def marshalQuery_def marshalError_def
      unmarshalEnvelope_def unmarshalError_def topMembers_marshal decode_fields)

theorem envelope_roundtrip_witness:
  "\<exists>body. marshalEvent (\<lambda>d. Inr d) \<lparr>ev_Name = [CHR 0x22, CHR 0x3C, char_of (0xC3 :: nat), char_of (0xA9 :: nat)], ev_EventID = ''id-1'',
      ev_Data = ''[1,{}]''\<rparr> = Inr body \<and>
    unmarshalEnvelope body = Some (emptyEnvelope\<lparr>env_Name := [CHR 0x22, CHR 0x3C, char_of (0xC3 :: nat), char_of (0xA9 :: nat)],
      env_EventID := ''id-1'', env_Data := ''[1,{}]''\<rparr>)"
proof -
  have "validUTF8 [CHR 0x22, CHR 0x3C, char_of (0xC3 :: nat), char_of (0xA9 :: nat)]" "validUTF8 ''id-1''" "isValue ''[1,{}]''"
    by code_simp+
  from envelope_roundtrip [OF this(1,2) _ this(3), where enc = "\<lambda>d. Inr d", OF refl] show ?thesis by blast
qed

end
