(* ===== verification/Rabbit_Events.thy ===== *)
theory Rabbit_Events
  imports Rabbit_Dispatch Rabbit_Topology Rabbit_Registry Rabbit_Config RC_JSON
begin

text \<open>
  Events over RabbitMQ, from the publisher's \<^verbatim>\<open>Emit\<close> to the subscriber's handler: the publisher's JSON
  envelope, the bindings the subscriber declares (\<^verbatim>\<open>application.go declareEvents\<close>), the dispatch of the
  delivery (\<^verbatim>\<open>eventlistener.go\<close>) and the handler lookup of the registry (\<^verbatim>\<open>registry.go\<close>). The broker's
  topic exchange is represented by the rule it documents.
\<close>

section \<open>Routing\<close>

text \<open>A publishing as the consumer of the queue it is routed to gets it.\<close>

definition toDelivery :: "publishing \<Rightarrow> delivery" where
  "toDelivery pb = \<lparr>d_Body = pb_Body pb, d_Headers = pb_Headers pb\<rparr>"

text \<open>A topic exchange routes to the queues bound with a key that matches the routing key.\<close>

definition topicRouted :: "amqpCall set \<Rightarrow> gostring \<Rightarrow> publishing \<Rightarrow> bool" where
  "topicRouted calls queue pb \<longleftrightarrow>
     (\<exists>k. QueueBind queue k (pb_Exchange pb) \<in> calls \<and>
        topic_match (splitOn separator k) (splitOn separator (pb_RoutingKey pb)))"

text \<open>A direct exchange routes by equality of the keys.\<close>

definition directRouted :: "amqpCall set \<Rightarrow> gostring \<Rightarrow> publishing \<Rightarrow> bool" where
  "directRouted calls queue pb \<longleftrightarrow> QueueBind queue (pb_RoutingKey pb) (pb_Exchange pb) \<in> calls"

lemma forEach_bind: "fst (forEach (BindQueue healthy q x) ks) = map (\<lambda>k. QueueBind q k x) ks"
  by (induction ks) (simp_all add: BindQueue_def nothing_def andThen_def attempt_def healthy_def)

text \<open>All bindings an application declares, part by part.\<close>

lemma plan_bindings:
  "QueueBind q k x \<in> set (topologyPlan a) \<longleftrightarrow>
    (let cfg = an_cfg a; evq = eventsQueue cfg; dq = (\<lambda>origin. origin @ ''.DLQ'')
     in an_EventNames a \<noteq> [] \<and> (q = evq \<and> k \<in> set (an_EventNames a) \<and> x = DomainEventsExchange cfg \<or>
          WithDLQRetry cfg \<and> k = ''#'' \<and> (q = dq evq \<and> x = EventsDLQExchange cfg \<or> q = evq \<and> x = EventsRetryExchange cfg)) \<or>
        an_CommandNames a \<noteq> [] \<and> k = AppName cfg \<and> (q = commandsQueue cfg \<and> x = DirectMessagesExchange cfg \<or>
          WithDLQRetry cfg \<and> q = dq (commandsQueue cfg) \<and> x = DirectDLQExchange cfg) \<or>
        an_QueryNames a \<noteq> [] \<and> k = queriesQueue cfg \<and> (q = queriesQueue cfg \<and> x = DirectMessagesExchange cfg \<or>
          WithDLQRetry cfg \<and> q = dq (queriesQueue cfg) \<and> x = DirectDLQExchange cfg) \<or>
        an_notificationQueueName a \<noteq> [] \<and> q = an_notificationQueueName a \<and> k \<in> set (an_NotificationNames a) \<and> x = DomainEventsExchange cfg \<or>
        q = an_replyQueueName a \<and> k = an_replyQueueName a \<and> x = GlobalReplyExchange cfg)"
proof -
  have x: "QueueBind q k x \<notin> set (fst (DeclareExchanges healthy (an_cfg a)))"
    by (simp add: DeclareExchanges_def nothing_def)
  have e: "QueueBind q k x \<in> set (fst (declareEvents healthy a)) \<longleftrightarrow> an_EventNames a \<noteq> [] \<and>
      (q = eventsQueue (an_cfg a) \<and> k \<in> set (an_EventNames a) \<and> x = DomainEventsExchange (an_cfg a) \<or> WithDLQRetry (an_cfg a) \<and> k = ''#'' \<and>
        (q = eventsQueue (an_cfg a) @ ''.DLQ'' \<and> x = EventsDLQExchange (an_cfg a) \<or> q = eventsQueue (an_cfg a) \<and> x = EventsRetryExchange (an_cfg a)))"
    by (auto simp: declareEvents_def DeclareEventsQueue_def DeclareEventsDLQRetry_def forEach_bind nothing_def Let_def)
  have c: "QueueBind q k x \<in> set (fst (declareCommands healthy a)) \<longleftrightarrow> an_CommandNames a \<noteq> [] \<and> k = AppName (an_cfg a) \<and>
      (q = commandsQueue (an_cfg a) \<and> x = DirectMessagesExchange (an_cfg a) \<or>
       WithDLQRetry (an_cfg a) \<and> q = commandsQueue (an_cfg a) @ ''.DLQ'' \<and> x = DirectDLQExchange (an_cfg a))"
    by (auto simp: declareCommands_def DeclareCommandsQueue_def DeclareDirectDLQRetry_def BindQueue_def nothing_def Let_def)
  have s: "QueueBind q k x \<in> set (fst (declareQueries healthy a)) \<longleftrightarrow> an_QueryNames a \<noteq> [] \<and> k = queriesQueue (an_cfg a) \<and>
      (q = queriesQueue (an_cfg a) \<and> x = DirectMessagesExchange (an_cfg a) \<or>
       WithDLQRetry (an_cfg a) \<and> q = queriesQueue (an_cfg a) @ ''.DLQ'' \<and> x = DirectDLQExchange (an_cfg a))"
    by (auto simp: declareQueries_def DeclareQueriesQueue_def DeclareDirectDLQRetry_def BindQueue_def nothing_def Let_def)
  have n: "QueueBind q k x \<in> set (fst (declareNotifications healthy a)) \<longleftrightarrow>
      an_notificationQueueName a \<noteq> [] \<and> q = an_notificationQueueName a \<and> k \<in> set (an_NotificationNames a) \<and> x = DomainEventsExchange (an_cfg a)"
    by (auto simp: declareNotifications_def DeclareTempQueue_def forEach_bind nothing_def)
  have r: "QueueBind q k x \<in> set (fst (declareReplies healthy a)) \<longleftrightarrow>
      q = an_replyQueueName a \<and> k = an_replyQueueName a \<and> x = GlobalReplyExchange (an_cfg a)"
    by (auto simp: declareReplies_def DeclareTempQueue_def BindQueue_def)
  show ?thesis using x e c s n r by (simp add: plan_parts Let_def)
qed

text \<open>The queue of the events is bound to the events exchange under the registered names and nothing else.\<close>

lemma event_bindings:
  assumes "an_notificationQueueName a \<noteq> eventsQueue (an_cfg a)" and "an_replyQueueName a \<noteq> eventsQueue (an_cfg a)"
  shows "QueueBind (eventsQueue (an_cfg a)) k (DomainEventsExchange (an_cfg a)) \<in> set (topologyPlan a) \<longleftrightarrow> k \<in> set (an_EventNames a)"
  using assms by (auto simp: plan_bindings eventsQueue_def commandsQueue_def queriesQueue_def EventsRetryExchange_def EventsDLQExchange_def Let_def)

text \<open>A binding key without wildcards matches itself only; every key matches itself.\<close>

lemma topic_match_refl: "topic_match ps ps"
  by (induction ps) (auto intro: topic_match.intros)

lemma topic_match_literal:
  "singleWordWildcard \<notin> set ps \<Longrightarrow> multipleWordWildcard \<notin> set ps \<Longrightarrow> topic_match ps ks \<longleftrightarrow> ps = ks"
  by (simp add: topic_match_starFits starFits_def)
    (induction ps arbitrary: ks; auto simp: list_all2_Cons1)

lemma no_wildcard_segments:
  assumes "\<not> HasWildcard p"
  shows "singleWordWildcard \<notin> set (splitOn separator p)" "multipleWordWildcard \<notin> set (splitOn separator p)"
  using assms splitOn_chars [of singleWordWildcard separator p] splitOn_chars [of multipleWordWildcard separator p]
  by (auto simp: HasWildcard_def wildcards list_ex_iff)

text \<open>The broker routes a name to the queue exactly when the registry has a handler for it.\<close>

lemma routed_iff_resolved:
  assumes "resolves m name r"
  shows "(\<exists>k \<in> dom m. topic_match (splitOn separator k) (splitOn separator name)) \<longleftrightarrow> r \<noteq> None"
proof -
  have "topic_match (splitOn separator k) (splitOn separator name) \<longleftrightarrow> k = name \<or> Matches name k" for k
  proof (cases "HasWildcard k")
    case True
    then show ?thesis using topic_match_refl by (auto simp: Matches_def matchSegments_iff)
  next
    case False
    then show ?thesis
      using topic_match_literal [OF no_wildcard_segments [OF False]] by (simp add: splitOn_inject Matches_def)
  qed
  then show ?thesis using resolves_None_iff [OF assms] by auto
qed

lemma event_routed:
  assumes sub: "registryReach reg" "keyOrder (eventHandlers reg) ks" "set (an_EventNames a) = dom (eventHandlers reg)"
    and queues: "an_notificationQueueName a \<noteq> eventsQueue (an_cfg a)" "an_replyQueueName a \<noteq> eventsQueue (an_cfg a)"
    and exchange: "pb_Exchange pb = DomainEventsExchange (an_cfg a)"
  shows "topicRouted (set (topologyPlan a)) (eventsQueue (an_cfg a)) pb \<longleftrightarrow> fst (EventHandler reg ks (pb_RoutingKey pb)) \<noteq> None"
proof -
  have "resolves (eventHandlers reg) (pb_RoutingKey pb) (fst (EventHandler reg ks (pb_RoutingKey pb)))"
    by (rule rabbitEventLookup.lookup_resolves [OF rabbitRegistry.reach_inv [OF sub(1)] sub(2)])
  moreover have "topicRouted (set (topologyPlan a)) (eventsQueue (an_cfg a)) pb \<longleftrightarrow>
      (\<exists>k \<in> dom (eventHandlers reg). topic_match (splitOn separator k) (splitOn separator (pb_RoutingKey pb)))"
    using event_bindings [OF queues] exchange sub(3) by (auto simp: topicRouted_def)
  ultimately show ?thesis using routed_iff_resolved by blast
qed

section \<open>Properties\<close>

text \<open>What the subscriber does with a delivery whose handler ran.\<close>

definition settlementOf :: "Config \<Rightarrow> unit hresult \<Rightarrow> settlement" where
  "settlementOf cfg res = (case res of HOk u \<Rightarrow> Ack | _ \<Rightarrow> Nack (\<not> WithDLQRetry cfg))"

text \<open>C6: An event emitted over RabbitMQ reaches the right handler: the one message published is persistent as
  configured and waits for its confirm; the broker routes it to the subscriber's event queue exactly
  when the subscriber has a handler for its name, registered under that name or a matching pattern;
  and the subscriber's listener hands the handler the name, the id and the payload text of the
  emitted event and settles the delivery by the outcome.\<close>

theorem rabbit_event_delivery:
  assumes event: "validUTF8 (ev_Name ev)" "validUTF8 (ev_EventID ev)" "enc (ev_Data ev) = Inr v" "isValue v"
    and sub: "registryReach reg" "keyOrder (eventHandlers reg) ks" "set (an_EventNames a) = dom (eventHandlers reg)"
    and queues: "an_notificationQueueName a \<noteq> eventsQueue (an_cfg a)" "an_replyQueueName a \<noteq> eventsQueue (an_cfg a)"
    and exchange: "DomainEventsExchange (an_cfg a) = DomainEventsExchange cfg"
  shows "\<exists>pb. Emit (marshalEvent enc) send cfg ctx ev = (send pb, [pb]) \<and> pb_Confirm pb \<and> pb_Persistent pb = PersistentEvents cfg \<and>
    (topicRouted (set (topologyPlan a)) (eventsQueue (an_cfg a)) pb \<longleftrightarrow> fst (EventHandler reg ks (ev_Name ev)) \<noteq> None) \<and>
    (\<forall>h. fst (EventHandler reg ks (ev_Name ev)) = Some h \<longrightarrow>
       eventDispatch (jsonEnvelope err) (an_cfg a) (\<lambda>n. fst (EventHandler reg ks n)) (toDelivery pb) =
         [settlementOf (an_cfg a) (h \<lparr>ev_Name = ev_Name ev, ev_EventID = ev_EventID ev, ev_Data = v\<rparr>)])"
proof -
  obtain body where body: "marshalEvent enc ev = Inr body"
    "unmarshalEnvelope body = Some (emptyEnvelope\<lparr>env_Name := ev_Name ev, env_EventID := ev_EventID ev, env_Data := v\<rparr>)"
    using event_decodes [where enc = enc and ev = ev and v = v, OF event] by blast
  let ?pb = "SendWithConfirm ctx body (DomainEventsExchange cfg) (ev_Name ev) [hdr_SourceApplication \<mapsto> HString (AppName cfg)] (PersistentEvents cfg)"
  have emit: "Emit (marshalEvent enc) send cfg ctx ev = (send ?pb, [?pb])"
    using body(1) by (simp add: Emit_def ToMessage_def Let_def)
  have routed: "topicRouted (set (topologyPlan a)) (eventsQueue (an_cfg a)) ?pb \<longleftrightarrow> fst (EventHandler reg ks (ev_Name ev)) \<noteq> None"
    using event_routed [OF sub queues, of ?pb] exchange by (simp add: SendWithConfirm_def)
  have "eventDispatch (jsonEnvelope err) (an_cfg a) (\<lambda>n. fst (EventHandler reg ks n)) (toDelivery ?pb) =
      [settlementOf (an_cfg a) (h \<lparr>ev_Name = ev_Name ev, ev_EventID = ev_EventID ev, ev_Data = v\<rparr>)]"
    if "fst (EventHandler reg ks (ev_Name ev)) = Some h" for h
    using that body(2)
    by (simp add: eventDispatch_def dispatchEnvelope_def runEnvelopeHandler_def toDelivery_def SendWithConfirm_def jsonEnvelope_def
        emptyEnvelope_def settlementOf_def Let_def split: hresult.split)
  then show ?thesis using emit routed by (intro exI [of _ ?pb]) (auto simp: SendWithConfirm_def)
qed

text \<open>C18: A command sent over RabbitMQ reaches the service it names: the one message published is persistent as
  configured and waits for its confirm; the service's command queue is bound to its exchange and key
  whenever the service has command handlers; the service's listener hands the command to the handler
  registered under its name, or else to one registered under a matching pattern, with the id and the
  payload text that were sent, and settles the delivery by the outcome; a command without such a
  handler is acknowledged and dropped.\<close>

theorem rabbit_command_delivery:
  assumes command: "validUTF8 (cmd_Name cmd)" "validUTF8 (cmd_CommandID cmd)" "enc (cmd_Data cmd) = Inr v" "isValue v"
    and service: "registryReach reg" "keyOrder (cmdHandlers reg) ks" "an_CommandNames a \<noteq> []" "AppName (an_cfg a) = target"
    and exchange: "DirectMessagesExchange (an_cfg a) = DirectMessagesExchange (gw_cfg g)"
  shows "\<exists>pb. SendCommand (marshalCommand enc) send g ctx cmd target = (send pb, [pb]) \<and> pb_Confirm pb \<and>
    pb_Persistent pb = PersistentCommands (gw_cfg g) \<and>
    QueueBind (commandsQueue (an_cfg a)) (pb_RoutingKey pb) (pb_Exchange pb) \<in> set (topologyPlan a) \<and>
    (case fst (CommandHandler reg ks (cmd_Name cmd)) of
       None \<Rightarrow> cmdHandlers reg (cmd_Name cmd) = None \<and> (\<forall>p \<in> dom (cmdHandlers reg). \<not> Matches (cmd_Name cmd) p) \<and>
         commandDispatch (jsonEnvelope err) (an_cfg a) (\<lambda>n. fst (CommandHandler reg ks n)) (toDelivery pb) =
           [Ack]
     | Some h \<Rightarrow> (\<exists>p. cmdHandlers reg p = Some h \<and> (p = cmd_Name cmd \<or> cmdHandlers reg (cmd_Name cmd) = None \<and> Matches (cmd_Name cmd) p)) \<and>
         commandDispatch (jsonEnvelope err) (an_cfg a) (\<lambda>n. fst (CommandHandler reg ks n)) (toDelivery pb) =
           [settlementOf (an_cfg a) (h \<lparr>cmd_Name = cmd_Name cmd, cmd_CommandID = cmd_CommandID cmd, cmd_Data = v\<rparr>)])"
proof -
  let ?lookup = "\<lambda>n. fst (CommandHandler reg ks n)" and ?env = "emptyEnvelope\<lparr>env_Name := cmd_Name cmd, env_CommandID := cmd_CommandID cmd, env_Data := v\<rparr>"
  obtain body where body: "marshalCommand enc cmd = Inr body" "unmarshalEnvelope body = Some ?env"
    using command_decodes [where enc = enc and cmd = cmd and v = v, OF command] by blast
  let ?pb = "SendWithConfirm ctx body (DirectMessagesExchange (gw_cfg g)) target [hdr_SourceApplication \<mapsto> HString (AppName (gw_cfg g))]
    (PersistentCommands (gw_cfg g))"
  have send: "SendCommand (marshalCommand enc) send g ctx cmd target = (send ?pb, [?pb])"
    using body(1) by (simp add: SendCommand_def ToMessage_def Let_def)
  have res: "resolves (cmdHandlers reg) (cmd_Name cmd) (?lookup (cmd_Name cmd))"
    by (rule rabbitCommandLookup.lookup_resolves [OF rabbitRegistry.reach_inv [OF service(1)] service(2)])
  have bound: "QueueBind (commandsQueue (an_cfg a)) target (DirectMessagesExchange (gw_cfg g)) \<in> set (topologyPlan a)"
    using service(3,4) exchange by (simp add: plan_bindings Let_def)
  have dispatch: "commandDispatch (jsonEnvelope err) (an_cfg a) ?lookup (toDelivery ?pb) =
      [case ?lookup (cmd_Name cmd) of None \<Rightarrow> Ack
       | Some h \<Rightarrow> settlementOf (an_cfg a) (h \<lparr>cmd_Name = cmd_Name cmd, cmd_CommandID = cmd_CommandID cmd, cmd_Data = v\<rparr>)]"
    using body(2)
    by (simp add: commandDispatch_def dispatchEnvelope_def runEnvelopeHandler_def toDelivery_def SendWithConfirm_def jsonEnvelope_def
        emptyEnvelope_def settlementOf_def Let_def split: hresult.split option.split)
  have "pb_Confirm ?pb" "pb_Persistent ?pb = PersistentCommands (gw_cfg g)" "pb_RoutingKey ?pb = target" "pb_Exchange ?pb = DirectMessagesExchange (gw_cfg g)"
    by (simp_all add: SendWithConfirm_def)
  then show ?thesis using send bound dispatch resolves_None_iff [OF res] resolves_SomeD [of "cmdHandlers reg" "cmd_Name cmd"] res
    by (intro exI [of _ ?pb]) (auto split: option.split)
qed

text \<open>A subscriber with one pattern, as an application builds it.\<close>

definition exampleConfig :: Config where
  "exampleConfig = toInternalConfig 0 ((NewConfigWithDefaults 0)\<lparr>rc_AppName := ''accounts''\<rparr>)"

definition exampleSubscriber :: "(eventHandler, unit, unit, unit) rabbitRegistry" where
  "exampleSubscriber = newHandlerRegistry\<lparr>eventHandlers := [''order.*'' \<mapsto> (\<lambda>ev. if ev_Data ev = ''{}'' then HOk () else HPanic ''payload'')]\<rparr>"

definition exampleSubscriberApp :: appNames where
  "exampleSubscriberApp = \<lparr>an_cfg = exampleConfig, an_EventNames = [''order.*''], an_CommandNames = [], an_QueryNames = [],
     an_NotificationNames = [], an_notificationQueueName = [], an_replyQueueName = []\<rparr>"

lemma exampleSubscriber_reach: "registryReach exampleSubscriber"
proof -
  have "ListenEvent newHandlerRegistry ''order.*'' (\<lambda>ev. if ev_Data ev = ''{}'' then HOk () else HPanic ''payload'') = Inr exampleSubscriber"
    by (simp add: op_defs exampleSubscriber_def newHandlerRegistry_def)
  then show ?thesis by (intro reach_step [OF reach_init] listen_event) auto
qed

theorem rabbit_event_delivery_witness:
  "\<exists>pb. Emit (marshalEvent (\<lambda>d. Inr d)) (\<lambda>_. None) exampleConfig None
      \<lparr>ev_Name = ''order.created'', ev_EventID = ''7'', ev_Data = ''{}''\<rparr> = (None, [pb]) \<and>
    topicRouted (set (topologyPlan exampleSubscriberApp)) (eventsQueue exampleConfig) pb \<and>
    eventDispatch (jsonEnvelope (\<lambda>_. ''syntax error'')) exampleConfig
      (\<lambda>n. fst (EventHandler exampleSubscriber [''order.*''] n)) (toDelivery pb) = [Ack]"
proof -
  let ?ev = "\<lparr>ev_Name = ''order.created'', ev_EventID = ''7'', ev_Data = ''{}''\<rparr>" and ?a = exampleSubscriberApp
  have h: "fst (EventHandler exampleSubscriber [''order.*''] ''order.created'') =
      Some (\<lambda>ev. if ev_Data ev = ''{}'' then HOk () else HPanic ''payload'')"
  proof -
    have "resolvePattern ''order.created'' [''order.*''] = ''order.*''" by code_simp
    then show ?thesis
      by (simp add: lookup_ops exampleSubscriber_def newHandlerRegistry_def readPath_def writePath_def cacheGet_def keysOf_def
          copyKeys_def rangeKeys_def Let_def)
  qed
  have json: "validUTF8 ''order.created''" "validUTF8 ''7''" "isValue ''{}''"
    by code_simp+
  have names: "set (an_EventNames ?a) = dom (eventHandlers exampleSubscriber)" "keyOrder (eventHandlers exampleSubscriber) [''order.*'']"
    by (auto simp: exampleSubscriberApp_def exampleSubscriber_def keyOrder_def newHandlerRegistry_def)
  have app: "an_cfg ?a = exampleConfig" "an_notificationQueueName ?a \<noteq> eventsQueue (an_cfg ?a)" "an_replyQueueName ?a \<noteq> eventsQueue (an_cfg ?a)"
    by (simp_all add: exampleSubscriberApp_def eventsQueue_def)
  show ?thesis
    using rabbit_event_delivery [where enc = "\<lambda>d. Inr d" and ev = ?ev and v = "''{}''" and cfg = exampleConfig and send = "\<lambda>_. None" and
        ctx = None and reg = exampleSubscriber and ks = "[''order.*'']" and a = ?a and err = "\<lambda>_. ''syntax error''"]
      json names app exampleSubscriber_reach h
    by (auto simp: settlementOf_def)
qed

text \<open>A service whose only command handler rejects every command.\<close>

definition exampleCommands :: "(unit, commandHandler, unit, unit) rabbitRegistry" where
  "exampleCommands = newHandlerRegistry\<lparr>cmdHandlers := [''pay'' \<mapsto> (\<lambda>c. HErr (ErrOther (cmd_Data c)))]\<rparr>"

lemma exampleCommands_reach: "registryReach exampleCommands"
proof -
  have "ListenCommand newHandlerRegistry ''pay'' (\<lambda>c. HErr (ErrOther (cmd_Data c))) = Inr exampleCommands"
    by (simp add: op_defs exampleCommands_def newHandlerRegistry_def)
  then show ?thesis by (intro reach_step [OF reach_init] listen_command) auto
qed

theorem rabbit_command_delivery_witness:
  "\<exists>pb. SendCommand (marshalCommand (\<lambda>d. Inr d)) (\<lambda>_. None) (newGateway exampleConfig) None
      \<lparr>cmd_Name = ''pay'', cmd_CommandID = ''9'', cmd_Data = ''{}''\<rparr> ''accounts'' = (None, [pb]) \<and>
    QueueBind ''accounts'' (pb_RoutingKey pb) (pb_Exchange pb) \<in> set (topologyPlan (exampleSubscriberApp\<lparr>an_CommandNames := [''pay'']\<rparr>)) \<and>
    commandDispatch (jsonEnvelope (\<lambda>_. ''syntax error'')) exampleConfig
      (\<lambda>n. fst (CommandHandler exampleCommands [''pay''] n)) (toDelivery pb) = [Nack True]"
proof -
  let ?c = "\<lparr>cmd_Name = ''pay'', cmd_CommandID = ''9'', cmd_Data = ''{}''\<rparr>" and ?a = "exampleSubscriberApp\<lparr>an_CommandNames := [''pay'']\<rparr>"
  have h: "fst (CommandHandler exampleCommands [''pay''] ''pay'') = Some (\<lambda>c. HErr (ErrOther (cmd_Data c)))"
    by (simp add: lookup_ops readPath_def exampleCommands_def newHandlerRegistry_def)
  have json: "validUTF8 ''pay''" "validUTF8 ''9''" "isValue ''{}''"
    by code_simp+
  have names: "keyOrder (cmdHandlers exampleCommands) [''pay'']"
    by (auto simp: exampleCommands_def keyOrder_def newHandlerRegistry_def)
  have cfg: "AppName exampleConfig = ''accounts''" "\<not> WithDLQRetry exampleConfig" "commandsQueue exampleConfig = ''accounts''"
    by (simp_all add: exampleConfig_def toInternalConfig_def NewConfigWithDefaults_def commandsQueue_def)
  show ?thesis
    using rabbit_command_delivery [where enc = "\<lambda>d. Inr d" and cmd = ?c and v = "''{}''" and g = "newGateway exampleConfig" and
        send = "\<lambda>_. None" and ctx = None and reg = exampleCommands and ks = "[''pay'']" and a = ?a and err = "\<lambda>_. ''syntax error''" and
        target = "''accounts''"] json names cfg exampleCommands_reach h
    by (auto simp: settlementOf_def exampleSubscriberApp_def newGateway_def)
qed

end
