(* ===== verification/Rabbit_Queries.thy ===== *)
theory Rabbit_Queries
  imports Rabbit_Events
begin

text \<open>
  Queries over RabbitMQ end to end: \<^verbatim>\<open>RequestReply\<close> of the caller (\<^verbatim>\<open>gateway.go\<close>), the bindings of the service and
  its dispatch (\<^verbatim>\<open>querylistener.go\<close>), the reply it publishes and the caller's reply listener and reply router
  (\<^verbatim>\<open>replylistener.go\<close>, \<^verbatim>\<open>replyrouter.go\<close>), first over any codec, then in JSON text.
\<close>

section \<open>Transport\<close>

text \<open>What the caller gets for the result of the service's handler.\<close>

definition rabbitResult :: "('r \<Rightarrow> bytes) \<Rightarrow> 'r option hresult \<Rightarrow> goerror + bytes option" where
  "rabbitResult enc res =
     (case res of
        HOk v \<Rightarrow> Inr (map_option enc v)
      | HErr e \<Rightarrow> Inl (ErrOther (''reactive-commons: query handler error: '' @ errorText e))
      | HPanic p \<Rightarrow> Inl ErrQueryTimeout)"

lemma Reply_publishing:
  "snd (Reply (\<lambda>v. Inr (enc v)) send g ctx v fr) =
     [SendWithConfirm ctx (case v of None \<Rightarrow> ''null'' | Some r \<Rightarrow> enc r) (GlobalReplyExchange (gw_cfg g)) (ReplyID fr)
        ([hdr_CorrelationID \<mapsto> HString (CorrelationID fr), hdr_SourceApplication \<mapsto> HString (AppName (gw_cfg g))] ++
         (if v = None then [hdr_CompletionOnlySignal \<mapsto> HString ''true''] else Map.empty)) False]"
  by (cases v) (simp_all add: Reply_def Let_def)

lemma bind_in_plan:
  "an_QueryNames a \<noteq> [] \<Longrightarrow>
     QueueBind (queriesQueue (an_cfg a)) (queriesQueue (an_cfg a)) (DirectMessagesExchange (an_cfg a)) \<in> set (topologyPlan a)"
  "QueueBind (an_replyQueueName a) (an_replyQueueName a) (GlobalReplyExchange (an_cfg a)) \<in> set (topologyPlan a)"
  by (simp_all add: plan_bindings Let_def)

text \<open>A reply that is routed to its waiting caller.\<close>

lemma await_reply:
  assumes "cid \<noteq> []" and "ReplyRouter.Register cid rs = (ch, rs1)" and "headerString (d_Headers d) hdr_CorrelationID = cid"
  shows "AwaitReply em (buffer (replyRoute d rs1) ch) =
    AwaitReply em (Some \<lparr>p_Body = d_Body d, p_IsError = (headerString (d_Headers d) hdr_ReplyError = ''true''),
      p_IsEmpty = (headerString (d_Headers d) hdr_CompletionOnlySignal = ''true'')\<rparr>)"
proof -
  have "channels rs1 cid = Some ch" "buffer rs1 ch = None"
    using assms(2) by (auto simp: Register_def Let_def)
  then show ?thesis
    using assms(1,3) by (simp add: replyRoute_def Route_def Route_load_def Route_send_def Let_def)
qed

lemma serve_result:
  assumes "unmarshal (d_Body d) = Inr env" and "lookup (env_Resource env) = Some h"
    and "headerString (d_Headers d) hdr_CorrelationID = cid" and "headerString (d_Headers d) hdr_ReplyID = rid"
    and "res = h \<lparr>q_Resource = env_Resource env, q_QueryData = env_QueryData env\<rparr> \<lparr>CorrelationID = cid, ReplyID = rid\<rparr>"
    and "cid \<noteq> []" and "ReplyRouter.Register cid rs = (ch, rs1)" and "\<And>e. res = HErr e \<Longrightarrow> em (encError (errorText e)) = Some (errorText e)"
  shows "AwaitReply em (buffer (fold replyRoute (map toDelivery (snd (queryDispatch unmarshal (\<lambda>v. Inr (enc v))
      (\<lambda>t. Inr (encError t)) send g now ctx lookup d))) rs1) ch) = rabbitResult enc res"
proof -
  have empty: "buffer rs1 ch = None" using assms(7) by (auto simp: Register_def Let_def)
  show ?thesis
  proof (cases res)
    case (HOk v)
    then show ?thesis
      using assms(1-5)
      by (cases v; simp add: queryDispatch_def queryHandle_def Reply_publishing SendWithConfirm_def toDelivery_def
          await_reply [OF assms(6,7)] headerString_def header_names Let_def)
        (simp_all add: AwaitReply_def rabbitResult_def)
  next
    case (HErr e)
    then show ?thesis
      using assms(1-5)
      by (simp add: queryDispatch_def queryHandle_def replyError_def SendWithConfirm_def toDelivery_def
          await_reply [OF assms(6,7)] headerString_def header_names Let_def)
        (simp add: AwaitReply_def rabbitResult_def assms(8) [OF HErr])
  next
    case (HPanic p)
    then show ?thesis
      using assms(1-5) empty by (simp add: queryDispatch_def queryHandle_def rabbitResult_def AwaitReply_def Let_def)
  qed
qed

text \<open>The round trip of a query, whatever the encoding of messages and errors.\<close>

lemma rabbit_query_transport:
  assumes gw: "gw_replyQueue g \<noteq> []" "gw_hasRouter g" "uuid \<noteq> []"
    and query: "marshal query = Inr body" "\<And>pb. send pb = None"
    and wire: "unmarshal body = Inr env" "lookup (env_Resource env) = Some h"
    and codec: "\<And>e. res = HErr e \<Longrightarrow> errorMessage (encError (errorText e)) = Some (errorText e)"
    and service: "serve = queryDispatch unmarshal (\<lambda>v. Inr (enc v)) (\<lambda>t. Inr (encError t)) ssend sg snow sctx lookup"
    and res: "res = h \<lparr>q_Resource = env_Resource env, q_QueryData = env_QueryData env\<rparr>
          \<lparr>CorrelationID = uuid, ReplyID = gw_replyQueue g\<rparr>"
    and caller: "an_cfg callerApp = gw_cfg g" "an_replyQueueName callerApp = gw_replyQueue g"
    and answerer: "an_cfg serviceApp = gw_cfg sg" "AppName (gw_cfg sg) = target" "an_QueryNames serviceApp \<noteq> []"
    and exchanges: "DirectMessagesExchange (gw_cfg sg) = DirectMessagesExchange (gw_cfg g)"
      "GlobalReplyExchange (gw_cfg sg) = GlobalReplyExchange (gw_cfg g)"
  shows "\<exists>pb rs'. RequestReply marshal errorMessage send
        (\<lambda>pb rs. fold replyRoute (map toDelivery (snd (serve (toDelivery pb)))) rs) now uuid g ctx query target rs =
        (rabbitResult enc res, [pb], rs') \<and> channels rs' uuid = None \<and>
      QueueBind (queriesQueue (gw_cfg sg)) (pb_RoutingKey pb) (pb_Exchange pb) \<in> set (topologyPlan serviceApp) \<and>
      fst (serve (toDelivery pb)) = [case res of HPanic p \<Rightarrow> Nack (\<not> WithDLQRetry (gw_cfg sg)) | _ \<Rightarrow> Ack] \<and>
      (\<forall>r \<in> set (snd (serve (toDelivery pb))).
         QueueBind (gw_replyQueue g) (pb_RoutingKey r) (pb_Exchange r) \<in> set (topologyPlan callerApp))"
proof -
  let ?hs = "queryHeaders g uuid (q_Resource query) (timeoutMs now (requestCtx g now ctx))"
  let ?pb = "SendWithConfirm (requestCtx g now ctx) body (DirectMessagesExchange (gw_cfg g)) (target @ ''.query'') ?hs
      (PersistentQueries (gw_cfg g))"
  obtain ch rs1 where reg: "ReplyRouter.Register uuid rs = (ch, rs1)" by fastforce
  have d: "unmarshal (d_Body (toDelivery ?pb)) = Inr env" "headerString (d_Headers (toDelivery ?pb)) hdr_CorrelationID = uuid"
    "headerString (d_Headers (toDelivery ?pb)) hdr_ReplyID = gw_replyQueue g"
    using wire(1) by (simp_all add: toDelivery_def SendWithConfirm_def headerString_def)
  have result: "AwaitReply errorMessage (buffer (fold replyRoute (map toDelivery (snd (serve (toDelivery ?pb)))) rs1) ch) =
      rabbitResult enc res"
    unfolding service by (rule serve_result [where d = "toDelivery ?pb" and unmarshal = unmarshal and lookup = lookup, OF d(1) wire(2) d(2,3) res gw(3) reg]) (rule codec)
  have settled: "fst (serve (toDelivery ?pb)) = [case res of HPanic p \<Rightarrow> Nack (\<not> WithDLQRetry (gw_cfg sg)) | _ \<Rightarrow> Ack]"
    unfolding service using d wire(2) res
    by (simp add: queryDispatch_def queryHandle_def dispatchEnvelope_def Let_def split: hresult.split)
  have replies: "pb_RoutingKey r = gw_replyQueue g \<and> pb_Exchange r = GlobalReplyExchange (gw_cfg g)"
    if "r \<in> set (snd (serve (toDelivery ?pb)))" for r
    using that d wire(2) exchanges unfolding service
    by (auto simp: queryDispatch_def queryHandle_def Reply_publishing replyError_def SendWithConfirm_def Let_def
        split: hresult.splits)
  have "QueueBind (queriesQueue (gw_cfg sg)) (pb_RoutingKey ?pb) (pb_Exchange ?pb) \<in> set (topologyPlan serviceApp)"
    using bind_in_plan(1) [OF answerer(3)] answerer(1,2) exchanges by (simp add: SendWithConfirm_def queriesQueue_def)
  moreover have "QueueBind (gw_replyQueue g) (pb_RoutingKey r) (pb_Exchange r) \<in> set (topologyPlan callerApp)"
    if "r \<in> set (snd (serve (toDelivery ?pb)))" for r
    using bind_in_plan(2) [of callerApp] caller replies [OF that] by simp
  moreover have "RequestReply marshal errorMessage send
        (\<lambda>pb rs. fold replyRoute (map toDelivery (snd (serve (toDelivery pb)))) rs) now uuid g ctx query target rs =
        (rabbitResult enc res, [?pb], Deregister uuid (fold replyRoute (map toDelivery (snd (serve (toDelivery ?pb)))) rs1))"
    using gw query reg result by (simp add: RequestReply_def ToMessage_def Let_def)
  ultimately show ?thesis using settled by (auto simp: Deregister_def)
qed

section \<open>Properties\<close>

text \<open>C3: A query over RabbitMQ makes the round trip: the one message the caller publishes is routed, by the
  bindings the service declares, to the service's query queue; the service settles it by the outcome
  of its handler and every reply it publishes is routed, by the bindings the caller declares, to the
  caller's reply queue; the call returns exactly what the handler answered (its value, nothing for a
  completion-only answer, or its error text), and times out when the handler panicked, in which case
  the delivery was nacked by the retry policy. No registration is left behind.\<close>

theorem rabbit_query_roundtrip:
  assumes gw: "gw_replyQueue g \<noteq> []" "gw_hasRouter g" "uuid \<noteq> []"
    and query: "validUTF8 (q_Resource query)" "encQ (q_QueryData query) = Inr v" "isValue v" "\<And>pb. send pb = None"
    and handler: "lookup (q_Resource query) = Some h"
    and texts: "\<And>e. res = HErr e \<Longrightarrow> validUTF8 (errorText e)"
    and service: "serve = queryDispatch (jsonEnvelope err) (\<lambda>r. Inr (enc r)) (\<lambda>t. Inr (marshalError t)) ssend sg snow sctx lookup"
    and res: "res = h \<lparr>q_Resource = q_Resource query, q_QueryData = v\<rparr> \<lparr>CorrelationID = uuid, ReplyID = gw_replyQueue g\<rparr>"
    and caller: "an_cfg callerApp = gw_cfg g" "an_replyQueueName callerApp = gw_replyQueue g"
    and answerer: "an_cfg serviceApp = gw_cfg sg" "AppName (gw_cfg sg) = target" "an_QueryNames serviceApp \<noteq> []"
    and exchanges: "DirectMessagesExchange (gw_cfg sg) = DirectMessagesExchange (gw_cfg g)"
      "GlobalReplyExchange (gw_cfg sg) = GlobalReplyExchange (gw_cfg g)"
  shows "\<exists>pb rs'. RequestReply (marshalQuery encQ) unmarshalError send
        (\<lambda>pb rs. fold replyRoute (map toDelivery (snd (serve (toDelivery pb)))) rs) now uuid g ctx query target rs =
        (rabbitResult enc res, [pb], rs') \<and> channels rs' uuid = None \<and>
      QueueBind (queriesQueue (gw_cfg sg)) (pb_RoutingKey pb) (pb_Exchange pb) \<in> set (topologyPlan serviceApp) \<and>
      fst (serve (toDelivery pb)) = [case res of HPanic p \<Rightarrow> Nack (\<not> WithDLQRetry (gw_cfg sg)) | _ \<Rightarrow> Ack] \<and>
      (\<forall>r \<in> set (snd (serve (toDelivery pb))).
         QueueBind (gw_replyQueue g) (pb_RoutingKey r) (pb_Exchange r) \<in> set (topologyPlan callerApp))"
proof -
  let ?env = "emptyEnvelope\<lparr>env_Resource := q_Resource query, env_QueryData := v\<rparr>"
  obtain body where body: "marshalQuery encQ query = Inr body" "unmarshalEnvelope body = Some ?env"
    using query_decodes [where enc = encQ and q = query and v = v, OF query(1-3)] by blast
  have wire: "jsonEnvelope err body = Inr ?env" "lookup (env_Resource ?env) = Some h"
    using body(2) handler by (simp_all add: jsonEnvelope_def)
  have codec: "unmarshalError (marshalError (errorText e)) = Some (errorText e)" if "res = HErr e" for e
    using error_decodes texts [OF that] .
  have res': "res = h \<lparr>q_Resource = env_Resource ?env, q_QueryData = env_QueryData ?env\<rparr>
      \<lparr>CorrelationID = uuid, ReplyID = gw_replyQueue g\<rparr>"
    by (simp add: res)
  show ?thesis
    by (rule rabbit_query_transport [where marshal = "marshalQuery encQ" and errorMessage = unmarshalError and
          encError = marshalError and unmarshal = "jsonEnvelope err" and lookup = lookup and h = h and env = ?env and
          body = body and send = send and enc = enc and res = res and serve = serve])
      (fact gw body(1) query(4) wire codec service res' caller answerer exchanges)+
qed

definition exampleService :: gateway where
  "exampleService = newGateway (toInternalConfig 0 ((NewConfigWithDefaults 0)\<lparr>rc_AppName := ''accounts''\<rparr>))"

definition exampleApp :: "gateway \<Rightarrow> gostring list \<Rightarrow> appNames" where
  "exampleApp g qs = \<lparr>an_cfg = gw_cfg g, an_EventNames = [], an_CommandNames = [], an_QueryNames = qs, an_NotificationNames = [],
     an_notificationQueueName = [], an_replyQueueName = gw_replyQueue g\<rparr>"

theorem rabbit_query_roundtrip_witness:
  "\<exists>pb rs'. RequestReply (marshalQuery (\<lambda>d. Inr d)) unmarshalError (\<lambda>_. None)
      (\<lambda>pb rs. fold replyRoute (map toDelivery (snd (queryDispatch (jsonEnvelope (\<lambda>_. ''syntax error'')) (\<lambda>v. Inr v)
         (\<lambda>t. Inr (marshalError t)) (\<lambda>_. None) exampleService 0 None [''r'' \<mapsto> (\<lambda>q fr. HErr (ErrOther ''no funds''))] (toDelivery pb)))) rs)
      0 ''id-1'' exampleGateway None \<lparr>q_Resource = ''r'', q_QueryData = ''{}''\<rparr> ''accounts'' NewReplyRouter =
    (Inl (ErrOther ''reactive-commons: query handler error: no funds''), [pb], rs') \<and> channels rs' ''id-1'' = None"
proof -
  let ?h = "\<lambda>q fr. HErr (ErrOther ''no funds'') :: bytes option hresult"
  let ?serve = "queryDispatch (jsonEnvelope (\<lambda>_. ''syntax error'')) (\<lambda>v. Inr v) (\<lambda>t. Inr (marshalError t)) (\<lambda>_. None) exampleService 0 None
    [''r'' \<mapsto> ?h]"
  have g: "gw_replyQueue exampleGateway \<noteq> []" "gw_hasRouter exampleGateway"
    by (simp_all add: exampleGateway_def withReplySupport_def)
  have cfg: "AppName (gw_cfg exampleService) = ''accounts''"
    "DirectMessagesExchange (gw_cfg exampleService) = DirectMessagesExchange (gw_cfg exampleGateway)"
    "GlobalReplyExchange (gw_cfg exampleService) = GlobalReplyExchange (gw_cfg exampleGateway)"
    by (simp_all add: exampleService_def exampleGateway_def withReplySupport_def newGateway_def toInternalConfig_def NewConfigWithDefaults_def)
  have json: "validUTF8 ''r''" "validUTF8 ''no funds''" "isValue ''{}''" by code_simp+
  have "\<exists>pb rs'. RequestReply (marshalQuery (\<lambda>d. Inr d)) unmarshalError (\<lambda>_. None)
        (\<lambda>pb rs. fold replyRoute (map toDelivery (snd (?serve (toDelivery pb)))) rs) 0 ''id-1'' exampleGateway None
        \<lparr>q_Resource = ''r'', q_QueryData = ''{}''\<rparr> ''accounts'' NewReplyRouter =
        (rabbitResult (\<lambda>b. b) (?h undefined undefined), [pb], rs') \<and> channels rs' ''id-1'' = None \<and>
      QueueBind (queriesQueue (gw_cfg exampleService)) (pb_RoutingKey pb) (pb_Exchange pb) \<in> set (topologyPlan (exampleApp exampleService [''r''])) \<and>
      fst (?serve (toDelivery pb)) = [case ?h undefined undefined of HPanic p \<Rightarrow> Nack (\<not> WithDLQRetry (gw_cfg exampleService)) | _ \<Rightarrow> Ack] \<and>
      (\<forall>r \<in> set (snd (?serve (toDelivery pb))).
         QueueBind (gw_replyQueue exampleGateway) (pb_RoutingKey r) (pb_Exchange r) \<in> set (topologyPlan (exampleApp exampleGateway [])))"
    by (rule rabbit_query_roundtrip [where uuid = "''id-1''" and encQ = "\<lambda>d. Inr d" and err = "\<lambda>_. ''syntax error''" and
          lookup = "[''r'' \<mapsto> ?h]" and h = ?h and target = "''accounts''" and v = "''{}''" and
          ssend = "\<lambda>_. None" and sg = exampleService and snow = 0 and sctx = None and g = exampleGateway and
          send = "\<lambda>_. None" and enc = "\<lambda>b. b" and
          serve = ?serve and res = "HErr (ErrOther ''no funds'')" and callerApp = "exampleApp exampleGateway []" and
          serviceApp = "exampleApp exampleService [''r'']" and query = "\<lparr>q_Resource = ''r'', q_QueryData = ''{}''\<rparr>" and now = 0 and
          ctx = None and rs = NewReplyRouter, OF g _ _ _ _ _ _ _ refl])
      (use cfg json in \<open>simp_all add: exampleApp_def\<close>)
  then show ?thesis by (auto simp: rabbitResult_def)
qed

end
