(* ===== verification/RC_Names.thy ===== *)
theory RC_Names
  imports RC_Prelude
begin

text \<open>
  Queue names (\<^verbatim>\<open>internal/utils/namegen.go\<close>): the fixed suffix, and the temporary name with a URL-safe
  base64 UUID. \<^verbatim>\<open>encoding/base64\<close> without padding is modelled on bytes as numbers below 256; the UUID
  is a parameter.
\<close>

section \<open>Base64\<close>

definition b64Char :: "nat \<Rightarrow> char" where
  "b64Char n = (if n < 26 then char_of (65 + n) else if n < 52 then char_of (71 + n)
     else if n < 62 then char_of (n - 4) else if n = 62 then CHR ''-'' else CHR ''_'')"

fun b64Encode :: "nat list \<Rightarrow> string" where
  "b64Encode [] = []"
| "b64Encode [a] = [b64Char (a div 4), b64Char (a mod 4 * 16)]"
| "b64Encode [a, b] = [b64Char (a div 4), b64Char (a mod 4 * 16 + b div 16), b64Char (b mod 16 * 4)]"
| "b64Encode (a # b # c # xs) =
     b64Char (a div 4) # b64Char (a mod 4 * 16 + b div 16) # b64Char (b mod 16 * 4 + c div 64) # b64Char (c mod 64) # b64Encode xs"

text \<open>\<^verbatim>\<open>strings.TrimRight(s, "=")\<close>.\<close>

definition trimRightEq :: "string \<Rightarrow> string" where
  "trimRightEq s = rev (dropWhile (\<lambda>c. c = CHR ''='') (rev s))"

section \<open>Names\<close>

definition FromNameWithSuffix :: "gostring \<Rightarrow> gostring \<Rightarrow> gostring" where
  "FromNameWithSuffix appName suffix = appName @ ''.'' @ suffix"

definition GenerateTempName :: "nat list \<Rightarrow> gostring \<Rightarrow> gostring \<Rightarrow> gostring" where
  "GenerateTempName uuid appName suffix = appName @ ''.'' @ suffix @ ''.'' @ trimRightEq (b64Encode uuid)"

section \<open>Decoding\<close>

definition b64Val :: "char \<Rightarrow> nat" where
  "b64Val c = (let k = (of_char c :: nat) in
     if 65 \<le> k \<and> k \<le> 90 then k - 65 else if 97 \<le> k \<and> k \<le> 122 then k - 71
     else if 48 \<le> k \<and> k \<le> 57 then k + 4 else if k = 45 then 62 else 63)"

fun b64Decode :: "nat list \<Rightarrow> nat list" where
  "b64Decode (p # q # r # s # xs) = (p * 4 + q div 16) # (q mod 16 * 16 + r div 4) # (r mod 4 * 64 + s) # b64Decode xs"
| "b64Decode [p, q, r] = [p * 4 + q div 16, q mod 16 * 16 + r div 4]"
| "b64Decode [p, q] = [p * 4 + q div 16]"
| "b64Decode _ = []"

lemma b64Val_b64Char: "n < 64 \<Longrightarrow> b64Val (b64Char n) = n"
  by (auto simp: b64Val_def b64Char_def Let_def)

lemma b64Char_not_eq: "b64Char n \<noteq> CHR ''=''"
proof -
  have "of_char (b64Char n) \<noteq> (61 :: nat)" by (auto simp: b64Char_def)
  then show ?thesis by auto
qed

lemma digits: "x < m \<Longrightarrow> (y * m + x) div m = (y :: nat)" "x < m \<Longrightarrow> (y * m + x) mod m = (x :: nat)"
  by simp_all

lemma b64_roundtrip: "list_all (\<lambda>b. b < 256) bs \<Longrightarrow> b64Decode (map b64Val (b64Encode bs)) = bs"
proof (induction bs rule: b64Encode.induct)
  case (2 a)
  then show ?case by (simp add: b64Val_b64Char)
next
  case (3 a b)
  then have bnd: "a < 256" "b < 256" by simp_all
  then have "b64Val (b64Char (a div 4)) = a div 4" "b64Val (b64Char (a mod 4 * 16 + b div 16)) = a mod 4 * 16 + b div 16"
    "b64Val (b64Char (b mod 16 * 4)) = b mod 16 * 4"
    by (auto intro!: b64Val_b64Char)
  moreover have "b div 16 < 16" using bnd by auto
  ultimately show ?case by (simp add: digits del: div_mult_self3)
next
  case (4 a b c xs)
  then have bnd: "a < 256" "b < 256" "c < 256" by simp_all
  then have "b64Val (b64Char (a div 4)) = a div 4" "b64Val (b64Char (a mod 4 * 16 + b div 16)) = a mod 4 * 16 + b div 16"
    "b64Val (b64Char (b mod 16 * 4 + c div 64)) = b mod 16 * 4 + c div 64" "b64Val (b64Char (c mod 64)) = c mod 64"
    by (auto intro!: b64Val_b64Char)
  moreover have "b div 16 < 16" "c div 64 < 4" using bnd by auto
  ultimately show ?case using 4 by (simp add: digits del: div_mult_self3)
qed simp

lemma b64Encode_no_padding: "CHR ''='' \<notin> set (b64Encode bs)"
  by (induction bs rule: b64Encode.induct) (simp_all add: b64Char_not_eq [symmetric])

lemma trimRightEq_id: "CHR ''='' \<notin> set s \<Longrightarrow> trimRightEq s = s"
proof -
  assume "CHR ''='' \<notin> set s"
  then have "dropWhile (\<lambda>c. c = CHR ''='') (rev s) = rev s"
    by (cases "rev s") (auto simp: dropWhile_eq_self_iff dest: arg_cong [of _ _ set])
  then show ?thesis by (simp add: trimRightEq_def)
qed

lemma temp_name_inject:
  assumes "list_all (\<lambda>b. b < 256) u" and "list_all (\<lambda>b. b < 256) v" and "GenerateTempName u app s = GenerateTempName v app s"
  shows "u = v"
proof -
  have "b64Encode u = b64Encode v" using assms(3) by (simp add: GenerateTempName_def trimRightEq_id b64Encode_no_padding)
  then show ?thesis using b64_roundtrip assms(1,2) by metis
qed

section \<open>Properties\<close>

text \<open>Temporary queue names are as unique as the UUIDs they are made from: the base64 suffix can be
  decoded to the UUID, so two starts with different UUIDs never share a queue name, and no padding
  is left to strip.\<close>

theorem temp_names_unique:
  assumes "list_all (\<lambda>b. b < 256) u" and "list_all (\<lambda>b. b < 256) v"
  shows "b64Decode (map b64Val (drop (length (FromNameWithSuffix app s) + 1) (GenerateTempName u app s))) = u \<and>
    (GenerateTempName u app s = GenerateTempName v app s \<longleftrightarrow> u = v) \<and> CHR ''='' \<notin> set (b64Encode u)"
proof -
  have g: "GenerateTempName w app s = FromNameWithSuffix app s @ ''.'' @ b64Encode w" for w
    by (simp add: GenerateTempName_def FromNameWithSuffix_def trimRightEq_id b64Encode_no_padding)
  have "u = v" if "b64Encode u = b64Encode v" using b64_roundtrip assms that by metis
  then show ?thesis using b64_roundtrip [OF assms(1)] b64Encode_no_padding by (auto simp: g)
qed

theorem temp_names_unique_witness:
  "GenerateTempName [1, 2, 255] ''app'' ''replies'' = ''app.replies.AQL_'' \<and>
   b64Decode (map b64Val ''AQL_'') = [1, 2, 255]"
proof -
  have "GenerateTempName [1, 2, 255] ''app'' ''replies'' = ''app.replies.AQL_''" by code_simp
  with temp_names_unique [of "[1, 2, 255]" "[]" "''app''" "''replies''"] show ?thesis
    by (simp add: FromNameWithSuffix_def)
qed

end
