(* ===== verification/Rabbit_Notifications.thy ===== *)
theory Rabbit_Notifications
  imports Rabbit_Events RC_Names
begin

text \<open>
  Notifications over RabbitMQ, from \<^verbatim>\<open>EmitNotification\<close> to the handlers of every running instance: each
  instance has a temporary queue of its own, bound under the names of its notification handlers
  (\<^verbatim>\<open>application.go declareNotifications\<close>) and consumed by its notification listener
  (\<^verbatim>\<open>notificationlistener.go\<close>).
\<close>

section \<open>Instances\<close>

text \<open>
  A running instance: what it declared and its registry, with the visiting order of its notification
  map. \<open>in_uuid\<close> and \<open>in_replyUuid\<close> are the UUIDs its temporary queue names were made from when it started.
\<close>

record ('e, 'c, 'q, 'n) instance_ =
  in_app :: appNames
  in_reg :: "('e, 'c, 'q, 'n) rabbitRegistry"
  in_order :: "gostring list"
  in_uuid :: "nat list"
  in_replyUuid :: "nat list"

definition notifHandler :: "('e, 'c, 'q, 'n) instance_ \<Rightarrow> gostring \<Rightarrow> 'n option" where
  "notifHandler i name = fst (NotificationHandler (in_reg i) (in_order i) name)"

text \<open>The state \<^verbatim>\<open>Start\<close> brings an instance with notification handlers into.\<close>

definition runs :: "('e, 'c, 'q, 'n) instance_ \<Rightarrow> bool" where
  "runs i \<longleftrightarrow>
     (let a = in_app i; app = AppName (an_cfg a)
      in registryReach (in_reg i) \<and> keyOrder (notifHandlers (in_reg i)) (in_order i) \<and>
         set (an_NotificationNames a) = dom (notifHandlers (in_reg i)) \<and>
         an_notificationQueueName a = GenerateTempName (in_uuid i) app ''notification'' \<and>
         an_replyQueueName a = GenerateTempName (in_replyUuid i) app ''replies'' \<and> list_all (\<lambda>b. b < 256) (in_uuid i))"

text \<open>The temporary queue of the notifications is bound to the events exchange under the registered names and nothing else.\<close>

lemma notification_bindings:
  assumes "an_notificationQueueName a = GenerateTempName u (AppName (an_cfg a)) ''notification''"
    and "an_replyQueueName a = GenerateTempName v (AppName (an_cfg a)) ''replies''"
  shows "QueueBind (an_notificationQueueName a) k (DomainEventsExchange (an_cfg a)) \<in> set (topologyPlan a) \<longleftrightarrow> k \<in> set (an_NotificationNames a)"
  using assms by (auto simp: plan_bindings eventsQueue_def commandsQueue_def queriesQueue_def GenerateTempName_def
      EventsRetryExchange_def EventsDLQExchange_def Let_def)

lemma notification_routed:
  assumes "runs i" and "pb_Exchange pb = DomainEventsExchange (an_cfg (in_app i))"
  shows "topicRouted (set (topologyPlan (in_app i))) (an_notificationQueueName (in_app i)) pb \<longleftrightarrow> notifHandler i (pb_RoutingKey pb) \<noteq> None"
proof -
  have r: "registryReach (in_reg i)" "keyOrder (notifHandlers (in_reg i)) (in_order i)" "set (an_NotificationNames (in_app i)) = dom (notifHandlers (in_reg i))"
    using assms(1) by (auto simp: runs_def Let_def)
  have "resolves (notifHandlers (in_reg i)) (pb_RoutingKey pb) (notifHandler i (pb_RoutingKey pb))"
    unfolding notifHandler_def by (rule rabbitNotificationLookup.lookup_resolves [OF rabbitRegistry.reach_inv [OF r(1)] r(2)])
  moreover have "topicRouted (set (topologyPlan (in_app i))) (an_notificationQueueName (in_app i)) pb \<longleftrightarrow>
      (\<exists>k \<in> dom (notifHandlers (in_reg i)). topic_match (splitOn separator k) (splitOn separator (pb_RoutingKey pb)))"
    using notification_bindings [of "in_app i" "in_uuid i" "in_replyUuid i"] assms r(3)
    by (auto simp: topicRouted_def runs_def Let_def)
  ultimately show ?thesis using routed_iff_resolved by blast
qed

section \<open>Properties\<close>

text \<open>C19: A notification over RabbitMQ is broadcast to the running instances: the one message published is neither
  persistent nor confirmed; instances of one service that started with different UUIDs have different
  queues; whatever the instance, the broker routes the message to its queue exactly when the instance has a
  handler for the name, registered under it or a matching pattern; that handler is called with the
  name, the id and the payload text that were emitted, and whatever it does, a panic included, nothing is settled.\<close>

theorem rabbit_notification_fanout:
  assumes notification: "validUTF8 (n_Name n)" "validUTF8 (n_EventID n)" "enc (n_Data n) = Inr v" "isValue v"
    and running: "\<forall>i \<in> set instances. runs i \<and> DomainEventsExchange (an_cfg (in_app i)) = DomainEventsExchange cfg"
  shows "\<exists>pb. EmitNotification (marshalNotification enc) send cfg ctx n = (send pb, [pb]) \<and> \<not> pb_Confirm pb \<and> \<not> pb_Persistent pb \<and>
    (\<forall>i \<in> set instances. \<forall>j \<in> set instances. AppName (an_cfg (in_app i)) = AppName (an_cfg (in_app j)) \<longrightarrow> in_uuid i \<noteq> in_uuid j \<longrightarrow>
       an_notificationQueueName (in_app i) \<noteq> an_notificationQueueName (in_app j)) \<and>
    (\<forall>i \<in> set instances.
       (topicRouted (set (topologyPlan (in_app i))) (an_notificationQueueName (in_app i)) pb \<longleftrightarrow> notifHandler i (n_Name n) \<noteq> None) \<and>
       (\<exists>env. jsonEnvelope err (d_Body (toDelivery pb)) = Inr env \<and>
          notificationOutcome (notifHandler i) env =
            map_option (\<lambda>h. h \<lparr>n_Name = n_Name n, n_EventID = n_EventID n, n_Data = v\<rparr>) (notifHandler i (n_Name n))) \<and>
       notificationDispatch (jsonEnvelope err) (notifHandler i) (toDelivery pb) = [])"
proof -
  let ?env = "emptyEnvelope\<lparr>env_Name := n_Name n, env_EventID := n_EventID n, env_Data := v\<rparr>"
  obtain body where body: "marshalNotification enc n = Inr body" "unmarshalEnvelope body = Some ?env"
    using notification_decodes [where enc = enc and n = n and v = v, OF notification] by blast
  let ?pb = "SendNoConfirm ctx body (DomainEventsExchange cfg) (n_Name n) [hdr_SourceApplication \<mapsto> HString (AppName cfg)] False"
  have emit: "EmitNotification (marshalNotification enc) send cfg ctx n = (send ?pb, [?pb])"
    using body(1) by (simp add: EmitNotification_def ToMessage_def Let_def)
  have queues: "an_notificationQueueName (in_app i) \<noteq> an_notificationQueueName (in_app j)"
    if "i \<in> set instances" "j \<in> set instances" "AppName (an_cfg (in_app i)) = AppName (an_cfg (in_app j))" "in_uuid i \<noteq> in_uuid j" for i j
    using temp_name_inject [of "in_uuid i" "in_uuid j"] running that by (auto simp: runs_def Let_def)
  have routed: "topicRouted (set (topologyPlan (in_app i))) (an_notificationQueueName (in_app i)) ?pb \<longleftrightarrow> notifHandler i (n_Name n) \<noteq> None"
    if i: "i \<in> set instances" for i
    using notification_routed [of i ?pb] running i by (simp add: SendNoConfirm_def)
  have out: "jsonEnvelope err (d_Body (toDelivery ?pb)) = Inr ?env"
    using body(2) by (simp add: jsonEnvelope_def toDelivery_def SendNoConfirm_def)
  have silent: "notificationDispatch (jsonEnvelope err) l d = []" for l d
    by (simp add: notificationDispatch_def dispatchEnvelope_def split: sum.split option.split hresult.split)
  show ?thesis
    using emit queues routed out silent
    by (intro exI [of _ ?pb] conjI ballI) (auto simp: SendNoConfirm_def notificationOutcome_def emptyEnvelope_def)
qed

text \<open>Two instances of one service with one handler each, as they start.\<close>

definition exampleListener :: "(unit, unit, unit, notificationHandler) rabbitRegistry" where
  "exampleListener = newHandlerRegistry\<lparr>notifHandlers := [''flush'' \<mapsto> (\<lambda>n. HErr (ErrOther (n_Data n)))]\<rparr>"

definition exampleInstance :: "nat \<Rightarrow> (unit, unit, unit, notificationHandler) instance_" where
  "exampleInstance k =
     \<lparr>in_app = \<lparr>an_cfg = exampleConfig, an_EventNames = [], an_CommandNames = [], an_QueryNames = [], an_NotificationNames = [''flush''],
        an_notificationQueueName = GenerateTempName [k] (AppName exampleConfig) ''notification'',
        an_replyQueueName = GenerateTempName [k] (AppName exampleConfig) ''replies''\<rparr>,
      in_reg = exampleListener, in_order = [''flush''], in_uuid = [k], in_replyUuid = [k]\<rparr>"

lemma exampleInstance_runs: "k < 256 \<Longrightarrow> runs (exampleInstance k)"
proof -
  have "ListenNotification newHandlerRegistry ''flush'' (\<lambda>n. HErr (ErrOther (n_Data n))) = Inr exampleListener"
    by (simp add: op_defs exampleListener_def newHandlerRegistry_def)
  then have "registryReach exampleListener" by (intro reach_step [OF reach_init] listen_notification) auto
  then show "k < 256 \<Longrightarrow> runs (exampleInstance k)"
    by (auto simp: runs_def exampleInstance_def exampleListener_def keyOrder_def newHandlerRegistry_def)
qed

theorem rabbit_notification_fanout_witness:
  "\<exists>pb. EmitNotification (marshalNotification (\<lambda>d. Inr d)) (\<lambda>_. None) exampleConfig None
      \<lparr>n_Name = ''flush'', n_EventID = ''7'', n_Data = ''{}''\<rparr> = (None, [pb]) \<and>
    an_notificationQueueName (in_app (exampleInstance 1)) \<noteq> an_notificationQueueName (in_app (exampleInstance 2)) \<and>
    topicRouted (set (topologyPlan (in_app (exampleInstance 1)))) (an_notificationQueueName (in_app (exampleInstance 1))) pb \<and>
    topicRouted (set (topologyPlan (in_app (exampleInstance 2)))) (an_notificationQueueName (in_app (exampleInstance 2))) pb \<and>
    map_sum id (notificationOutcome (notifHandler (exampleInstance 2))) (jsonEnvelope (\<lambda>_. ''syntax error'') (d_Body (toDelivery pb))) =
      Inr (Some (HErr (ErrOther ''{}'')))"
proof -
  let ?n = "\<lparr>n_Name = ''flush'', n_EventID = ''7'', n_Data = ''{}''\<rparr>"
  have json: "validUTF8 ''flush''" "validUTF8 ''7''" "isValue ''{}''" by code_simp+
  have h: "notifHandler (exampleInstance k) ''flush'' = Some (\<lambda>n. HErr (ErrOther (n_Data n)))" for k
    by (simp add: notifHandler_def exampleInstance_def lookup_ops readPath_def exampleListener_def newHandlerRegistry_def)
  have app: "an_cfg (in_app (exampleInstance k)) = exampleConfig" "in_uuid (exampleInstance k) = [k]" for k
    by (simp_all add: exampleInstance_def)
  show ?thesis
    using rabbit_notification_fanout [where n = ?n and enc = "\<lambda>d. Inr d" and v = "''{}''" and cfg = exampleConfig and ctx = None and
        send = "\<lambda>_. None" and instances = "[exampleInstance 1, exampleInstance 2]" and err = "\<lambda>_. ''syntax error''"]
      json exampleInstance_runs [of 1] exampleInstance_runs [of 2] h app
    by auto
qed

end
