(* ===== verification/Rabbit_Converter.thy ===== *)
theory Rabbit_Converter
  imports Rabbit_Gateway
begin

text \<open>
  The typed readers of the converter (\<^verbatim>\<open>internal/rabbit/converter.go\<close>): two phases, the envelope and then
  its payload. \<open>unmarshal\<close> is the JSON decoder for the envelope, \<open>decode\<close> the one for the payload type,
  whose zero value is \<open>zero\<close>; both give the library's error text on failure.
\<close>

section \<open>Reading\<close>

definition readPayload :: "(bytes \<Rightarrow> gostring + 't) \<Rightarrow> 't \<Rightarrow> bytes \<Rightarrow> goerror + 't" where
  "readPayload decode zero raw =
     (if length raw > 0 \<and> raw \<noteq> ''null''
      then (case decode raw of Inl e \<Rightarrow> Inl (ErrDeserialize e) | Inr d \<Rightarrow> Inr d)
      else Inr zero)"

definition readEnvelope :: "(bytes \<Rightarrow> gostring + RawEnvelope) \<Rightarrow> (bytes \<Rightarrow> gostring + 't) \<Rightarrow> 't \<Rightarrow> (RawEnvelope \<Rightarrow> bytes) \<Rightarrow>
    (RawEnvelope \<Rightarrow> 't \<Rightarrow> 'm) \<Rightarrow> bytes \<Rightarrow> goerror + 'm" where
  "readEnvelope unmarshal decode zero payload build body =
     (case unmarshal body of
        Inl e \<Rightarrow> Inl (ErrDeserialize e)
      | Inr env \<Rightarrow> (case readPayload decode zero (payload env) of Inl e \<Rightarrow> Inl e | Inr d \<Rightarrow> Inr (build env d)))"

definition ReadDomainEvent :: "(bytes \<Rightarrow> gostring + RawEnvelope) \<Rightarrow> (bytes \<Rightarrow> gostring + 't) \<Rightarrow> 't \<Rightarrow> bytes \<Rightarrow> goerror + 't DomainEvent" where
  "ReadDomainEvent unmarshal decode zero =
     readEnvelope unmarshal decode zero env_Data
       (\<lambda>env d. \<lparr>ev_Name = env_Name env, ev_EventID = env_EventID env, ev_Data = d\<rparr>)"

definition ReadCommand :: "(bytes \<Rightarrow> gostring + RawEnvelope) \<Rightarrow> (bytes \<Rightarrow> gostring + 't) \<Rightarrow> 't \<Rightarrow> bytes \<Rightarrow> goerror + 't Command" where
  "ReadCommand unmarshal decode zero =
     readEnvelope unmarshal decode zero env_Data
       (\<lambda>env d. \<lparr>cmd_Name = env_Name env, cmd_CommandID = env_CommandID env, cmd_Data = d\<rparr>)"

definition ReadQuery :: "(bytes \<Rightarrow> gostring + RawEnvelope) \<Rightarrow> (bytes \<Rightarrow> gostring + 't) \<Rightarrow> 't \<Rightarrow> bytes \<Rightarrow> goerror + 't AsyncQuery" where
  "ReadQuery unmarshal decode zero =
     readEnvelope unmarshal decode zero env_QueryData
       (\<lambda>env d. \<lparr>q_Resource = env_Resource env, q_QueryData = d\<rparr>)"

definition ReadNotification :: "(bytes \<Rightarrow> gostring + RawEnvelope) \<Rightarrow> (bytes \<Rightarrow> gostring + 't) \<Rightarrow> 't \<Rightarrow> bytes \<Rightarrow> goerror + 't Notification" where
  "ReadNotification unmarshal decode zero =
     readEnvelope unmarshal decode zero env_Data
       (\<lambda>env d. \<lparr>n_Name = env_Name env, n_EventID = env_EventID env, n_Data = d\<rparr>)"

lemmas reader_defs = ReadDomainEvent_def ReadCommand_def ReadQuery_def ReadNotification_def

section \<open>Properties\<close>

text \<open>What the readers rely on of the payload codec: decoding inverts encoding, an encoding is not empty,
  and only the zero value is encoded as \<^verbatim>\<open>null\<close>.\<close>

definition payloadCodec :: "('t \<Rightarrow> bytes) \<Rightarrow> (bytes \<Rightarrow> gostring + 't) \<Rightarrow> 't \<Rightarrow> bool" where
  "payloadCodec enc decode zero \<longleftrightarrow>
     (\<forall>d. enc d \<noteq> [] \<and> (if enc d = ''null'' then d = zero else decode (enc d) = Inr d))"

lemma readPayload_enc: "payloadCodec enc decode zero \<Longrightarrow> readPayload decode zero (enc d) = Inr d"
  by (auto simp: payloadCodec_def readPayload_def)

lemma readPayload_err: "readPayload decode zero raw = Inl e \<Longrightarrow> \<exists>t. e = ErrDeserialize t"
  by (auto simp: readPayload_def split: if_splits sum.splits)

text \<open>Reading is total and its only error is the deserialization error: a body that is not an envelope, or
  whose payload does not decode, gives that error; a body whose envelope carries the fields of a
  message and the encoding of its payload gives the message back, with an absent or null payload read
  as the zero value.\<close>

theorem read_roundtrip:
  assumes "payloadCodec enc decode zero"
  shows "(\<forall>body env d. unmarshal body = Inr env \<longrightarrow> env_Data env = enc d \<longrightarrow>
      ReadDomainEvent unmarshal decode zero body = Inr \<lparr>ev_Name = env_Name env, ev_EventID = env_EventID env, ev_Data = d\<rparr> \<and>
      ReadCommand unmarshal decode zero body = Inr \<lparr>cmd_Name = env_Name env, cmd_CommandID = env_CommandID env, cmd_Data = d\<rparr> \<and>
      ReadNotification unmarshal decode zero body = Inr \<lparr>n_Name = env_Name env, n_EventID = env_EventID env, n_Data = d\<rparr>) \<and>
    (\<forall>body env d. unmarshal body = Inr env \<longrightarrow> env_QueryData env = enc d \<longrightarrow>
      ReadQuery unmarshal decode zero body = Inr \<lparr>q_Resource = env_Resource env, q_QueryData = d\<rparr>) \<and>
    (\<forall>body e. ReadDomainEvent unmarshal decode zero body = Inl e \<or> ReadCommand unmarshal decode zero body = Inl e \<or>
      ReadQuery unmarshal decode zero body = Inl e \<or> ReadNotification unmarshal decode zero body = Inl e \<longrightarrow>
      (\<exists>t. e = ErrDeserialize t)) \<and>
    (\<forall>body env. unmarshal body = Inr env \<longrightarrow> env_Data env \<in> {[], ''null''} \<longrightarrow>
      ReadDomainEvent unmarshal decode zero body = Inr \<lparr>ev_Name = env_Name env, ev_EventID = env_EventID env, ev_Data = zero\<rparr>)"
  using readPayload_enc [OF assms]
  by (auto simp: reader_defs readEnvelope_def split: sum.splits dest: readPayload_err)
    (auto simp: readPayload_def)

theorem read_roundtrip_witness:
  "ReadCommand (\<lambda>_. Inr (emptyEnvelope\<lparr>env_Name := ''pay'', env_CommandID := ''c-1'', env_Data := ''7''\<rparr>))
     (\<lambda>b. case parseNat b of None \<Rightarrow> Inl ''bad'' | Some n \<Rightarrow> Inr n) 0 ''{}'' =
   Inr \<lparr>cmd_Name = ''pay'', cmd_CommandID = ''c-1'', cmd_Data = 7\<rparr>"
proof -
  let ?dec = "\<lambda>b. case parseNat b of None \<Rightarrow> Inl ''bad'' | Some n \<Rightarrow> Inr n"
  let ?env = "emptyEnvelope\<lparr>env_Name := ''pay'', env_CommandID := ''c-1'', env_Data := ''7''\<rparr>"
  have notnull: "show_nat n \<noteq> ''null''" for n
  proof
    assume "show_nat n = ''null''"
    then have "parseNat ''null'' = Some n" using parseNat_show_nat [of n] by simp
    then show False by (simp add: parseNat_def char_digit_def)
  qed
  then have c: "payloadCodec show_nat ?dec 0" by (simp add: payloadCodec_def)
  have "show_nat 7 = ''7''" by code_simp
  then have "env_Data ?env = show_nat 7" by simp
  with read_roundtrip [OF c, where unmarshal = "\<lambda>_. Inr ?env", THEN conjunct1, rule_format, where body = "''{}''" and env = ?env and d = 7]
  have "ReadCommand (\<lambda>_. Inr ?env) ?dec 0 ''{}'' =
      Inr \<lparr>cmd_Name = env_Name ?env, cmd_CommandID = env_CommandID ?env, cmd_Data = 7\<rparr>" by simp
  then show ?thesis by (simp add: emptyEnvelope_def)
qed

end
