(* ===== verification/Rabbit_Socket.thy ===== *)
theory Rabbit_Socket
  imports RC_Prelude
begin

text \<open>
  The socket wrapper that bounds every write (\<^verbatim>\<open>writeDeadlineConn\<close> in \<^verbatim>\<open>internal/rabbit/socket.go\<close>).
  One writer (the AMQP library serializes its writes) and the library's calls of \<^verbatim>\<open>SetDeadline\<close> run
  concurrently; a step is a critical section of \<^verbatim>\<open>mu\<close> or one call on the raw connection. A deadline is
  a time, \<open>None\<close> for the zero time, which means no deadline.
\<close>

type_synonym deadline = "int option"

text \<open>
  The writer: idle; with its deadline computed and the version read; with the deadline set on the raw
  connection, writing; written. \<open>began\<close> is the time the write began. The setter is between its
  critical section and its call on the raw connection.
\<close>

datatype writer =
    WIdle
  | WComputed int int nat
  | WWriting int int nat
  | WWritten nat

record socketSys =
  baseDeadline :: deadline
  version :: nat
  rawDeadline :: deadline
  writer :: writer
  setter :: "deadline option"
  overlapped :: bool

definition newSocket :: "int \<Rightarrow> socketSys" where
  "newSocket handshake = \<lparr>baseDeadline = Some handshake, version = 1, rawDeadline = Some handshake,
     writer = WIdle, setter = None, overlapped = False\<rparr>"

definition writeDeadline :: "int \<Rightarrow> duration \<Rightarrow> deadline \<Rightarrow> int" where
  "writeDeadline now writeTimeout base =
     (let d = now + writeTimeout
      in case base of None \<Rightarrow> d | Some b \<Rightarrow> if b < d then b else d)"

definition Write_compute :: "duration \<Rightarrow> int \<Rightarrow> socketSys \<Rightarrow> socketSys" where
  "Write_compute writeTimeout now s =
     s\<lparr>writer := WComputed now (writeDeadline now writeTimeout (baseDeadline s)) (version s), overlapped := False\<rparr>"

definition Write_setDeadline :: "socketSys \<Rightarrow> socketSys" where
  "Write_setDeadline s =
     (case writer s of
        WComputed now d v \<Rightarrow> s\<lparr>rawDeadline := Some d, writer := WWriting now d v\<rparr>
      | _ \<Rightarrow> s)"

definition Write_restore :: "socketSys \<Rightarrow> socketSys" where
  "Write_restore s =
     (case writer s of
        WWritten v \<Rightarrow> (let s' = s\<lparr>writer := WIdle\<rparr>
                      in if version s = v then s'\<lparr>rawDeadline := baseDeadline s\<rparr> else s')
      | _ \<Rightarrow> s)"

text \<open>\<^verbatim>\<open>SetDeadline\<close> and \<^verbatim>\<open>SetWriteDeadline\<close> do the same to the write deadline.\<close>

definition SetDeadline_lock :: "deadline \<Rightarrow> socketSys \<Rightarrow> socketSys" where
  "SetDeadline_lock t s = s\<lparr>baseDeadline := t, version := Suc (version s), setter := Some t,
     overlapped := (overlapped s \<or> writer s \<noteq> WIdle)\<rparr>"

definition SetDeadline_raw :: "socketSys \<Rightarrow> socketSys" where
  "SetDeadline_raw s =
     (case setter s of
        None \<Rightarrow> s
      | Some t \<Rightarrow> s\<lparr>rawDeadline := t, setter := None, overlapped := (overlapped s \<or> writer s \<noteq> WIdle)\<rparr>)"

datatype wevent = WBegin int | WSet | WSetFails | WWrite | WRestore | DLock deadline | DRaw

fun wfire :: "duration \<Rightarrow> wevent \<Rightarrow> socketSys \<Rightarrow> socketSys option" where
  "wfire to (WBegin now) s = (if writer s = WIdle then Some (Write_compute to now s) else None)"
| "wfire to WSet s = (case writer s of WComputed n d v \<Rightarrow> Some (Write_setDeadline s) | _ \<Rightarrow> None)"
| "wfire to WSetFails s = (case writer s of WComputed n d v \<Rightarrow> Some (s\<lparr>writer := WIdle\<rparr>) | _ \<Rightarrow> None)"
| "wfire to WWrite s = (case writer s of WWriting n d v \<Rightarrow> Some (s\<lparr>writer := WWritten v\<rparr>) | _ \<Rightarrow> None)"
| "wfire to WRestore s = (case writer s of WWritten v \<Rightarrow> Some (Write_restore s) | _ \<Rightarrow> None)"
| "wfire to (DLock t) s = (if setter s = None then Some (SetDeadline_lock t s) else None)"
| "wfire to DRaw s = (if setter s = None then None else Some (SetDeadline_raw s))"

definition socketStep :: "duration \<Rightarrow> socketSys \<Rightarrow> socketSys \<Rightarrow> bool" where
  "socketStep to s t \<longleftrightarrow> (\<exists>e. wfire to e s = Some t)"

definition socketInv :: "duration \<Rightarrow> socketSys \<Rightarrow> bool" where
  "socketInv to s \<longleftrightarrow> overlapped s \<or>
     (case writer s of
        WIdle \<Rightarrow> True
      | WComputed n d v \<Rightarrow> d = writeDeadline n to (baseDeadline s) \<and> v = version s
      | WWriting n d v \<Rightarrow> d = writeDeadline n to (baseDeadline s) \<and> v = version s \<and> rawDeadline s = Some d
      | WWritten v \<Rightarrow> v = version s)"

lemmas socket_ops = Write_compute_def Write_setDeadline_def Write_restore_def SetDeadline_lock_def
  SetDeadline_raw_def Let_def

lemma socketInv_fire: "wfire to e s = Some t \<Longrightarrow> socketInv to s \<Longrightarrow> socketInv to t"
  by (cases e) (auto simp: socketInv_def socket_ops split: if_splits writer.splits option.splits)

interpretation socket: machine_invariant "\<lambda>s. \<exists>h. s = newSocket h" "socketStep to" "socketInv to" for to
proof unfold_locales
  show "socketInv to s" if "\<exists>h. s = newSocket h" for s
    using that by (auto simp: socketInv_def newSocket_def)
  show "socketInv to t" if "socketInv to s" "socketStep to s t" for s t
    using that socketInv_fire unfolding socketStep_def by blast
qed

section \<open>Properties\<close>

lemma writeDeadline_bounds:
  "writeDeadline n to b \<le> n + to" "b = Some x \<Longrightarrow> writeDeadline n to b \<le> x"
  by (auto simp: writeDeadline_def Let_def split: option.splits)

text \<open>C39: A write with no \<^verbatim>\<open>SetDeadline\<close> overlapping it is bounded: while it is in progress the deadline in
  force on the socket is the earlier of the library's own deadline and the write timeout after the
  write began; and its end puts the library's deadline back.\<close>

theorem write_bounded:
  assumes "reach (\<lambda>s. \<exists>h. s = newSocket h) (socketStep to) s" and "\<not> overlapped s"
  shows "(\<forall>n d v. writer s = WWriting n d v \<longrightarrow>
      rawDeadline s = Some d \<and> d \<le> n + to \<and> (\<forall>b. baseDeadline s = Some b \<longrightarrow> d \<le> b)) \<and>
    (\<forall>v t. writer s = WWritten v \<and> wfire to WRestore s = Some t \<longrightarrow> rawDeadline t = baseDeadline t)"
proof -
  have inv: "socketInv to s" using socket.reach_inv [OF assms(1)] .
  have "rawDeadline s = Some d \<and> d \<le> n + to \<and> (\<forall>b. baseDeadline s = Some b \<longrightarrow> d \<le> b)"
    if "writer s = WWriting n d v" for n d v
    using inv that assms(2) writeDeadline_bounds [where n = n and to = to and b = "baseDeadline s"] by (auto simp: socketInv_def)
  moreover have "rawDeadline t = baseDeadline t" if "writer s = WWritten v" "wfire to WRestore s = Some t" for v t
    using inv that assms(2) by (auto simp: socketInv_def Write_restore_def Let_def)
  ultimately show ?thesis by blast
qed

theorem write_bounded_witness:
  "\<exists>s. runTrace (wfire 30) [DLock None, DRaw, WBegin 100, WSet] (newSocket 7) = Some s \<and>
     writer s = WWriting 100 130 2 \<and> rawDeadline s = Some 130"
proof -
  obtain s where run: "runTrace (wfire 30) [DLock None, DRaw, WBegin 100, WSet] (newSocket 7) = Some s"
    and s: "writer s = WWriting 100 130 2" "\<not> overlapped s"
    by (simp add: newSocket_def socket_ops writeDeadline_def)
  have "reach (\<lambda>s. \<exists>h. s = newSocket h) (socketStep 30) s"
    by (rule runTrace_reach [OF run]) (auto simp: socketStep_def intro: reach_init)
  with write_bounded [OF this s(2)] s run show ?thesis by blast
qed

text \<open>A \<^verbatim>\<open>SetDeadline\<close> that overlaps a write removes its bound: there is a run in which the write is in
  progress while the socket has no deadline at all (the library clears its handshake deadline
  between the wrapper's own \<^verbatim>\<open>SetWriteDeadline\<close> and the write).\<close>

theorem write_unbounded_race:
  "\<exists>s n d v. runTrace (wfire 30) [WBegin 0, WSet, DLock None, DRaw] (newSocket 30) = Some s \<and>
     writer s = WWriting n d v \<and> rawDeadline s = None"
  by (simp add: newSocket_def socket_ops)

end
