(* ===== verification/Rabbit_Facade.thy ===== *)
theory Rabbit_Facade
  imports Rabbit_Dispatch Rabbit_App
begin

text \<open>
  What surrounds the RabbitMQ transport: the configuration handed to the AMQP library
  (\<^verbatim>\<open>connection.go dialConfig\<close>), the channels of the consumers (\<^verbatim>\<open>consumer.go openConsumerChannel\<close> and the
  constructors of the five listeners), and the application object with its accessors
  (\<^verbatim>\<open>application.go\<close>).
\<close>

section \<open>Dialling\<close>

text \<open>\<open>ac_Dial\<close> is the write timeout of the dialer installed with \<^verbatim>\<open>handshakeDial\<close>, \<open>None\<close> for the library's own.\<close>

record amqpConfig =
  ac_Vhost :: gostring
  ac_Properties :: "(gostring \<times> gostring) list"
  ac_Heartbeat :: duration
  ac_Locale :: gostring
  ac_TLS :: "objref option"
  ac_Dial :: "duration option"

definition dialConfig :: "gostring \<Rightarrow> gostring \<Rightarrow> gostring \<Rightarrow> Config \<Rightarrow> amqpConfig" where
  "dialConfig goVersion libVersion host cfg =
     (let c = \<lparr>ac_Vhost = VHost cfg, ac_Properties = clientProperties goVersion libVersion host cfg, ac_Heartbeat = 10 * goSecond,
               ac_Locale = ''en_US'', ac_TLS = cfg_TLS cfg, ac_Dial = None\<rparr>
      in if WriteTimeout cfg > 0 then c\<lparr>ac_Dial := Some (WriteTimeout cfg)\<rparr> else c)"

section \<open>Consumer channels\<close>

text \<open>What a listener asks of its channel; the queue comes from \<^verbatim>\<open>Start\<close>.\<close>

record consumeArgs =
  ca_prefetch :: int
  ca_autoAck :: bool
  ca_exclusive :: bool

definition newEventListener :: "Config \<Rightarrow> consumeArgs" where
  "newEventListener cfg = \<lparr>ca_prefetch = PrefetchCount cfg, ca_autoAck = False, ca_exclusive = False\<rparr>"
definition newCommandListener :: "Config \<Rightarrow> consumeArgs" where
  "newCommandListener cfg = \<lparr>ca_prefetch = PrefetchCount cfg, ca_autoAck = False, ca_exclusive = False\<rparr>"
definition newQueryListener :: "Config \<Rightarrow> consumeArgs" where
  "newQueryListener cfg = \<lparr>ca_prefetch = PrefetchCount cfg, ca_autoAck = False, ca_exclusive = False\<rparr>"
definition newNotificationListener :: "Config \<Rightarrow> consumeArgs" where
  "newNotificationListener cfg = \<lparr>ca_prefetch = 0, ca_autoAck = True, ca_exclusive = True\<rparr>"
definition newReplyListener :: "Config \<Rightarrow> consumeArgs" where
  "newReplyListener cfg = \<lparr>ca_prefetch = 0, ca_autoAck = True, ca_exclusive = True\<rparr>"

text \<open>The calls made on the AMQP library; the answers are \<open>channelErr\<close>, \<open>qosErr\<close> and \<open>consumeErr\<close>.\<close>

datatype consumeCall =
    CallChannel
  | CallQos int
  | CallConsume gostring bool bool
  | CallClose

definition openConsumerChannel :: "goerror option \<Rightarrow> goerror option \<Rightarrow> goerror option \<Rightarrow> consumeArgs \<Rightarrow> gostring \<Rightarrow>
    consumeCall list \<times> goerror option" where
  "openConsumerChannel channelErr qosErr consumeErr args queueName =
     (case channelErr of
        Some e \<Rightarrow> ([CallChannel], Some e)
      | None \<Rightarrow>
          (let qos = (if ca_prefetch args > 0 then [CallQos (ca_prefetch args)] else [])
           in case (if ca_prefetch args > 0 then qosErr else None) of
                Some e \<Rightarrow> (CallChannel # qos @ [CallClose], Some e)
              | None \<Rightarrow>
                  (let calls = CallChannel # qos @ [CallConsume queueName (ca_autoAck args) (ca_exclusive args)]
                   in case consumeErr of Some e \<Rightarrow> (calls @ [CallClose], Some e) | None \<Rightarrow> (calls, None))))"

section \<open>The application object\<close>

text \<open>
  Before \<^verbatim>\<open>Start\<close> has made them, the bus and the gateway that the accessors return are nil. They are
  stored after the sender exists and before the consumers are brought up.
\<close>

record RabbitApp =
  ra_cfg :: Config
  ra_bus :: bool
  ra_gw :: "gateway option"
  ra_hasConn :: bool
  ra_ready :: bool
  ra_hooks :: bool
  ra_consumers :: "gostring list"

definition NewRabbitApp :: "Config \<Rightarrow> RabbitApp" where
  "NewRabbitApp cfg = \<lparr>ra_cfg = cfg, ra_bus = False, ra_gw = None, ra_hasConn = False, ra_ready = False, ra_hooks = False, ra_consumers = []\<rparr>"

text \<open>The effect of a phase of \<^verbatim>\<open>Start\<close> that succeeded; \<open>a\<close> are the registered names and the queue names.\<close>

definition startPhase :: "appNames \<Rightarrow> startAction \<Rightarrow> RabbitApp \<Rightarrow> RabbitApp" where
  "startPhase a ph app =
     (case ph of
        ActDial \<Rightarrow> app\<lparr>ra_hasConn := True\<rparr>
      | ActNewSender \<Rightarrow> app\<lparr>ra_bus := True, ra_gw := Some (withReplySupport (an_replyQueueName a) (newGateway (ra_cfg app))),
                          ra_consumers := namedConsumers a\<rparr>
      | ActRegisterHooks \<Rightarrow> app\<lparr>ra_hooks := True\<rparr>
      | ActCloseReady \<Rightarrow> app\<lparr>ra_ready := True\<rparr>
      | _ \<Rightarrow> app)"

text \<open>The application after the phases of \<^verbatim>\<open>Start\<close> made so far; a dial or a sender that failed leaves nothing.\<close>

definition appDuring :: "goerror option \<Rightarrow> goerror option \<Rightarrow> appNames \<Rightarrow> startAction list \<Rightarrow> Config \<Rightarrow> RabbitApp" where
  "appDuring dial newSender a phases cfg =
     fold (startPhase a) (filter (\<lambda>p. (p = ActDial \<longrightarrow> dial = None) \<and> (p = ActNewSender \<longrightarrow> newSender = None)) phases) (NewRabbitApp cfg)"

text \<open>
  The accessors: nil until the sender exists; once \<^verbatim>\<open>Ready\<close> is closed the bus and the gateway with its
  reply queue are there, the reconnect hooks are registered and the health snapshot covers every
  listener.
\<close>

lemma rabbit_ready_gate:
  assumes "Start dial newSender bringUp closeErr = (phases @ rest, err)" and "app = appDuring dial newSender a phases cfg"
  shows "ActNewSender \<notin> set phases \<longrightarrow> \<not> ra_bus app \<and> ra_gw app = None"
    and "ra_ready app \<longrightarrow> ra_bus app \<and> ra_hooks app \<and> ra_hasConn app \<and> ra_consumers app = namedConsumers a \<and>
      ra_gw app = Some (withReplySupport (an_replyQueueName a) (newGateway cfg))"
  using assms
  by (auto simp: Start_def appDuring_def startPhase_def NewRabbitApp_def append_eq_Cons_conv Cons_eq_append_conv split: option.splits)

section \<open>Properties\<close>

lemma openConsumerChannel_calls:
  "snd (openConsumerChannel ce qe se args q) = None \<Longrightarrow>
     fst (openConsumerChannel ce qe se args q) =
       CallChannel # (if ca_prefetch args > 0 then [CallQos (ca_prefetch args)] else []) @ [CallConsume q (ca_autoAck args) (ca_exclusive args)]"
  by (auto simp: openConsumerChannel_def Let_def split: option.splits if_splits)

lemma notification_never_settles: "notificationDispatch unmarshal lookup d = []"
  by (auto simp: notificationDispatch_def dispatchEnvelope_def split: sum.split option.split hresult.split)



end
