(* ===== verification/RC_CloudEvent.thy ===== *)
theory RC_CloudEvent
  imports RC_JSON "HOL-Library.Char_ord" "HOL-Library.List_Lexorder"
begin

text \<open>
  The CloudEvents helper (\<^verbatim>\<open>kafka/cloudevent.go\<close>): a payload wrapped in the structured-mode shape, which
  the application passes as the data of an event. Go encodes a map with its keys in ascending order.
\<close>

section \<open>Definitions\<close>

datatype 'd ceValue = CEText gostring | CEPayload 'd

text \<open>\<open>uuid\<close> and \<open>now\<close> are the fresh id and the formatted clock.\<close>

definition WrapAsCloudEvent :: "gostring \<Rightarrow> gostring \<Rightarrow> gostring \<Rightarrow> gostring \<Rightarrow> 'd \<Rightarrow> (gostring \<rightharpoonup> 'd ceValue)" where
  "WrapAsCloudEvent uuid now source ceType data =
     [''specversion'' \<mapsto> CEText ''1.0'', ''id'' \<mapsto> CEText uuid, ''source'' \<mapsto> CEText source, ''type'' \<mapsto> CEText ceType,
      ''time'' \<mapsto> CEText now, ''datacontenttype'' \<mapsto> CEText ''application/json'', ''data'' \<mapsto> CEPayload data]"

fun encodeValue :: "('d \<Rightarrow> gostring + bytes) \<Rightarrow> 'd ceValue \<Rightarrow> gostring + bytes" where
  "encodeValue enc (CEText t) = Inr (quoteJSON t)"
| "encodeValue enc (CEPayload d) = enc d"

text \<open>\<^verbatim>\<open>json.Marshal\<close> of a map; \<open>ks\<close> is the order in which its keys are collected.\<close>

fun encodeEntries :: "('v \<Rightarrow> gostring + bytes) \<Rightarrow> (gostring \<rightharpoonup> 'v) \<Rightarrow> gostring list \<Rightarrow> gostring + (gostring \<times> bytes) list" where
  "encodeEntries enc m [] = Inr []"
| "encodeEntries enc m (k # ks) =
     (case m k of
        None \<Rightarrow> encodeEntries enc m ks
      | Some v \<Rightarrow>
          (case enc v of
             Inl e \<Rightarrow> Inl e
           | Inr b \<Rightarrow> map_sum id (\<lambda>rest. (k, b) # rest) (encodeEntries enc m ks)))"

definition marshalMap :: "('v \<Rightarrow> gostring + bytes) \<Rightarrow> gostring list \<Rightarrow> (gostring \<rightharpoonup> 'v) \<Rightarrow> gostring + bytes" where
  "marshalMap enc ks m = map_sum id marshalObject (encodeEntries enc m (sort ks))"

section \<open>Facts\<close>

text \<open>More nesting allowed does no harm.\<close>

lemma skip_deeper:
  "skipValue d s = Some r \<Longrightarrow> skipValue (Suc d) s = Some r"
  "scanMembers d s = Some p \<Longrightarrow> scanMembers (Suc d) s = Some p"
  "skipElems d s = Some r' \<Longrightarrow> skipElems (Suc d) s = Some r'"
proof (induction d s and d s and d s arbitrary: r and p and r' rule: skipValue_scanMembers_skipElems.induct)
  case (1 d s)
  from 1(3) show ?case
  proof (cases rule: skipValue_cases)
    case (String u)
    then show ?thesis by (simp add: skipValue.simps)
  next
    case (Object u x u1)
    then have "Suc (d - 1) = d" by simp
    then show ?thesis using Object 1(1) [of "CHR ''{''" u x u1] by (auto simp: skipValue.simps [of "Suc d"])
  next
    case (Array u x u1)
    then have "Suc (d - 1) = d" by simp
    then show ?thesis using Array 1(2) [of "CHR ''[''" u x u1] by (auto simp: skipValue.simps [of "Suc d"])
  next
    case (Word c u w)
    have "skipValue (Suc d) s = skipValue d s" using Word(1,2) by (auto simp: skipValue.simps)
    then show ?thesis using 1(3) by simp
  next
    case (Number c u)
    then show ?thesis by (simp add: skipValue.simps)
  qed
next
  case (2 d s)
  obtain kvs r where p: "p = (kvs, r)" by force
  from 2(3) [unfolded p] show ?case
  proof (cases rule: scanMembers_cases)
    case (1 u r1 r2 r3 y r4)
    have v: "skipValue (Suc d) (skipWs r2) = Some r3" using 2(1) 1 by simp
    have "scanMembers (Suc d) (skipWs r4) = Some (kvs', r)" if "y = CHR '',''" "length r4 < length s" "scanMembers d (skipWs r4) = Some (kvs', r)" for kvs'
      using 2(2) 1(1-5) that by simp
    then show ?thesis using 1 v by (auto simp: p scanMembers.simps [of "Suc d" "CHR 0x22 # u"])
  qed
next
  case (3 d s)
  from 3(3) show ?case
  proof (cases rule: skipElems_cases)
    case (1 r1 y r2)
    then show ?thesis using 3(1) 3(2) by (auto simp: skipElems.simps [of "Suc d" s])
  qed
qed

lemma skipValue_deeper: "skipValue (maxNestingDepth - 2) v = Some [] \<Longrightarrow> skipValue (maxNestingDepth - 1) v = Some []"
  using skip_deeper(1) [of "maxNestingDepth - 2" v "[]"] by (simp add: maxNestingDepth_def)

definition ceKeys :: "gostring list" where
  "ceKeys = [''data'', ''datacontenttype'', ''id'', ''source'', ''specversion'', ''time'', ''type'']"

lemma sorted_ceKeys:
  assumes "distinct ks" and "set ks = set ceKeys"
  shows "sort ks = ceKeys"
proof -
  have "sorted ceKeys" "distinct ceKeys" by code_simp+
  then show ?thesis using assms by (metis sorted_distinct_set_unique distinct_sort set_sort sorted_sort)
qed

lemma escapeJSON_ceKeys:
  "escapeJSON ''data'' = ''data''" "escapeJSON ''datacontenttype'' = ''datacontenttype''" "escapeJSON ''id'' = ''id''"
  "escapeJSON ''source'' = ''source''" "escapeJSON ''specversion'' = ''specversion''" "escapeJSON ''time'' = ''time''" "escapeJSON ''type'' = ''type''"
  by code_simp+

lemma ceKeys_dom: "set ceKeys = dom (WrapAsCloudEvent uuid now source ceType data)"
  by (auto simp: ceKeys_def WrapAsCloudEvent_def)

text \<open>The members of the encoded event, in the order of the keys.\<close>

definition ceMembers :: "gostring \<Rightarrow> gostring \<Rightarrow> gostring \<Rightarrow> gostring \<Rightarrow> bytes \<Rightarrow> (gostring \<times> bytes) list" where
  "ceMembers uuid now source ceType v =
     [(''data'', v), (''datacontenttype'', quoteJSON ''application/json''), (''id'', quoteJSON uuid), (''source'', quoteJSON source),
      (''specversion'', quoteJSON ''1.0''), (''time'', quoteJSON now), (''type'', quoteJSON ceType)]"

lemma marshal_cloudevent:
  assumes "keyOrder (WrapAsCloudEvent uuid now source ceType data) ks" and "enc data = Inr v"
  shows "marshalMap (encodeValue enc) ks (WrapAsCloudEvent uuid now source ceType data) = Inr (marshalObject (ceMembers uuid now source ceType v))"
proof -
  have "sort ks = ceKeys" using assms(1) by (intro sorted_ceKeys) (simp_all add: keyOrder_def ceKeys_dom [of uuid now source ceType data])
  then show ?thesis
    using assms(2) by (simp add: marshalMap_def ceMembers_def) (simp add: ceKeys_def WrapAsCloudEvent_def)
qed

section \<open>Properties\<close>

text \<open>C37: A CloudEvent travels unchanged inside an event: whatever the iteration order of the map, the data of
  the received envelope is a JSON object with exactly the seven members of the specification, whose
  texts read back as the source, the type, the id and the time given, and whose data is the payload's
  own text; the outer name and event id are those of the event.\<close>

theorem cloudevent_roundtrip:
  assumes names: "validUTF8 name" "validUTF8 eventId"
    and texts: "validUTF8 uuid" "validUTF8 now" "validUTF8 source" "validUTF8 ceType"
    and payload: "enc data = Inr v" "skipValue (maxNestingDepth - 2) v = Some []"
    and order: "\<And>m. keyOrder (WrapAsCloudEvent uuid now source ceType data) (order m)"
  shows "\<exists>body env ms. marshalEvent (\<lambda>m. marshalMap (encodeValue enc) (order m) m)
        \<lparr>ev_Name = name, ev_EventID = eventId, ev_Data = WrapAsCloudEvent uuid now source ceType data\<rparr> = Inr body \<and>
    unmarshalEnvelope body = Some env \<and> env_Name env = name \<and> env_EventID env = eventId \<and>
    topMembers (env_Data env) = Some ms \<and> map fst ms = ceKeys \<and> map_of ms ''data'' = Some v \<and>
    (\<forall>(k, t) \<in> {(''specversion'', ''1.0''), (''id'', uuid), (''source'', source), (''type'', ceType), (''time'', now),
        (''datacontenttype'', ''application/json'')}. Option.bind (map_of ms k) (\<lambda>w. storeString w []) = Some t)"
proof -
  let ?ce = "WrapAsCloudEvent uuid now source ceType data" and ?kvs = "ceMembers uuid now source ceType v"
  let ?enc = "\<lambda>m. marshalMap (encodeValue enc) (order m) m"
  have enc: "?enc ?ce = Inr (marshalObject ?kvs)" by (rule marshal_cloudevent [where enc = enc, OF order payload(1)])
  have deep: "maxNestingDepth - 1 = Suc (maxNestingDepth - 2)" by (simp add: maxNestingDepth_def)
  have inner: "\<forall>(k, w) \<in> set ?kvs. skipValue (maxNestingDepth - 2) w = Some []"
    using payload(2) by (auto simp: ceMembers_def skipValue_quote)
  have val: "isValue (marshalObject ?kvs)"
    unfolding isValue_def deep using inner by (intro skipValue_object) (simp add: ceMembers_def)
  obtain body where body: "marshalEvent ?enc \<lparr>ev_Name = name, ev_EventID = eventId, ev_Data = ?ce\<rparr> = Inr body"
    "unmarshalEnvelope body = Some (emptyEnvelope\<lparr>env_Name := name, env_EventID := eventId, env_Data := marshalObject ?kvs\<rparr>)"
    using event_decodes [where enc = ?enc and ev = "\<lparr>ev_Name = name, ev_EventID = eventId, ev_Data = ?ce\<rparr>" and v = "marshalObject ?kvs"]
      names enc val by auto
  have "map (\<lambda>(k, w). (escapeJSON k, w)) ?kvs = ?kvs" by (simp add: ceMembers_def escapeJSON_ceKeys)
  then have tops: "topMembers (marshalObject ?kvs) = Some ?kvs"
    using topMembers_marshal [of ?kvs] skipValue_deeper inner by (simp add: ceMembers_def isValue_def)
  have "map_of ?kvs ''data'' = Some v" "map fst ?kvs = ceKeys" by (simp_all add: ceMembers_def ceKeys_def)
  moreover have "\<forall>(k, t) \<in> {(''specversion'', ''1.0''), (''id'', uuid), (''source'', source), (''type'', ceType), (''time'', now),
        (''datacontenttype'', ''application/json'')}. Option.bind (map_of ?kvs k) (\<lambda>w. storeString w []) = Some t"
    using texts by (simp add: ceMembers_def storeString_quote ascii_valid)
  ultimately show ?thesis using body tops by auto
qed

theorem cloudevent_roundtrip_witness:
  "\<exists>body env ms. marshalEvent (\<lambda>m. marshalMap (encodeValue Inr) ceKeys m)
        \<lparr>ev_Name = ''placed'', ev_EventID = ''e-1'',
          ev_Data = WrapAsCloudEvent ''u-1'' ''2024-01-01T00:00:00Z'' ''/orders'' ''order.placed'' ''[1]''\<rparr> = Inr body \<and>
    unmarshalEnvelope body = Some env \<and> env_Name env = ''placed'' \<and>
    topMembers (env_Data env) = Some ms \<and> map_of ms ''data'' = Some ''[1]'' \<and>
    Option.bind (map_of ms ''type'') (\<lambda>w. storeString w []) = Some ''order.placed''"
proof -
  have valid: "validUTF8 ''placed''" "validUTF8 ''e-1''" "validUTF8 ''u-1''" "validUTF8 ''2024-01-01T00:00:00Z''" "validUTF8 ''/orders''"
    "validUTF8 ''order.placed''"
    by (simp_all add: ascii_valid)
  have v: "skipValue (maxNestingDepth - 2) ''[1]'' = Some []" by code_simp
  have o: "keyOrder (WrapAsCloudEvent ''u-1'' ''2024-01-01T00:00:00Z'' ''/orders'' ''order.placed'' ''[1]'') ceKeys"
    unfolding keyOrder_def using ceKeys_dom by (simp add: ceKeys_def)
  show ?thesis
    using cloudevent_roundtrip [where enc = Inr and order = "\<lambda>_. ceKeys", OF valid _ v o] by auto
qed

end
