(* ===== verification/RC_Array.thy ===== *)
theory RC_Array
  imports RC_JSON
begin

text \<open>
  JSON arrays, for the payloads that are lists: the elements of a text as the decoder of a slice sees
  them, and the text of a slice as the encoder writes it.
\<close>

section \<open>Definitions\<close>

text \<open>The elements after the opening bracket, as \<open>skipElems\<close> consumes them.\<close>

function scanElems :: "nat \<Rightarrow> bytes \<Rightarrow> (bytes list \<times> bytes) option" where
  "scanElems d s =
     (case skipValue d s of
        None \<Rightarrow> None
      | Some r \<Rightarrow>
          (case skipWs r of
             [] \<Rightarrow> None
           | y # r1 \<Rightarrow>
               (if y = CHR '']'' then Some ([upto s r], r1)
                else if y = CHR '','' \<and> length r1 < length s
                  then map_option (\<lambda>(vs, t). (upto s r # vs, t)) (scanElems d (skipWs r1))
                else None)))"
  by pat_completeness auto
termination
  by (relation "measure (\<lambda>(d, s). length s)") (auto intro: le_less_trans [OF skipWs_length])

declare scanElems.simps [simp del]

text \<open>The elements of the text when it is one JSON array; null is \<open>Some None\<close>, a nil slice.\<close>

definition topElements :: "bytes \<Rightarrow> bytes list option option" where
  "topElements body =
     (case skipWs body of
        [] \<Rightarrow> None
      | c # r \<Rightarrow>
          if c = CHR ''['' then
            (case skipWs r of
               [] \<Rightarrow> None
             | x # r1 \<Rightarrow>
                 if x = CHR '']'' then (if skipWs r1 = [] then Some (Some []) else None)
                 else (case scanElems (maxNestingDepth - 1) (x # r1) of
                         None \<Rightarrow> None
                       | Some (vs, t) \<Rightarrow> if skipWs t = [] then Some (Some vs) else None))
          else (case skipWord ''null'' (c # r) of
                  None \<Rightarrow> None
                | Some t \<Rightarrow> if skipWs t = [] then Some None else None))"

fun elems :: "bytes list \<Rightarrow> bytes" where
  "elems [] = []"
| "elems [v] = v"
| "elems (v # w # vs) = v @ CHR '','' # elems (w # vs)"

definition marshalArray :: "bytes list \<Rightarrow> bytes" where
  "marshalArray vs = CHR ''['' # elems vs @ [CHR '']'']"

section \<open>Facts\<close>

text \<open>The elements are where the scanner skips them.\<close>

lemma scanElems_skip: "map_option snd (scanElems d s) = skipElems d s"
proof (induction d s rule: scanElems.induct)
  case (1 d s)
  show ?case
  proof (cases "skipValue d s")
    case None
    then show ?thesis by (simp add: scanElems.simps [of d s] skipElems.simps [of d s])
  next
    case (Some r)
    show ?thesis
    proof (cases "skipWs r")
      case (Cons y r1)
      then show ?thesis
        using 1 [OF Some Cons] Some
        by (auto simp: scanElems.simps [of d s] skipElems.simps [of d s] option.map_comp comp_def case_prod_beta)
    qed (simp add: Some scanElems.simps [of d s] skipElems.simps [of d s])
  qed
qed

lemma scanElem:
  assumes "skipValue d v = Some []" and "y \<in> {CHR '']'', CHR '',''}"
  shows "skipValue d (v @ y # rest) = Some (y # rest)" "skipWs (v @ y # rest) = v @ y # rest" "upto (v @ y # rest) (y # rest) = v" "skipWs (y # rest) = y # rest"
proof -
  have del: "delimits (y # rest)" using assms(2) by (auto simp: delimits_def)
  show "skipValue d (v @ y # rest) = Some (y # rest)" using skipValue_append [OF assms(1), of "y # rest"] del by simp
  show "skipWs (v @ y # rest) = v @ y # rest" using skipValue_trimmed [OF assms(1)] by simp
  show "upto (v @ y # rest) (y # rest) = v" by (simp add: upto_def)
  show "skipWs (y # rest) = y # rest" using assms(2) by (auto simp: skipWs_def isSpace_def)
qed

lemma scanElems_elems:
  assumes "vs \<noteq> []" and "\<forall>v \<in> set vs. skipValue d v = Some []"
  shows "scanElems d (elems vs @ CHR '']'' # t) = Some (vs, t)"
  using assms
proof (induction vs rule: elems.induct)
  case (2 v)
  then show ?case using scanElem [of d v "CHR '']''" t] by (simp add: scanElems.simps [of d "v @ CHR '']'' # t"])
next
  case (3 v w vs)
  let ?rest = "elems (w # vs) @ CHR '']'' # t"
  have w: "skipWs ?rest = ?rest"
  proof -
    have "skipValue d w = Some []" using 3 by simp
    then show ?thesis using skipValue_trimmed [of d w "[]"] by (cases vs) auto
  qed
  show ?case
    using 3 scanElem [of d v "CHR '',''" ?rest] w by (simp add: scanElems.simps [of d "v @ CHR '','' # ?rest"])
qed simp

lemma skipNumber_bracket: "skipNumber (CHR '']'' # s) = None"
  by (simp add: skipNumber_def skipSign_def skipInt_def skipDigits_def isDigit_def inRange_def)

lemma skipValue_bracket: "skipValue d (CHR '']'' # s) = None"
  by (simp add: skipValue.simps [of d "CHR '']'' # s"] skipNumber_bracket)

lemma elems_head:
  assumes "vs \<noteq> []" and "\<forall>v \<in> set vs. skipValue d v = Some []"
  obtains c m where "elems vs = c # m" "\<not> isSpace c" "c \<noteq> CHR '']''"
proof -
  obtain v where v: "skipValue d v = Some []" "\<exists>m. elems vs = v @ m"
    using assms by (cases vs rule: elems.cases) auto
  obtain c u where c: "v = c # u" "\<not> isSpace c"
    using v(1) by (cases rule: skipValue_cases) (auto simp: isSpace_def dest: skipNumber_start)
  moreover have "c \<noteq> CHR '']''" using v(1) by (auto simp: c(1) skipValue_bracket)
  ultimately show ?thesis using v(2) that by auto
qed

lemma topElements_marshal:
  assumes "\<forall>v \<in> set vs. isValue v"
  shows "topElements (marshalArray vs) = Some (Some vs)"
proof (cases "vs = []")
  case True
  then show ?thesis by (simp add: topElements_def marshalArray_def skipWs_def isSpace_def)
next
  case False
  have vals: "\<forall>v \<in> set vs. skipValue (maxNestingDepth - 1) v = Some []" using assms by (simp add: isValue_def)
  from elems_head [OF False vals] obtain c m where c: "elems vs = c # m" "\<not> isSpace c" "c \<noteq> CHR '']''" .
  have "scanElems (maxNestingDepth - 1) (c # m @ [CHR '']'']) = Some (vs, [])"
    using scanElems_elems [OF False vals, of "[]"] by (simp add: c(1))
  then show ?thesis using c by (simp add: topElements_def marshalArray_def skipWs_def isSpace_def)
qed

text \<open>An array is a value one level up from its elements.\<close>

lemma skipValue_array:
  assumes "\<forall>v \<in> set vs. skipValue d v = Some []"
  shows "skipValue (Suc d) (marshalArray vs) = Some []"
proof (cases "vs = []")
  case True
  then show ?thesis by (simp add: skipValue.simps [of "Suc d"] marshalArray_def skipWs_def isSpace_def)
next
  case False
  from elems_head [OF False assms] obtain c m where c: "elems vs = c # m" "\<not> isSpace c" "c \<noteq> CHR '']''" .
  have "skipElems d (c # m @ [CHR '']'']) = Some []"
    using scanElems_elems [OF False assms, of "[]"] scanElems_skip [of d "c # m @ [CHR '']'']"] by (simp add: c(1))
  then show ?thesis using c by (simp add: skipValue.simps [of "Suc d"] marshalArray_def skipWs_def)
qed

end
