(* ===== verification/Kafka_Config.thy ===== *)
theory Kafka_Config
  imports RC_Async
begin

text \<open>
  Configuration of the Kafka transport (\<^verbatim>\<open>internal/kafka/config.go\<close>, \<^verbatim>\<open>kafka/config.go\<close>,
  \<^verbatim>\<open>kafka/builder.go\<close>). The naming functions are options, \<open>None\<close> for nil. The constants
  \<^verbatim>\<open>kgo.RequireAll\<close> and \<^verbatim>\<open>kgo.Snappy\<close> of the Kafka client library and the fresh UUID are parameters.
\<close>

section \<open>Durations as text\<close>

text \<open>\<^verbatim>\<open>time.Duration.String\<close>, which the verb \<^verbatim>\<open>%s\<close> uses: a fraction without trailing zeros and the unit.\<close>

definition padDigits :: "nat \<Rightarrow> nat \<Rightarrow> string" where
  "padDigits prec n = (let s = show_nat n in replicate (prec - length s) CHR ''0'' @ s)"

definition fracDigits :: "nat \<Rightarrow> nat \<Rightarrow> string" where
  "fracDigits prec n =
     (let ds = rev (dropWhile (\<lambda>c. c = CHR ''0'') (rev (padDigits prec n)))
      in if ds = [] then [] else CHR ''.'' # ds)"

definition fixedPoint :: "nat \<Rightarrow> nat \<Rightarrow> string" where
  "fixedPoint prec n = show_nat (n div 10 ^ prec) @ fracDigits prec (n mod 10 ^ prec)"

definition secondsString :: "nat \<Rightarrow> string" where
  "secondsString u =
     (let secs = u div 10 ^ 9; m = secs div 60; h = m div 60;
          s = show_nat (secs mod 60) @ fracDigits 9 (u mod 10 ^ 9) @ ''s''
      in if m = 0 then s
         else if h = 0 then show_nat (m mod 60) @ ''m'' @ s
         else show_nat h @ ''h'' @ show_nat (m mod 60) @ ''m'' @ s)"

definition durationString :: "duration \<Rightarrow> string" where
  "durationString d =
     (let u = nat \<bar>d\<bar>;
          s = (if u = 0 then ''0s''
               else if u < 1000 then show_nat u @ ''ns''
               else if u < 1000000 then fixedPoint 3 u @ [CHR 0xC2, CHR 0xB5] @ ''s''
               else if u < 10 ^ 9 then fixedPoint 6 u @ ''ms''
               else secondsString u)
      in if d < 0 then CHR ''-'' # s else s)"

section \<open>Configuration\<close>

type_synonym namer = "(gostring \<Rightarrow> gostring) option"

record KafkaConfig =
  kc_AppName :: gostring
  kc_BootstrapBrokers :: "gostring list"
  kc_ClientID :: gostring
  kc_InstanceID :: gostring
  kc_TLS :: "objref option"
  kc_SASL :: "objref option"
  kc_TopicNameFunc :: namer
  kc_NotificationTopicNameFunc :: namer
  kc_CommandsTopicNameFunc :: namer
  kc_QueriesTopicNameFunc :: namer
  kc_RepliesTopicNameFunc :: namer
  kc_ConsumerGroupPrefix :: gostring
  kc_DisableReplyListener :: bool
  kc_ProducerAcks :: int
  kc_ProducerBatchTimeout :: duration
  kc_ProducerCompression :: int
  kc_MaxMessageBytes :: int
  kc_HandlerTimeout :: duration
  kc_MaxRetryAttempts :: int
  kc_RetryInitialDelay :: duration
  kc_RetryMaxDelay :: duration
  kc_DLQSuffix :: gostring
  kc_AllowAutoCreateTopics :: bool
  kc_DefaultPartitions :: int
  kc_DefaultReplicationFactor :: int
  kc_ConsumerSessionTimeout :: duration
  kc_ConsumerHeartbeatInterval :: duration
  kc_AutoGenerateMissingEventID :: bool
  kc_Logger :: "objref option"
  kc_Tracer :: "objref option"
  kc_MeterProvider :: "objref option"

text \<open>The values the library and the process supply.\<close>

record kafkaEnv =
  ke_requireAll :: int
  ke_snappy :: int
  ke_slogDefault :: objref

definition k_NewConfigWithDefaults :: "kafkaEnv \<Rightarrow> gostring \<Rightarrow> KafkaConfig" where
  "k_NewConfigWithDefaults env uuid = \<lparr>
     kc_AppName = [], kc_BootstrapBrokers = [], kc_ClientID = [], kc_InstanceID = uuid,
     kc_TLS = None, kc_SASL = None,
     kc_TopicNameFunc = None, kc_NotificationTopicNameFunc = None, kc_CommandsTopicNameFunc = None,
     kc_QueriesTopicNameFunc = None, kc_RepliesTopicNameFunc = None, kc_ConsumerGroupPrefix = [],
     kc_DisableReplyListener = False,
     kc_ProducerAcks = ke_requireAll env, kc_ProducerBatchTimeout = 10 * goMillisecond,
     kc_ProducerCompression = ke_snappy env, kc_MaxMessageBytes = 1000000,
     kc_HandlerTimeout = 30 * goSecond, kc_MaxRetryAttempts = 5, kc_RetryInitialDelay = 1 * goSecond,
     kc_RetryMaxDelay = 30 * goSecond, kc_DLQSuffix = ''.dlq'', kc_AllowAutoCreateTopics = False,
     kc_DefaultPartitions = 3, kc_DefaultReplicationFactor = 1,
     kc_ConsumerSessionTimeout = 30 * goSecond, kc_ConsumerHeartbeatInterval = 3 * goSecond,
     kc_AutoGenerateMissingEventID = True, kc_Logger = Some (ke_slogDefault env),
     kc_Tracer = None, kc_MeterProvider = None\<rparr>"

definition shortID :: "gostring \<Rightarrow> gostring" where
  "shortID i = (if length i > 8 then take 8 i else i)"

definition applyIdentityDefaults :: "gostring \<Rightarrow> KafkaConfig \<Rightarrow> KafkaConfig" where
  "applyIdentityDefaults uuid cfg =
     (let cfg1 = cfg\<lparr>kc_InstanceID := orDefault [] (kc_InstanceID cfg) uuid\<rparr>
      in if kc_ClientID cfg1 = [] \<and> kc_AppName cfg1 \<noteq> []
         then cfg1\<lparr>kc_ClientID := kc_AppName cfg1 @ ''-'' @ shortID (kc_InstanceID cfg1)\<rparr>
         else cfg1)"

definition applyRoutingDefaults :: "KafkaConfig \<Rightarrow> KafkaConfig" where
  "applyRoutingDefaults cfg =
     (let appName = kc_AppName cfg
      in cfg\<lparr>
        kc_TopicNameFunc := orDefault None (kc_TopicNameFunc cfg) (Some (\<lambda>n. appName @ ''.'' @ n)),
        kc_NotificationTopicNameFunc :=
          orDefault None (kc_NotificationTopicNameFunc cfg) (Some (\<lambda>n. appName @ ''.'' @ n)),
        kc_CommandsTopicNameFunc := orDefault None (kc_CommandsTopicNameFunc cfg) (Some (\<lambda>a. a @ ''.commands'')),
        kc_QueriesTopicNameFunc := orDefault None (kc_QueriesTopicNameFunc cfg) (Some (\<lambda>a. a @ ''.queries'')),
        kc_RepliesTopicNameFunc := orDefault None (kc_RepliesTopicNameFunc cfg) (Some (\<lambda>a. a @ ''.replies'')),
        kc_ConsumerGroupPrefix := orDefault [] (kc_ConsumerGroupPrefix cfg) appName\<rparr>)"

definition k_WithDefaults :: "kafkaEnv \<Rightarrow> gostring \<Rightarrow> KafkaConfig \<Rightarrow> KafkaConfig" where
  "k_WithDefaults env uuid cfg =
     (let c = applyRoutingDefaults (applyIdentityDefaults uuid cfg)
      in c\<lparr>
        kc_ProducerAcks := orDefault 0 (kc_ProducerAcks c) (ke_requireAll env),
        kc_ProducerBatchTimeout := orDefault 0 (kc_ProducerBatchTimeout c) (10 * goMillisecond),
        kc_ProducerCompression := orDefault 0 (kc_ProducerCompression c) (ke_snappy env),
        kc_MaxMessageBytes := orDefault 0 (kc_MaxMessageBytes c) 1000000,
        kc_HandlerTimeout := orDefault 0 (kc_HandlerTimeout c) (30 * goSecond),
        kc_MaxRetryAttempts := orDefault 0 (kc_MaxRetryAttempts c) 5,
        kc_RetryInitialDelay := orDefault 0 (kc_RetryInitialDelay c) (1 * goSecond),
        kc_RetryMaxDelay := orDefault 0 (kc_RetryMaxDelay c) (30 * goSecond),
        kc_DLQSuffix := orDefault [] (kc_DLQSuffix c) ''.dlq'',
        kc_DefaultPartitions := orDefault 0 (kc_DefaultPartitions c) 3,
        kc_DefaultReplicationFactor := orDefault 0 (kc_DefaultReplicationFactor c) 1,
        kc_ConsumerSessionTimeout := orDefault 0 (kc_ConsumerSessionTimeout c) (30 * goSecond),
        kc_ConsumerHeartbeatInterval := orDefault 0 (kc_ConsumerHeartbeatInterval c) (3 * goSecond),
        kc_Logger := orDefault None (kc_Logger c) (Some (ke_slogDefault env))\<rparr>)"

definition k_Validate :: "KafkaConfig \<Rightarrow> goerror option" where
  "k_Validate cfg =
     (if kc_AppName cfg = [] then Some (ErrOther ''kafka: KafkaConfig.AppName is required'')
      else if kc_BootstrapBrokers cfg = []
        then Some (ErrOther ''kafka: KafkaConfig.BootstrapBrokers must contain at least one entry'')
      else if kc_MaxRetryAttempts cfg \<le> 0
        then Some (ErrOther (''kafka: KafkaConfig.MaxRetryAttempts must be > 0, got '' @ formatInt (kc_MaxRetryAttempts cfg)))
      else if kc_RetryInitialDelay cfg \<le> 0
        then Some (ErrOther (''kafka: KafkaConfig.RetryInitialDelay must be > 0, got '' @ durationString (kc_RetryInitialDelay cfg)))
      else if kc_RetryMaxDelay cfg < kc_RetryInitialDelay cfg
        then Some (ErrOther (''kafka: KafkaConfig.RetryMaxDelay ('' @ durationString (kc_RetryMaxDelay cfg) @
               '') must be >= RetryInitialDelay ('' @ durationString (kc_RetryInitialDelay cfg) @ '')''))
      else if kc_HandlerTimeout cfg \<le> 0
        then Some (ErrOther (''kafka: KafkaConfig.HandlerTimeout must be > 0, got '' @ durationString (kc_HandlerTimeout cfg)))
      else if kc_MaxMessageBytes cfg \<le> 0
        then Some (ErrOther (''kafka: KafkaConfig.MaxMessageBytes must be > 0, got '' @ formatInt (kc_MaxMessageBytes cfg)))
      else if kc_DefaultPartitions cfg \<le> 0
        then Some (ErrOther (''kafka: KafkaConfig.DefaultPartitions must be > 0, got '' @ formatInt (kc_DefaultPartitions cfg)))
      else if kc_DefaultReplicationFactor cfg \<le> 0
        then Some (ErrOther (''kafka: KafkaConfig.DefaultReplicationFactor must be > 0, got '' @ formatInt (kc_DefaultReplicationFactor cfg)))
      else None)"

text \<open>\<^verbatim>\<open>NewApplication\<close> up to the call of \<^verbatim>\<open>NewKafkaApp\<close>.\<close>

definition k_NewApplication :: "kafkaEnv \<Rightarrow> gostring \<Rightarrow> KafkaConfig \<Rightarrow> goerror + KafkaConfig" where
  "k_NewApplication env uuid cfg =
     (let cfg' = k_WithDefaults env uuid cfg
      in case k_Validate cfg' of Some e \<Rightarrow> Inl e | None \<Rightarrow> Inr cfg')"

section \<open>Properties\<close>

text \<open>What the listeners, the gateway and the topology code rely on.\<close>

definition usable :: "KafkaConfig \<Rightarrow> bool" where
  "usable c \<longleftrightarrow> kc_AppName c \<noteq> [] \<and> kc_BootstrapBrokers c \<noteq> [] \<and> 0 < kc_MaxRetryAttempts c \<and>
     0 < kc_RetryInitialDelay c \<and> kc_RetryInitialDelay c \<le> kc_RetryMaxDelay c \<and> 0 < kc_HandlerTimeout c \<and>
     0 < kc_MaxMessageBytes c \<and> 0 < kc_DefaultPartitions c \<and> 0 < kc_DefaultReplicationFactor c"

lemma k_Validate_usable: "k_Validate cfg = None \<longleftrightarrow> usable cfg"
  by (auto simp: k_Validate_def usable_def)

lemma orDefault_other [simp]: "orDefault z x d \<noteq> z \<Longrightarrow> orDefault z (orDefault z x d) d' = orDefault z x d"
  by (simp add: orDefault_def)

definition resolvedClientID :: "gostring \<Rightarrow> KafkaConfig \<Rightarrow> gostring" where
  "resolvedClientID uuid cfg =
     (if kc_ClientID cfg = [] \<and> kc_AppName cfg \<noteq> []
      then kc_AppName cfg @ ''-'' @ shortID (orDefault [] (kc_InstanceID cfg) uuid) else kc_ClientID cfg)"

lemma applyIdentityDefaults_eq:
  "applyIdentityDefaults uuid cfg =
     cfg\<lparr>kc_InstanceID := orDefault [] (kc_InstanceID cfg) uuid, kc_ClientID := resolvedClientID uuid cfg\<rparr>"
  by (simp add: applyIdentityDefaults_def Let_def resolvedClientID_def)

lemmas k_defaults = k_WithDefaults_def applyRoutingDefaults_def applyIdentityDefaults_eq Let_def

lemma k_WithDefaults_idem:
  assumes "uuid \<noteq> []"
  shows "k_WithDefaults env uuid' (k_WithDefaults env uuid cfg) = k_WithDefaults env uuid cfg"
proof -
  have c: "resolvedClientID uuid' (k_WithDefaults env uuid cfg) = resolvedClientID uuid cfg"
    by (simp add: k_defaults) (simp add: resolvedClientID_def)
  have i: "orDefault [] (orDefault [] (kc_InstanceID cfg) uuid) uuid' = orDefault [] (kc_InstanceID cfg) uuid"
    using assms by simp
  show ?thesis using c by (simp add: k_defaults i)
qed

text \<open>The fields a caller can set and the value the transport sees.\<close>

definition k_keepsSettings :: "KafkaConfig \<Rightarrow> KafkaConfig \<Rightarrow> bool" where
  "k_keepsSettings cfg c \<longleftrightarrow>
     kc_AppName c = kc_AppName cfg \<and> kc_BootstrapBrokers c = kc_BootstrapBrokers cfg \<and>
     kept [] (kc_ClientID cfg) (kc_ClientID c) \<and> kept [] (kc_InstanceID cfg) (kc_InstanceID c) \<and>
     kept None (kc_TopicNameFunc cfg) (kc_TopicNameFunc c) \<and>
     kept None (kc_NotificationTopicNameFunc cfg) (kc_NotificationTopicNameFunc c) \<and>
     kept None (kc_CommandsTopicNameFunc cfg) (kc_CommandsTopicNameFunc c) \<and>
     kept None (kc_QueriesTopicNameFunc cfg) (kc_QueriesTopicNameFunc c) \<and>
     kept None (kc_RepliesTopicNameFunc cfg) (kc_RepliesTopicNameFunc c) \<and>
     kept 0 (kc_MaxMessageBytes cfg) (kc_MaxMessageBytes c) \<and>
     kept 0 (kc_HandlerTimeout cfg) (kc_HandlerTimeout c) \<and>
     kept 0 (kc_MaxRetryAttempts cfg) (kc_MaxRetryAttempts c) \<and>
     kept 0 (kc_RetryInitialDelay cfg) (kc_RetryInitialDelay c) \<and>
     kept 0 (kc_RetryMaxDelay cfg) (kc_RetryMaxDelay c) \<and> kept [] (kc_DLQSuffix cfg) (kc_DLQSuffix c) \<and>
     kc_DisableReplyListener c = kc_DisableReplyListener cfg \<and>
     kc_AllowAutoCreateTopics c = kc_AllowAutoCreateTopics cfg \<and>
     kc_AutoGenerateMissingEventID c = kc_AutoGenerateMissingEventID cfg"

lemma k_WithDefaults_keeps: "k_keepsSettings cfg (k_WithDefaults env uuid cfg)"
  by (simp add: k_keepsSettings_def k_defaults) (simp add: resolvedClientID_def kept_def)

lemma usable_WithDefaults:
  "usable (k_WithDefaults env uuid cfg) \<longleftrightarrow>
     kc_AppName cfg \<noteq> [] \<and> kc_BootstrapBrokers cfg \<noteq> [] \<and> 0 \<le> kc_MaxRetryAttempts cfg \<and>
     0 \<le> kc_RetryInitialDelay cfg \<and>
     orDefault 0 (kc_RetryInitialDelay cfg) goSecond \<le> orDefault 0 (kc_RetryMaxDelay cfg) (30 * goSecond) \<and>
     0 \<le> kc_HandlerTimeout cfg \<and> 0 \<le> kc_MaxMessageBytes cfg \<and> 0 \<le> kc_DefaultPartitions cfg \<and>
     0 \<le> kc_DefaultReplicationFactor cfg"
proof -
  have pos: "0 < orDefault 0 x d \<longleftrightarrow> 0 \<le> x" if "0 < d" for x d :: int
    using that by (auto simp: orDefault_def)
  show ?thesis by (simp add: usable_def k_defaults pos duration_units)
qed

text \<open>\<^verbatim>\<open>NewApplication\<close> accepts exactly the configurations with an application name and a broker whose
  numeric settings are not negative and whose retry delays, after the defaults, are in order; what it
  passes on is usable, keeps every value the caller set (a numeric zero counts as not set), has an
  instance id, and would not be changed by applying the defaults again. A refused configuration is
  refused with an error.\<close>

theorem k_NewApplication_resolves:
  assumes "uuid \<noteq> []"
  shows "case k_NewApplication env uuid cfg of
      Inr c \<Rightarrow> usable c \<and> k_keepsSettings cfg c \<and> kc_InstanceID c \<noteq> [] \<and> kc_ClientID c \<noteq> [] \<and>
        kc_DLQSuffix c \<noteq> [] \<and> k_WithDefaults env uuid' c = c
    | Inl e \<Rightarrow> kc_AppName cfg = [] \<or> kc_BootstrapBrokers cfg = [] \<or> kc_MaxRetryAttempts cfg < 0 \<or>
        kc_RetryInitialDelay cfg < 0 \<or> kc_HandlerTimeout cfg < 0 \<or> kc_MaxMessageBytes cfg < 0 \<or>
        kc_DefaultPartitions cfg < 0 \<or> kc_DefaultReplicationFactor cfg < 0 \<or>
        orDefault 0 (kc_RetryMaxDelay cfg) (30 * goSecond) < orDefault 0 (kc_RetryInitialDelay cfg) goSecond"
proof (cases "k_Validate (k_WithDefaults env uuid cfg)")
  case None
  then have u: "usable (k_WithDefaults env uuid cfg)" by (simp add: k_Validate_usable)
  then have "kc_AppName cfg \<noteq> []" by (simp add: usable_WithDefaults)
  with assms have "kc_InstanceID (k_WithDefaults env uuid cfg) \<noteq> []" "kc_ClientID (k_WithDefaults env uuid cfg) \<noteq> []"
    "kc_DLQSuffix (k_WithDefaults env uuid cfg) \<noteq> []"
    by (simp_all add: k_defaults) (simp add: resolvedClientID_def)
  with None u k_WithDefaults_keeps [of cfg env uuid] k_WithDefaults_idem [OF assms, of env uuid' cfg] show ?thesis
    by (simp add: k_NewApplication_def Let_def)
next
  case (Some e)
  then have "\<not> usable (k_WithDefaults env uuid cfg)" by (simp add: k_Validate_usable [symmetric])
  with Some show ?thesis by (auto simp: k_NewApplication_def Let_def usable_WithDefaults)
qed

definition exampleEnv :: kafkaEnv where
  "exampleEnv = \<lparr>ke_requireAll = -1, ke_snappy = 2, ke_slogDefault = 0\<rparr>"

definition exampleKafka :: KafkaConfig where
  "exampleKafka = (k_NewConfigWithDefaults exampleEnv ''instance-1'')\<lparr>kc_AppName := ''app'', kc_BootstrapBrokers := [''b1:9092'']\<rparr>"

theorem k_NewApplication_resolves_witness:
  "\<exists>c. k_NewApplication exampleEnv ''u1'' exampleKafka = Inr c \<and> kc_ClientID c = ''app-instance'' \<and> usable c"
proof -
  have "usable (k_WithDefaults exampleEnv ''u1'' exampleKafka)"
    by (simp add: usable_WithDefaults exampleKafka_def k_NewConfigWithDefaults_def orDefault_def duration_units)
  then have "k_NewApplication exampleEnv ''u1'' exampleKafka = Inr (k_WithDefaults exampleEnv ''u1'' exampleKafka)"
    by (simp add: k_NewApplication_def k_Validate_usable [symmetric] Let_def)
  moreover have "kc_ClientID (k_WithDefaults exampleEnv ''u1'' exampleKafka) = ''app-instance''"
    by (simp add: k_defaults) (simp add: resolvedClientID_def exampleKafka_def k_NewConfigWithDefaults_def
        orDefault_def shortID_def)
  ultimately show ?thesis
    using k_NewApplication_resolves [of "''u1''", where env = exampleEnv and cfg = exampleKafka and uuid' = "''u2''"] by simp
qed

end
