(* ===== verification/Kafka_Topology.thy ===== *)
theory Kafka_Topology
  imports Kafka_Config
begin

text \<open>
  Names, topics and brokers of the Kafka transport (\<^verbatim>\<open>internal/kafka/topology.go\<close>,
  \<^verbatim>\<open>internal/kafka/connection.go\<close>, \<^verbatim>\<open>verifyDial\<close> of \<^verbatim>\<open>internal/kafka/application.go\<close>). The cluster is a
  parameter: what a broker answers to a dial, a metadata request or the creation of topics.
\<close>

section \<open>Names\<close>

definition topicForEvent :: "KafkaConfig \<Rightarrow> gostring \<Rightarrow> gostring" where
  "topicForEvent cfg name = (case kc_TopicNameFunc cfg of Some f \<Rightarrow> f name | None \<Rightarrow> kc_AppName cfg @ ''.'' @ name)"

definition topicForNotification :: "KafkaConfig \<Rightarrow> gostring \<Rightarrow> gostring" where
  "topicForNotification cfg name =
     (case kc_NotificationTopicNameFunc cfg of Some f \<Rightarrow> f name | None \<Rightarrow> kc_AppName cfg @ ''.'' @ name)"

definition topicForCommand :: "KafkaConfig \<Rightarrow> gostring \<Rightarrow> gostring" where
  "topicForCommand cfg app = (case kc_CommandsTopicNameFunc cfg of Some f \<Rightarrow> f app | None \<Rightarrow> app @ ''.commands'')"

definition topicForQuery :: "KafkaConfig \<Rightarrow> gostring \<Rightarrow> gostring" where
  "topicForQuery cfg app = (case kc_QueriesTopicNameFunc cfg of Some f \<Rightarrow> f app | None \<Rightarrow> app @ ''.queries'')"

definition topicForReply :: "KafkaConfig \<Rightarrow> gostring" where
  "topicForReply cfg =
     (case kc_RepliesTopicNameFunc cfg of Some f \<Rightarrow> f (kc_AppName cfg) | None \<Rightarrow> kc_AppName cfg @ ''.replies'')"

definition groupPrefix :: "KafkaConfig \<Rightarrow> gostring" where
  "groupPrefix cfg = (if kc_ConsumerGroupPrefix cfg \<noteq> [] then kc_ConsumerGroupPrefix cfg else kc_AppName cfg)"

definition groupIDForEvent :: "KafkaConfig \<Rightarrow> gostring \<Rightarrow> gostring" where
  "groupIDForEvent cfg name = groupPrefix cfg @ ''.'' @ name"

definition groupIDForNotification :: "KafkaConfig \<Rightarrow> gostring \<Rightarrow> gostring \<Rightarrow> gostring" where
  "groupIDForNotification cfg name instanceID = groupPrefix cfg @ ''.'' @ name @ ''.'' @ instanceID"

definition groupIDForCommand :: "KafkaConfig \<Rightarrow> gostring" where
  "groupIDForCommand cfg = groupPrefix cfg @ ''.commands''"

definition groupIDForQuery :: "KafkaConfig \<Rightarrow> gostring" where
  "groupIDForQuery cfg = groupPrefix cfg @ ''.queries''"

definition groupIDForReply :: "KafkaConfig \<Rightarrow> gostring" where
  "groupIDForReply cfg = groupPrefix cfg @ ''.replies.'' @ kc_InstanceID cfg"

section \<open>The cluster\<close>

record Dialer =
  dl_Timeout :: duration
  dl_DualStack :: bool
  dl_ClientID :: gostring
  dl_TLS :: "objref option"
  dl_SASLMechanism :: "objref option"

definition dialer :: "KafkaConfig \<Rightarrow> Dialer" where
  "dialer cfg =
     (let d = \<lparr>dl_Timeout = 10 * goSecond, dl_DualStack = True, dl_ClientID = kc_ClientID cfg,
               dl_TLS = None, dl_SASLMechanism = None\<rparr>;
          d1 = (if kc_TLS cfg \<noteq> None then d\<lparr>dl_TLS := kc_TLS cfg\<rparr> else d)
      in if kc_SASL cfg \<noteq> None then d1\<lparr>dl_SASLMechanism := kc_SASL cfg\<rparr> else d1)"

record TopicConfig =
  tc_Topic :: gostring
  tc_NumPartitions :: int
  tc_ReplicationFactor :: int

text \<open>
  The answers of the brokers: \<open>cl_dial\<close> with a dialer and an address, \<open>cl_topics\<close> the topic of every
  partition of the cluster (\<^verbatim>\<open>ReadPartitions()\<close>), \<open>cl_partitions\<close> the number of partitions of one topic,
  \<open>cl_controller\<close> the host and port of the controller, \<open>cl_create\<close> the creation of topics by the
  broker at an address.
\<close>

record cluster =
  cl_dial :: "Dialer \<Rightarrow> gostring \<Rightarrow> goerror option"
  cl_topics :: "gostring \<Rightarrow> goerror + gostring list"
  cl_partitions :: "gostring \<Rightarrow> gostring \<Rightarrow> goerror + nat"
  cl_controller :: "gostring \<Rightarrow> goerror + gostring \<times> int"
  cl_create :: "gostring \<Rightarrow> TopicConfig list \<Rightarrow> goerror option"

section \<open>Operations\<close>

text \<open>
  \<^verbatim>\<open>fmt.Errorf("%w: %w", ErrBrokerUnreachable, lastErr)\<close>; the error of the last broker is kept as text,
  nothing inspects it.
\<close>

definition unreachable :: "goerror option \<Rightarrow> goerror" where
  "unreachable lastErr =
     ErrBrokerUnreachable (errorText (case lastErr of None \<Rightarrow> ErrOther ''no brokers configured'' | Some e \<Rightarrow> e))"

fun verifyDialLoop :: "cluster \<Rightarrow> Dialer \<Rightarrow> gostring list \<Rightarrow> goerror option \<Rightarrow> goerror option" where
  "verifyDialLoop cl d [] lastErr =
     Some (ErrBrokerUnreachable (case lastErr of None \<Rightarrow> ''<nil>'' | Some e \<Rightarrow> errorText e))"
| "verifyDialLoop cl d (addr # as) lastErr =
     (case cl_dial cl d addr of Some e \<Rightarrow> verifyDialLoop cl d as (Some e) | None \<Rightarrow> None)"

definition verifyDial :: "cluster \<Rightarrow> KafkaConfig \<Rightarrow> goerror option" where
  "verifyDial cl cfg = verifyDialLoop cl (dialer cfg) (kc_BootstrapBrokers cfg) None"

fun partitionLoop :: "cluster \<Rightarrow> Dialer \<Rightarrow> gostring \<Rightarrow> gostring list \<Rightarrow> goerror option \<Rightarrow> goerror + nat" where
  "partitionLoop cl d topic [] lastErr = Inl (unreachable lastErr)"
| "partitionLoop cl d topic (addr # as) lastErr =
     (case cl_dial cl d addr of
        Some e \<Rightarrow> partitionLoop cl d topic as (Some e)
      | None \<Rightarrow> (case cl_partitions cl addr topic of
                  Inl e \<Rightarrow> partitionLoop cl d topic as (Some e)
                | Inr n \<Rightarrow> Inr n))"

definition partitionCount :: "cluster \<Rightarrow> KafkaConfig \<Rightarrow> gostring \<Rightarrow> goerror + nat" where
  "partitionCount cl cfg topic = partitionLoop cl (dialer cfg) topic (kc_BootstrapBrokers cfg) None"

text \<open>
  \<^verbatim>\<open>replyTopicPartitions\<close>: \<open>cls i\<close> is the cluster at the \<open>i\<close>-th lookup, \<open>ctxDone i\<close> that the context ended
  during the pause before it. The result is the count, the error, and the number of lookups made.
\<close>

fun replyPartitionsLoop :: "(nat \<Rightarrow> cluster) \<Rightarrow> (nat \<Rightarrow> bool) \<Rightarrow> KafkaConfig \<Rightarrow> nat \<Rightarrow> nat \<Rightarrow> goerror option \<Rightarrow>
    nat \<times> goerror option \<times> nat" where
  "replyPartitionsLoop cls ctxDone cfg 0 i lastErr = (1, lastErr, i)"
| "replyPartitionsLoop cls ctxDone cfg (Suc n) i lastErr =
     (if i > 0 \<and> ctxDone i then (1, lastErr, i)
      else case partitionCount (cls i) cfg (topicForReply cfg) of
             Inr k \<Rightarrow> if k > 0 then (k, None, Suc i) else replyPartitionsLoop cls ctxDone cfg n (Suc i) None
           | Inl e \<Rightarrow> replyPartitionsLoop cls ctxDone cfg n (Suc i) (Some e))"

definition replyTopicPartitions :: "(nat \<Rightarrow> cluster) \<Rightarrow> (nat \<Rightarrow> bool) \<Rightarrow> KafkaConfig \<Rightarrow> nat \<times> goerror option \<times> nat" where
  "replyTopicPartitions cls ctxDone cfg = replyPartitionsLoop cls ctxDone cfg 5 0 None"

fun toCreateLoop :: "gostring set \<Rightarrow> KafkaConfig \<Rightarrow> gostring list \<Rightarrow> TopicConfig list \<Rightarrow> goerror + TopicConfig list" where
  "toCreateLoop existing cfg [] toCreate = Inr toCreate"
| "toCreateLoop existing cfg (t # ts) toCreate =
     (if t \<in> existing then toCreateLoop existing cfg ts toCreate
      else if \<not> kc_AllowAutoCreateTopics cfg then Inl (ErrTopicMissing t)
      else toCreateLoop existing cfg ts
             (toCreate @ [\<lparr>tc_Topic = t, tc_NumPartitions = kc_DefaultPartitions cfg,
                           tc_ReplicationFactor = kc_DefaultReplicationFactor cfg\<rparr>]))"

definition topicsToCreate :: "gostring list \<Rightarrow> KafkaConfig \<Rightarrow> gostring list \<Rightarrow> goerror + TopicConfig list" where
  "topicsToCreate partitions cfg topics = toCreateLoop (set partitions) cfg topics []"

text \<open>\<^verbatim>\<open>net.JoinHostPort\<close> puts a host with a colon in brackets.\<close>

definition joinHostPort :: "gostring \<Rightarrow> gostring \<Rightarrow> gostring" where
  "joinHostPort host port =
     (if CHR '':'' \<in> set host then ''['' @ host @ '']:'' @ port else host @ '':'' @ port)"

text \<open>The result also lists the topics the controller was asked to create.\<close>

definition createTopicsViaController :: "cluster \<Rightarrow> Dialer \<Rightarrow> gostring \<Rightarrow> TopicConfig list \<Rightarrow>
    goerror option \<times> TopicConfig list" where
  "createTopicsViaController cl d addr toCreate =
     (case cl_controller cl addr of
        Inl e \<Rightarrow> (Some (Wrapped ''kafka: read controller'' e), [])
      | Inr (host, port) \<Rightarrow>
          (let controllerAddr = joinHostPort host (formatInt port)
           in case cl_dial cl d controllerAddr of
                Some e \<Rightarrow> (Some (ErrBrokerUnreachable (''controller '' @ controllerAddr @ '': '' @ errorText e)), [])
              | None \<Rightarrow> (case cl_create cl controllerAddr toCreate of
                           Some e \<Rightarrow> (Some (Wrapped ''kafka: create topics'' e), toCreate)
                         | None \<Rightarrow> (None, toCreate))))"

fun verifyTopicsLoop :: "cluster \<Rightarrow> Dialer \<Rightarrow> KafkaConfig \<Rightarrow> gostring list \<Rightarrow> gostring list \<Rightarrow> goerror option \<Rightarrow>
    goerror option \<times> TopicConfig list" where
  "verifyTopicsLoop cl d cfg topics [] lastErr = (Some (unreachable lastErr), [])"
| "verifyTopicsLoop cl d cfg topics (addr # as) lastErr =
     (case cl_dial cl d addr of
        Some e \<Rightarrow> verifyTopicsLoop cl d cfg topics as (Some e)
      | None \<Rightarrow>
          (case cl_topics cl addr of
             Inl e \<Rightarrow> verifyTopicsLoop cl d cfg topics as (Some e)
           | Inr partitions \<Rightarrow>
               (case topicsToCreate partitions cfg topics of
                  Inl e \<Rightarrow> (Some e, [])
                | Inr toCreate \<Rightarrow>
                    if toCreate = [] then (None, []) else createTopicsViaController cl d addr toCreate)))"

definition verifyTopics :: "cluster \<Rightarrow> KafkaConfig \<Rightarrow> gostring list \<Rightarrow> goerror option \<times> TopicConfig list" where
  "verifyTopics cl cfg topics =
     (if topics = [] then (None, [])
      else verifyTopicsLoop cl (dialer cfg) cfg topics (kc_BootstrapBrokers cfg) None)"

section \<open>Facts\<close>

definition missingTopic :: "KafkaConfig \<Rightarrow> gostring \<Rightarrow> TopicConfig" where
  "missingTopic cfg t = \<lparr>tc_Topic = t, tc_NumPartitions = kc_DefaultPartitions cfg,
     tc_ReplicationFactor = kc_DefaultReplicationFactor cfg\<rparr>"

lemma toCreateLoop_eq:
  "toCreateLoop ex cfg ts acc =
     (if kc_AllowAutoCreateTopics cfg then Inr (acc @ map (missingTopic cfg) (filter (\<lambda>t. t \<notin> ex) ts))
      else case find (\<lambda>t. t \<notin> ex) ts of None \<Rightarrow> Inr acc | Some t \<Rightarrow> Inl (ErrTopicMissing t))"
  by (induction ts arbitrary: acc) (auto simp: missingTopic_def)

lemma topicsToCreate_eq:
  "topicsToCreate ps cfg ts =
     (if kc_AllowAutoCreateTopics cfg then Inr (map (missingTopic cfg) (filter (\<lambda>t. t \<notin> set ps) ts))
      else case find (\<lambda>t. t \<notin> set ps) ts of None \<Rightarrow> Inr [] | Some t \<Rightarrow> Inl (ErrTopicMissing t))"
  by (simp add: topicsToCreate_def toCreateLoop_eq)

text \<open>A broker answers when it can be dialled and lists the topics; the first one that does decides.\<close>

definition answers :: "cluster \<Rightarrow> Dialer \<Rightarrow> gostring \<Rightarrow> bool" where
  "answers cl d addr \<longleftrightarrow> cl_dial cl d addr = None \<and> (\<exists>ps. cl_topics cl addr = Inr ps)"

definition settleTopics :: "cluster \<Rightarrow> KafkaConfig \<Rightarrow> gostring list \<Rightarrow> gostring \<Rightarrow> goerror option \<times> TopicConfig list" where
  "settleTopics cl cfg topics addr =
     (case cl_topics cl addr of
        Inl e \<Rightarrow> (Some e, [])
      | Inr ps \<Rightarrow> (case topicsToCreate ps cfg topics of
                    Inl e \<Rightarrow> (Some e, [])
                  | Inr tcs \<Rightarrow> if tcs = [] then (None, []) else createTopicsViaController cl (dialer cfg) addr tcs))"

lemma verifyTopicsLoop_first:
  "find (answers cl (dialer cfg)) as = Some addr \<Longrightarrow>
     verifyTopicsLoop cl (dialer cfg) cfg topics as le = settleTopics cl cfg topics addr"
  by (induction as arbitrary: le)
    (auto simp: answers_def settleTopics_def split: option.splits sum.splits if_splits)

lemma verifyTopicsLoop_none:
  "find (answers cl (dialer cfg)) as = None \<Longrightarrow>
     \<exists>d. verifyTopicsLoop cl (dialer cfg) cfg topics as le = (Some (ErrBrokerUnreachable d), [])"
  by (induction as arbitrary: le)
    (auto simp: answers_def unreachable_def split: option.splits sum.splits if_splits)

lemma verifyDialLoop_None: "verifyDialLoop cl d as le = None \<longleftrightarrow> (\<exists>a \<in> set as. cl_dial cl d a = None)"
  by (induction as arbitrary: le) (auto split: option.splits)

lemma replyPartitionsLoop_bounds:
  "1 \<le> fst (replyPartitionsLoop cls ctxDone cfg n i le) \<and>
   snd (snd (replyPartitionsLoop cls ctxDone cfg n i le)) \<in> {i..i + n}"
proof (induction n arbitrary: i le)
  case (Suc n)
  show ?case
  proof (cases "partitionCount (cls i) cfg (topicForReply cfg)")
    case (Inl e)
    then show ?thesis using Suc [of "Suc i" "Some e"] by auto
  next
    case (Inr k)
    then show ?thesis using Suc [of "Suc i" None] by auto
  qed
qed simp

section \<open>Properties\<close>

text \<open>\<^verbatim>\<open>verifyTopics\<close> succeeds only when every required topic exists at the broker that answered or
  was created with the configured partitions and replication; it never creates a topic that exists
  or when automatic creation is off. It fails with the missing-topic error exactly for the first
  required topic that is missing at that broker, and with the unreachable error when no bootstrap
  broker answers; in these cases nothing is created.\<close>

theorem verifyTopics_correct:
  assumes "topics \<noteq> []"
  shows "case find (answers cl (dialer cfg)) (kc_BootstrapBrokers cfg) of
      None \<Rightarrow> (\<exists>d. verifyTopics cl cfg topics = (Some (ErrBrokerUnreachable d), []))
    | Some addr \<Rightarrow> (\<exists>ps. cl_topics cl addr = Inr ps \<and>
        (case verifyTopics cl cfg topics of
           (None, created) \<Rightarrow> set topics \<subseteq> set ps \<union> tc_Topic ` set created \<and>
             (\<forall>t \<in> set created. kc_AllowAutoCreateTopics cfg \<and> tc_Topic t \<in> set topics - set ps \<and>
                t = missingTopic cfg (tc_Topic t))
         | (Some (ErrTopicMissing t), created) \<Rightarrow> created = [] \<and> \<not> kc_AllowAutoCreateTopics cfg \<and>
             find (\<lambda>t. t \<notin> set ps) topics = Some t
         | (Some e, created) \<Rightarrow> kc_AllowAutoCreateTopics cfg \<and> \<not> set topics \<subseteq> set ps))"
proof (cases "find (answers cl (dialer cfg)) (kc_BootstrapBrokers cfg)")
  case None
  from verifyTopicsLoop_none [OF None] assms show ?thesis by (auto simp: None verifyTopics_def)
next
  case (Some addr)
  then have v: "verifyTopics cl cfg topics = settleTopics cl cfg topics addr"
    using assms by (simp add: verifyTopics_def verifyTopicsLoop_first)
  obtain ps where ps: "cl_topics cl addr = Inr ps"
    using Some by (auto simp: find_Some_iff answers_def)
  show ?thesis
  proof (cases "kc_AllowAutoCreateTopics cfg")
    case True
    let ?tcs = "map (missingTopic cfg) (filter (\<lambda>t. t \<notin> set ps) topics)"
    have sub: "set topics \<subseteq> set ps \<union> tc_Topic ` set ?tcs" and
      new: "\<forall>t \<in> set ?tcs. tc_Topic t \<in> set topics - set ps \<and> t = missingTopic cfg (tc_Topic t)"
      by (auto simp: missingTopic_def image_iff)
    show ?thesis
    proof (cases "?tcs = []")
      case nil: True
      then have "set topics \<subseteq> set ps" by (auto simp: filter_empty_conv)
      then show ?thesis by (simp add: Some ps v settleTopics_def topicsToCreate_eq True nil)
    next
      case False
      then have "\<not> set topics \<subseteq> set ps" by (auto simp: filter_empty_conv)
      with False sub new show ?thesis
        by (auto simp: Some ps v settleTopics_def topicsToCreate_eq True createTopicsViaController_def Let_def
            split: sum.split option.split)
    qed
  next
    case False
    show ?thesis
    proof (cases "find (\<lambda>t. t \<notin> set ps) topics")
      case None
      then have "set topics \<subseteq> set ps" by (auto simp: find_None_iff)
      with None show ?thesis by (simp add: Some ps v settleTopics_def topicsToCreate_eq False)
    next
      case f: (Some t)
      then show ?thesis by (simp add: Some ps v settleTopics_def topicsToCreate_eq False)
    qed
  qed
qed

text \<open>A cluster with one broker that has the topics \<open>ts\<close> and creates what it is asked to.\<close>

definition exampleCluster :: "gostring list \<Rightarrow> cluster" where
  "exampleCluster ts = \<lparr>cl_dial = (\<lambda>_ a. if a = ''b1:9092'' then None else Some (ErrOther ''refused'')),
     cl_topics = (\<lambda>_. Inr ts), cl_partitions = (\<lambda>_ t. if t \<in> set ts then Inr 3 else Inr 0),
     cl_controller = (\<lambda>_. Inr (''b1'', 9092)), cl_create = (\<lambda>_ _. None)\<rparr>"

theorem verifyTopics_correct_witness:
  "find (\<lambda>t. t \<notin> {''app.a''}) [''app.a'', ''app.b'', ''app.c''] = Some ''app.b'' \<and>
   verifyTopics (exampleCluster [''app.a'']) exampleKafka [''app.a'', ''app.b'', ''app.c''] =
     (Some (ErrTopicMissing ''app.b''), [])"
proof -
  have run: "verifyTopics (exampleCluster [''app.a'']) exampleKafka [''app.a'', ''app.b'', ''app.c''] =
     (Some (ErrTopicMissing ''app.b''), [])"
    by (simp add: verifyTopics_def exampleCluster_def exampleKafka_def k_NewConfigWithDefaults_def topicsToCreate_eq)
  have "find (answers (exampleCluster [''app.a'']) (dialer exampleKafka)) (kc_BootstrapBrokers exampleKafka) = Some ''b1:9092''"
    by (simp add: answers_def exampleCluster_def exampleKafka_def)
  with verifyTopics_correct [of "[''app.a'', ''app.b'', ''app.c'']" "exampleCluster [''app.a'']" exampleKafka] run
  show ?thesis by (simp add: exampleCluster_def)
qed

end
