(* ===== verification/Kafka_Wire.thy ===== *)
theory Kafka_Wire
  imports Kafka_Topology
begin

text \<open>
  What the Kafka transport writes and reads: messages and their headers, the envelope codec
  (\<^verbatim>\<open>internal/envelope/codec.go\<close>), the producer (\<^verbatim>\<open>internal/kafka/producer.go\<close>), the dead-letter
  producer (\<^verbatim>\<open>internal/kafka/dlq.go\<close>) and the event bus (\<^verbatim>\<open>internal/kafka/eventbus.go\<close>).

  The writer of the client library is a parameter \<open>write\<close> that gives the error of writing one message;
  \<open>order\<close> is the order in which the runtime ranges over a header map. Operations return their error
  and the messages they tried to write.
\<close>

section \<open>Messages\<close>

type_synonym kheaders = "gostring \<rightharpoonup> gostring"

record kmessage =
  km_Topic :: gostring
  km_Partition :: nat
  km_Offset :: nat
  km_Key :: bytes
  km_Value :: bytes
  km_Headers :: "(gostring \<times> bytes) list"

definition headerValue :: "kmessage \<Rightarrow> gostring \<Rightarrow> gostring" where
  "headerValue msg key = (case find (\<lambda>h. fst h = key) (km_Headers msg) of Some h \<Rightarrow> snd h | None \<Rightarrow> [])"

definition libraryVersion :: gostring where
  "libraryVersion = ''0.1.0''"

text \<open>\<^verbatim>\<open>producer.publish\<close>: the message has the headers in the order of the range loop.\<close>

type_synonym kpublished = "goerror option \<times> kmessage list"
type_synonym publishFn = "gostring \<Rightarrow> bytes \<Rightarrow> bytes \<Rightarrow> kheaders \<Rightarrow> kpublished"

definition producerMessage :: "(kheaders \<Rightarrow> gostring list) \<Rightarrow> gostring \<Rightarrow> bytes \<Rightarrow> bytes \<Rightarrow> kheaders \<Rightarrow> kmessage" where
  "producerMessage order topic key value headers =
     \<lparr>km_Topic = topic, km_Partition = 0, km_Offset = 0, km_Key = key, km_Value = value,
      km_Headers = map (\<lambda>k. (k, the (headers k))) (rangeKeys headers (order headers))\<rparr>"

definition publish :: "(kmessage \<Rightarrow> goerror option) \<Rightarrow> (kheaders \<Rightarrow> gostring list) \<Rightarrow> publishFn" where
  "publish write order topic key value headers =
     (let msg = producerMessage order topic key value headers
      in (map_option (Wrapped (''kafka: publish '' @ topic)) (write msg), [msg]))"

section \<open>The envelope codec\<close>

type_synonym 'v kmarshal = "'v \<Rightarrow> gostring + bytes"
type_synonym kunmarshal = "bytes \<Rightarrow> gostring + RawEnvelope"

definition Marshal :: "'v kmarshal \<Rightarrow> 'v \<Rightarrow> goerror + bytes" where
  "Marshal marshal v =
     (case marshal v of Inl e \<Rightarrow> Inl (Wrapped ''kafka: envelope marshal'' (ErrOther e)) | Inr b \<Rightarrow> Inr b)"

definition UnmarshalRaw :: "kunmarshal \<Rightarrow> bytes \<Rightarrow> goerror + RawEnvelope" where
  "UnmarshalRaw unmarshal b =
     (case unmarshal b of
        Inl e \<Rightarrow> Inl (Wrapped ''kafka: envelope decode'' (ErrOther e))
      | Inr env \<Rightarrow>
          if env_Name env = [] \<and> env_Resource env = []
          then Inl (ErrOther (''kafka: envelope decode: missing required fields '' @ goQuote ''name'' @ '' and '' @ goQuote ''resource''))
          else Inr env)"

text \<open>\<^verbatim>\<open>DecodeData\<close>: \<open>zero\<close> is the zero value of the type, \<open>decode\<close> the JSON decoder for it.\<close>

definition DecodeData :: "(bytes \<Rightarrow> gostring + 't) \<Rightarrow> 't \<Rightarrow> bytes \<Rightarrow> goerror + 't" where
  "DecodeData decode zero raw =
     (if raw = [] then Inr zero
      else case decode raw of
             Inl e \<Rightarrow> Inl (Wrapped ''kafka: envelope data decode'' (ErrOther e))
           | Inr v \<Rightarrow> Inr v)"

section \<open>The dead-letter producer\<close>

definition origHeaders :: "(gostring \<times> bytes) list \<Rightarrow> kheaders" where
  "origHeaders hs = foldl (\<lambda>m h. m(fst h \<mapsto> snd h)) Map.empty hs"

definition dlqHeaders :: "KafkaConfig \<Rightarrow> gostring \<Rightarrow> gostring \<Rightarrow> kmessage \<Rightarrow> nat \<Rightarrow> gostring \<Rightarrow> kheaders" where
  "dlqHeaders cfg firstSeen origTopic orig attempts reason =
     (origHeaders (km_Headers orig))(''x-dlq-reason'' \<mapsto> reason, ''x-dlq-attempts'' \<mapsto> formatInt (int attempts),
        ''x-dlq-origin-topic'' \<mapsto> origTopic, ''x-dlq-first-seen'' \<mapsto> firstSeen,
        ''x-dlq-source-service'' \<mapsto> kc_AppName cfg)"

text \<open>\<open>firstSeen\<close> is the formatted clock.\<close>

definition dlqPublish :: "publishFn \<Rightarrow> KafkaConfig \<Rightarrow> gostring \<Rightarrow> gostring \<Rightarrow> kmessage \<Rightarrow> nat \<Rightarrow> gostring \<Rightarrow> kpublished" where
  "dlqPublish pub cfg firstSeen origTopic orig attempts reason =
     pub (origTopic @ kc_DLQSuffix cfg) (km_Key orig) (km_Value orig)
       (dlqHeaders cfg firstSeen origTopic orig attempts reason)"

section \<open>The event bus\<close>

definition tooLarge :: "bytes \<Rightarrow> KafkaConfig \<Rightarrow> goerror" where
  "tooLarge body cfg = ErrPayloadTooLarge (''envelope size '' @ formatInt (int (length body)) @ '' > '' @ formatInt (kc_MaxMessageBytes cfg))"

definition exceeds :: "bytes \<Rightarrow> KafkaConfig \<Rightarrow> bool" where
  "exceeds body cfg \<longleftrightarrow> kc_MaxMessageBytes cfg > 0 \<and> int (length body) > kc_MaxMessageBytes cfg"

definition busHeaders :: "gostring \<Rightarrow> kheaders" where
  "busHeaders kind = [''content-type'' \<mapsto> ''application/json'', ''reactive-commons-envelope'' \<mapsto> ''v1'',
     ''reactive-commons-kind'' \<mapsto> kind, ''reactive-commons-version'' \<mapsto> libraryVersion]"

definition k_Emit :: "'d DomainEvent kmarshal \<Rightarrow> publishFn \<Rightarrow> KafkaConfig \<Rightarrow> gostring \<Rightarrow> 'd DomainEvent \<Rightarrow> kpublished" where
  "k_Emit marshal pub cfg uuid event0 =
     (let event = (if ev_EventID event0 = [] \<and> kc_AutoGenerateMissingEventID cfg then event0\<lparr>ev_EventID := uuid\<rparr> else event0)
      in case Marshal marshal event of
           Inl e \<Rightarrow> (Some e, [])
         | Inr body \<Rightarrow>
             if exceeds body cfg then (Some (tooLarge body cfg), [])
             else pub (topicForEvent cfg (ev_Name event)) (ev_EventID event) body (busHeaders ''event''))"

definition k_EmitNotification :: "'d Notification kmarshal \<Rightarrow> publishFn \<Rightarrow> KafkaConfig \<Rightarrow> gostring \<Rightarrow> 'd Notification \<Rightarrow> kpublished" where
  "k_EmitNotification marshal pub cfg uuid n0 =
     (let n = (if n_EventID n0 = [] \<and> kc_AutoGenerateMissingEventID cfg then n0\<lparr>n_EventID := uuid\<rparr> else n0)
      in case Marshal marshal n of
           Inl e \<Rightarrow> (Some e, [])
         | Inr body \<Rightarrow>
             if exceeds body cfg then (Some (tooLarge body cfg), [])
             else pub (topicForNotification cfg (n_Name n)) (n_EventID n) body (busHeaders ''notification''))"

text \<open>The stub that stands in for the bus before \<^verbatim>\<open>Start\<close>.\<close>

definition notReadyBus :: kpublished where
  "notReadyBus = (Some (ErrOther ''kafka: EventBus not ready; wait for <-app.Ready() before emitting''), [])"

section \<open>Facts\<close>

lemma find_key: "distinct ks \<Longrightarrow> k \<in> set ks \<Longrightarrow> find (\<lambda>h. fst h = k) (map (\<lambda>k. (k, f k)) ks) = Some (k, f k)"
  by (induction ks) auto

lemma find_no_key: "k \<notin> set ks \<Longrightarrow> find (\<lambda>h. fst h = k) (map (\<lambda>k. (k, f k)) ks) = None"
  by (induction ks) auto

text \<open>What a reader sees of the headers the producer was given.\<close>

lemma headerValue_producerMessage:
  assumes "keyOrder headers (order headers)"
  shows "headerValue (producerMessage order topic key value headers) k = (case headers k of Some v \<Rightarrow> v | None \<Rightarrow> [])"
proof (cases "headers k")
  case None
  then have "k \<notin> set (order headers)" using assms by (auto simp: keyOrder_def)
  with None assms show ?thesis
    by (simp add: headerValue_def producerMessage_def find_no_key)
next
  case (Some v)
  then have "k \<in> set (order headers)" "distinct (order headers)" using assms by (auto simp: keyOrder_def)
  with Some assms show ?thesis
    by (simp add: headerValue_def producerMessage_def find_key)
qed

lemma origHeaders_map_of: "origHeaders hs = map_of (rev hs)"
proof -
  have "foldl (\<lambda>m h. m(fst h \<mapsto> snd h)) m hs = m ++ map_of (rev hs)" for m :: kheaders
  proof (induction hs arbitrary: m)
    case (Cons h hs)
    have "m(fst h \<mapsto> snd h) ++ map_of (rev hs) = m ++ map_of (rev (h # hs))"
      by (auto simp: map_add_def fun_eq_iff split: option.split)
    then show ?case unfolding foldl_Cons Cons by simp
  qed simp
  then show ?thesis by (simp add: origHeaders_def)
qed

lemma origHeaders_distinct: "distinct (map fst hs) \<Longrightarrow> origHeaders hs = map_of hs"
  unfolding origHeaders_map_of by (metis distinct_rev map_of_inject_set rev_map set_rev)

lemma map_of_find: "map_of hs k = map_option snd (find (\<lambda>h. fst h = k) hs)"
  by (induction hs) auto

lemma Emit_cases:
  "snd (k_Emit marshal (publish w o') cfg uuid ev) = [] \<or>
   (\<exists>m. snd (k_Emit marshal (publish w o') cfg uuid ev) = [m] \<and> \<not> exceeds (km_Value m) cfg)"
  by (auto simp: k_Emit_def publish_def producerMessage_def Let_def split: sum.split)

section \<open>Properties\<close>


definition exampleMessage :: kmessage where
  "exampleMessage = \<lparr>km_Topic = ''app.a'', km_Partition = 0, km_Offset = 7, km_Key = ''k'', km_Value = ''{}'',
     km_Headers = [(''trace'', ''t1'')]\<rparr>"

text \<open>A visiting order for the header maps of the transport.\<close>

definition exampleOrder :: "kheaders \<Rightarrow> gostring list" where
  "exampleOrder m = rangeKeys m [''content-type'', ''reactive-commons-envelope'', ''reactive-commons-kind'',
     ''reactive-commons-version'', hdr_SourceApplication, hdr_ReplyID, hdr_CorrelationID, hdr_ServedQueryID,
     hdr_ReplyTimeoutMillis, hdr_ReplyError, hdr_CompletionOnlySignal, ''trace'', ''x-dlq-reason'', ''x-dlq-attempts'',
     ''x-dlq-origin-topic'', ''x-dlq-first-seen'', ''x-dlq-source-service'']"


end
