(* ===== verification/Kafka_Registry.thy ===== *)
theory Kafka_Registry
  imports Registry_Interface
begin

text \<open>
  The handler registry of the Kafka transport (\<^verbatim>\<open>internal/kafka/registry.go\<close>): four handler
  maps and the flag that closes registration. Only command names are resolved against patterns,
  without a cache.
\<close>

section \<open>State and operations\<close>

record ('e, 'n, 'c, 'q) kafkaRegistry =
  started :: bool
  k_eventHandlers :: "gostring \<rightharpoonup> 'e"
  k_notificationHandlers :: "gostring \<rightharpoonup> 'n"
  k_commandHandlers :: "gostring \<rightharpoonup> 'c"
  k_queryHandlers :: "gostring \<rightharpoonup> 'q"

definition k_newHandlerRegistry :: "('e, 'n, 'c, 'q) kafkaRegistry" where
  "k_newHandlerRegistry = \<lparr>started = False, k_eventHandlers = Map.empty,
     k_notificationHandlers = Map.empty, k_commandHandlers = Map.empty,
     k_queryHandlers = Map.empty\<rparr>"

definition markStarted :: "('e, 'n, 'c, 'q) kafkaRegistry \<Rightarrow> ('e, 'n, 'c, 'q) kafkaRegistry" where
  "markStarted r = r\<lparr>started := True\<rparr>"

definition k_ListenEvent ::
  "('e, 'n, 'c, 'q) kafkaRegistry \<Rightarrow> gostring \<Rightarrow> 'e \<Rightarrow> goerror + ('e, 'n, 'c, 'q) kafkaRegistry" where
  "k_ListenEvent r eventName handler =
     (if started r then Inl ErrRegistrationClosed
      else if k_eventHandlers r eventName \<noteq> None
        then Inl (ErrDuplicateHandler (''event '' @ goQuote eventName))
      else Inr (r\<lparr>k_eventHandlers := (k_eventHandlers r)(eventName \<mapsto> handler)\<rparr>))"

definition k_ListenNotification ::
  "('e, 'n, 'c, 'q) kafkaRegistry \<Rightarrow> gostring \<Rightarrow> 'n \<Rightarrow> goerror + ('e, 'n, 'c, 'q) kafkaRegistry" where
  "k_ListenNotification r name handler =
     (if started r then Inl ErrRegistrationClosed
      else if k_notificationHandlers r name \<noteq> None
        then Inl (ErrDuplicateHandler (''notification '' @ goQuote name))
      else Inr (r\<lparr>k_notificationHandlers := (k_notificationHandlers r)(name \<mapsto> handler)\<rparr>))"

definition k_ListenCommand ::
  "('e, 'n, 'c, 'q) kafkaRegistry \<Rightarrow> gostring \<Rightarrow> 'c \<Rightarrow> goerror + ('e, 'n, 'c, 'q) kafkaRegistry" where
  "k_ListenCommand r name handler =
     (if started r then Inl ErrRegistrationClosed
      else if k_commandHandlers r name \<noteq> None
        then Inl (ErrDuplicateHandler (''command '' @ goQuote name))
      else Inr (r\<lparr>k_commandHandlers := (k_commandHandlers r)(name \<mapsto> handler)\<rparr>))"

definition k_ServeQuery ::
  "('e, 'n, 'c, 'q) kafkaRegistry \<Rightarrow> gostring \<Rightarrow> 'q \<Rightarrow> goerror + ('e, 'n, 'c, 'q) kafkaRegistry" where
  "k_ServeQuery r name handler =
     (if HasWildcard name then Inl (ErrWildcardNotSupported (''query '' @ goQuote name))
      else if started r then Inl ErrRegistrationClosed
      else if k_queryHandlers r name \<noteq> None
        then Inl (ErrDuplicateHandler (''query '' @ goQuote name))
      else Inr (r\<lparr>k_queryHandlers := (k_queryHandlers r)(name \<mapsto> handler)\<rparr>))"

definition k_keysOf :: "(gostring \<rightharpoonup> 'v) \<Rightarrow> gostring list \<Rightarrow> gostring list" where
  "k_keysOf m ks = copyKeys m ks"

definition k_CommandHandler ::
  "('e, 'n, 'c, 'q) kafkaRegistry \<Rightarrow> gostring list \<Rightarrow> gostring \<Rightarrow> 'c option" where
  "k_CommandHandler r ks name =
     (case k_commandHandlers r name of
        Some h \<Rightarrow> Some h
      | None \<Rightarrow> (let pat = Resolve name (k_keysOf (k_commandHandlers r) ks)
                in if pat = [] then None else k_commandHandlers r pat))"

definition k_QueryHandler :: "('e, 'n, 'c, 'q) kafkaRegistry \<Rightarrow> gostring \<Rightarrow> 'q option" where
  "k_QueryHandler r name = k_queryHandlers r name"

text \<open>The snapshots copy a handler map entry by entry.\<close>

definition copyMap :: "('k \<rightharpoonup> 'v) \<Rightarrow> 'k list \<Rightarrow> ('k \<rightharpoonup> 'v)" where
  "copyMap m ks = foldl (\<lambda>out k. out(k := m k)) Map.empty (rangeKeys m ks)"

definition snapshotEventHandlers where
  "snapshotEventHandlers r ks = copyMap (k_eventHandlers r) ks"
definition snapshotNotificationHandlers where
  "snapshotNotificationHandlers r ks = copyMap (k_notificationHandlers r) ks"
definition snapshotCommandHandlers where
  "snapshotCommandHandlers r ks = copyMap (k_commandHandlers r) ks"
definition snapshotQueryHandlers where
  "snapshotQueryHandlers r ks = copyMap (k_queryHandlers r) ks"

lemmas kafka_registry_ops = markStarted_def k_ListenEvent_def k_ListenNotification_def
  k_ListenCommand_def k_ServeQuery_def

section \<open>Facts\<close>

lemma copyMap_id: "keyOrder m ks \<Longrightarrow> copyMap m ks = m"
  by (auto simp: copyMap_def foldl_upd keyOrder_def fun_eq_iff)

interpretation kafkaEvents: handler_table k_eventHandlers k_ListenEvent "\<lambda>r _. \<not> started r"
  by unfold_locales (auto simp: kafka_registry_ops split: if_splits)

interpretation kafkaNotifications:
  handler_table k_notificationHandlers k_ListenNotification "\<lambda>r _. \<not> started r"
  by unfold_locales (auto simp: kafka_registry_ops split: if_splits)

interpretation kafkaCommands: handler_table k_commandHandlers k_ListenCommand "\<lambda>r _. \<not> started r"
  by unfold_locales (auto simp: kafka_registry_ops split: if_splits)

interpretation kafkaQueries:
  handler_table k_queryHandlers k_ServeQuery "\<lambda>r name. \<not> started r \<and> \<not> HasWildcard name"
  by unfold_locales (auto simp: kafka_registry_ops split: if_splits)

interpretation kafkaCommandLookup:
  name_resolver k_commandHandlers "\<lambda>r ks n. (k_CommandHandler r ks n, r)" "\<lambda>_. True"
  by unfold_locales
    (auto simp: k_CommandHandler_def resolves_def patternHandler_def k_keysOf_def Let_def
      split: option.splits)

section \<open>Properties\<close>

text \<open>\<^verbatim>\<open>markStarted\<close> closes the Kafka registry for good: afterwards every registration
  fails, with the closed error except that a query name with a wildcard gets the wildcard error,
  and command and query lookups answer as before.\<close>

theorem kafka_registration_closed:
  "k_ListenEvent (markStarted r) name e = Inl ErrRegistrationClosed \<and>
   k_ListenNotification (markStarted r) name n = Inl ErrRegistrationClosed \<and>
   k_ListenCommand (markStarted r) name c = Inl ErrRegistrationClosed \<and>
   k_ServeQuery (markStarted r) name q =
     Inl (if HasWildcard name then ErrWildcardNotSupported (''query '' @ goQuote name)
          else ErrRegistrationClosed) \<and>
   k_CommandHandler (markStarted r) ks name = k_CommandHandler r ks name \<and>
   k_QueryHandler (markStarted r) name = k_QueryHandler r name"
  by (auto simp: kafka_registry_ops k_CommandHandler_def k_QueryHandler_def Let_def split: option.split)

text \<open>a command is dispatched to the handler registered under its own name when there is
  one, and otherwise to the handler of a matching pattern; it is discarded (nil) exactly when its
  name is not registered and no registered pattern matches. Without \<^verbatim>\<open>#\<close> patterns the choice does
  not depend on the visiting order of the map.\<close>

theorem kafka_command_dispatch:
  assumes "keyOrder (k_commandHandlers r) ks" and "keyOrder (k_commandHandlers r) ks'"
  shows "(\<forall>h. k_commandHandlers r name = Some h \<longrightarrow> k_CommandHandler r ks name = Some h) \<and>
    (\<forall>h. k_CommandHandler r ks name = Some h \<longrightarrow>
       (\<exists>p. k_commandHandlers r p = Some h \<and> (p = name \<or> Matches name p))) \<and>
    (k_CommandHandler r ks name = None \<longleftrightarrow>
       k_commandHandlers r name = None \<and> (\<forall>p \<in> dom (k_commandHandlers r). \<not> Matches name p)) \<and>
    ((\<forall>p \<in> dom (k_commandHandlers r). hashFree p) \<longrightarrow>
       k_CommandHandler r ks name = k_CommandHandler r ks' name)"
  using kafkaCommandLookup.exact_first [of r ks name] kafkaCommandLookup.found [of r ks name]
    kafkaCommandLookup.not_found [of r ks name] assms
    kafkaCommandLookup.star_deterministic [of r r ks ks' name]
  by auto

theorem kafka_command_dispatch_witness:
  "k_CommandHandler (k_newHandlerRegistry\<lparr>k_commandHandlers := [''pay.*'' \<mapsto> (1::nat), ''*.now'' \<mapsto> 2]\<rparr>)
     [''pay.*'', ''*.now''] ''pay.now'' = Some 1 \<and>
   k_CommandHandler (k_newHandlerRegistry\<lparr>k_commandHandlers := [''pay.*'' \<mapsto> (1::nat), ''*.now'' \<mapsto> 2]\<rparr>)
     [''*.now'', ''pay.*''] ''pay.now'' = Some 1"
proof -
  let ?r = "k_newHandlerRegistry\<lparr>k_commandHandlers := [''pay.*'' \<mapsto> (1::nat), ''*.now'' \<mapsto> 2]\<rparr>"
  have o: "keyOrder (k_commandHandlers ?r) [''pay.*'', ''*.now'']"
    "keyOrder (k_commandHandlers ?r) [''*.now'', ''pay.*'']"
    by (auto simp: keyOrder_def)
  have "\<forall>p \<in> dom (k_commandHandlers ?r). hashFree p"
    by (simp add: hashFree_def separator_def wildcards)
  moreover have "k_CommandHandler ?r [''pay.*'', ''*.now''] ''pay.now'' = Some 1" by code_simp
  ultimately show ?thesis using kafka_command_dispatch [OF o, of "''pay.now''"] by metis
qed

end
