(* ===== verification/Kafka_Listeners.thy ===== *)
theory Kafka_Listeners
  imports Kafka_Wire Kafka_Registry
begin

text \<open>
  Consuming on the Kafka transport: the retry schedule and the event listener
  (\<^verbatim>\<open>internal/kafka/eventlistener.go\<close>), the command and notification listeners
  (\<^verbatim>\<open>commandlistener.go\<close>, \<^verbatim>\<open>notificationlistener.go\<close>) and the loop they share (\<^verbatim>\<open>loop.go\<close>). Processing
  a message yields the list of what the listener did with it. The clock, the context, the writer and
  the results of the handler are the environment of a round of the loop.
\<close>

section \<open>The retry schedule\<close>

text \<open>The loop of \<^verbatim>\<open>retryBackoff\<close>, with the doubling in 64 bits.\<close>

fun backoffLoop :: "nat \<Rightarrow> duration \<Rightarrow> duration \<Rightarrow> duration" where
  "backoffLoop 0 d maxDelay = (if d > maxDelay then maxDelay else d)"
| "backoffLoop (Suc n) d maxDelay =
     (let d' = wrap64 (d * 2) in if d' \<le> 0 \<or> d' \<ge> maxDelay then maxDelay else backoffLoop n d' maxDelay)"

definition retryBackoff :: "int \<Rightarrow> duration \<Rightarrow> duration \<Rightarrow> duration" where
  "retryBackoff attempt initial maxDelay =
     (let attempt' = (if attempt < 0 then 0 else attempt)
      in if initial \<le> 0 then 0 else backoffLoop (nat attempt') initial maxDelay)"

section \<open>Processing a message\<close>

text \<open>
  \<open>KInvoke i\<close> is the \<open>i\<close>-th call of the handler, \<open>KDlq m\<close> an attempt to write the dead letter \<open>m\<close>,
  \<open>KReply m\<close> an attempt to write a reply, \<open>KCommit\<close> the commit of the message's offset.
\<close>

datatype kaction = KSleep duration | KInvoke nat | KDlq kmessage | KReply kmessage | KCommit

text \<open>
  The environment of one round: whether the context ends during the pause before the \<open>i\<close>-th call of the
  handler, the writer, the visiting order of maps and the formatted clock. A handler is told the number
  of the round and of the attempt, so that each of its calls can have a result of its own.
\<close>

type_synonym ('m, 'r) khandler = "nat \<Rightarrow> nat \<Rightarrow> 'm \<Rightarrow> 'r hresult"

record round =
  r_id :: nat
  r_ctxDone :: "nat \<Rightarrow> bool"
  r_write :: "kmessage \<Rightarrow> goerror option"
  r_order :: "kheaders \<Rightarrow> gostring list"
  r_firstSeen :: gostring

text \<open>\<^verbatim>\<open>invokeHandler\<close>: a panic becomes an error.\<close>

definition invokeHandler :: "gostring \<Rightarrow> unit hresult \<Rightarrow> goerror option" where
  "invokeHandler what r =
     (case r of
        HOk u \<Rightarrow> None
      | HErr e \<Rightarrow> Some e
      | HPanic p \<Rightarrow> Some (ErrOther (''kafka: '' @ what @ ''handler panic: '' @ p)))"

text \<open>How the loop over the attempts ends.\<close>

datatype loopEnd = Succeeded | Cancelled | Exhausted "goerror option"

fun attemptLoop :: "duration \<Rightarrow> duration \<Rightarrow> (nat \<Rightarrow> bool) \<Rightarrow> (nat \<Rightarrow> goerror option) \<Rightarrow> nat \<Rightarrow> nat \<Rightarrow> goerror option \<Rightarrow>
    kaction list \<times> loopEnd" where
  "attemptLoop initial maxDelay ctxDone invoke 0 attempt lastErr = ([], Exhausted lastErr)"
| "attemptLoop initial maxDelay ctxDone invoke (Suc n) attempt lastErr =
     (if attempt > 0 \<and> ctxDone attempt then ([], Cancelled)
      else
        (let pause = (if attempt > 0 then [KSleep (retryBackoff (int attempt - 1) initial maxDelay)] else [])
         in case invoke attempt of
              None \<Rightarrow> (pause @ [KInvoke attempt], Succeeded)
            | Some e \<Rightarrow>
                (let (acts, r) = attemptLoop initial maxDelay ctxDone invoke n (Suc attempt) (Some e)
                 in (pause @ KInvoke attempt # acts, r))))"

text \<open>Dead-letter the message and commit it; no commit when the dead letter could not be written.\<close>

definition deadLetter :: "round \<Rightarrow> KafkaConfig \<Rightarrow> gostring \<Rightarrow> kmessage \<Rightarrow> nat \<Rightarrow> gostring \<Rightarrow> kaction list" where
  "deadLetter r cfg topic msg attempts reason =
     (case dlqPublish (publish (r_write r) (r_order r)) cfg (r_firstSeen r) topic msg attempts reason of
        (dlqErr, sent) \<Rightarrow> map KDlq sent @ (if dlqErr = None then [KCommit] else []))"

definition attemptsOf :: "KafkaConfig \<Rightarrow> nat" where
  "attemptsOf cfg = (if kc_MaxRetryAttempts cfg \<le> 0 then 1 else nat (kc_MaxRetryAttempts cfg))"

definition deliver :: "round \<Rightarrow> KafkaConfig \<Rightarrow> gostring \<Rightarrow> (nat \<Rightarrow> goerror option) \<Rightarrow> kmessage \<Rightarrow> kaction list" where
  "deliver r cfg topic invoke msg =
     (case attemptLoop (kc_RetryInitialDelay cfg) (kc_RetryMaxDelay cfg) (r_ctxDone r) invoke (attemptsOf cfg) 0 None of
        (acts, Succeeded) \<Rightarrow> acts @ [KCommit]
      | (acts, Cancelled) \<Rightarrow> acts
      | (acts, Exhausted lastErr) \<Rightarrow>
          acts @ deadLetter r cfg topic msg (attemptsOf cfg)
            (case lastErr of None \<Rightarrow> ''handler exhausted retries'' | Some e \<Rightarrow> errorText e))"

text \<open>The data of an event or notification: nil, the raw message when it cannot be decoded, or its value.\<close>

datatype 'd kdata = NoData | RawJSON bytes | Decoded 'd

definition decodePayload :: "(bytes \<Rightarrow> gostring + 'd) \<Rightarrow> bytes \<Rightarrow> 'd kdata" where
  "decodePayload decode raw =
     (if raw = [] then NoData else case decode raw of Inl e \<Rightarrow> RawJSON raw | Inr d \<Rightarrow> Decoded d)"

definition eventProcess :: "kunmarshal \<Rightarrow> (bytes \<Rightarrow> gostring + 'd) \<Rightarrow> KafkaConfig \<Rightarrow> gostring \<Rightarrow>
    ('d kdata DomainEvent, unit) khandler \<Rightarrow> round \<Rightarrow> kmessage \<Rightarrow> kaction list" where
  "eventProcess unmarshal decode cfg topic handler r msg =
     (case UnmarshalRaw unmarshal (km_Value msg) of
        Inl e \<Rightarrow> deadLetter r cfg topic msg 0 (''decode: '' @ errorText e)
      | Inr raw \<Rightarrow>
          (let event = \<lparr>ev_Name = env_Name raw, ev_EventID = env_EventID raw, ev_Data = decodePayload decode (env_Data raw)\<rparr>
           in deliver r cfg topic (\<lambda>i. invokeHandler [] (handler (r_id r) i event)) msg))"

text \<open>
  The command listener looks the handler up in the live registry: \<open>reg\<close> and the visiting order of
  its command map. A command without a handler is committed and dropped.
\<close>

definition commandProcess :: "kunmarshal \<Rightarrow> KafkaConfig \<Rightarrow> gostring \<Rightarrow> ('e, 'n, (bytes Command, unit) khandler, 'q) kafkaRegistry \<Rightarrow>
    gostring list \<Rightarrow> round \<Rightarrow> kmessage \<Rightarrow> kaction list" where
  "commandProcess unmarshal cfg topic reg ks r msg =
     (case (case UnmarshalRaw unmarshal (km_Value msg) of
              Inl e \<Rightarrow> Inl e
            | Inr raw \<Rightarrow>
                if env_Name raw = []
                then Inl (ErrOther (''kafka: envelope decode: missing required field '' @ goQuote ''name''))
                else Inr raw) of
        Inl e \<Rightarrow> deadLetter r cfg topic msg 0 (''decode: '' @ errorText e)
      | Inr raw \<Rightarrow>
          (case k_CommandHandler reg ks (env_Name raw) of
             None \<Rightarrow> [KCommit]
           | Some handler \<Rightarrow>
               (let cmd = \<lparr>cmd_Name = env_Name raw, cmd_CommandID = env_CommandID raw, cmd_Data = env_Data raw\<rparr>
                in deliver r cfg topic (\<lambda>i. invokeHandler ''command '' (handler (r_id r) i cmd)) msg)))"

text \<open>Notifications: one call of the handler, no retry, no dead letter; the reader commits by itself.\<close>

definition notificationProcess :: "kunmarshal \<Rightarrow> (bytes \<Rightarrow> gostring + 'd) \<Rightarrow> ('d kdata Notification, unit) khandler \<Rightarrow>
    round \<Rightarrow> kmessage \<Rightarrow> (nat \<times> goerror option) list" where
  "notificationProcess unmarshal decode handler r msg =
     (case UnmarshalRaw unmarshal (km_Value msg) of
        Inl e \<Rightarrow> []
      | Inr raw \<Rightarrow>
          (let n = \<lparr>n_Name = env_Name raw, n_EventID = env_EventID raw, n_Data = decodePayload decode (env_Data raw)\<rparr>
           in [(0, invokeHandler ''notification '' (handler (r_id r) 0 n))]))"

section \<open>The loop\<close>

text \<open>
  What \<^verbatim>\<open>fetch\<close> gives: a message with the environment of its round; an error, whether \<^verbatim>\<open>ctx.Err()\<close> is set
  then, and whether the context ends during the pause that follows.
\<close>

datatype fetched = Fetched round kmessage | FetchFailed goerror bool bool

datatype 'a loopEvent = LHandled round kmessage 'a | LPause duration

definition fetchBackoff :: duration where
  "fetchBackoff = 1 * goSecond"

fun consumerLoop :: "(round \<Rightarrow> kmessage \<Rightarrow> 'a) \<Rightarrow> fetched list \<Rightarrow> 'a loopEvent list" where
  "consumerLoop handle [] = []"
| "consumerLoop handle (Fetched r msg # fs) = LHandled r msg (handle r msg) # consumerLoop handle fs"
| "consumerLoop handle (FetchFailed e ctxErr ctxDone # fs) =
     (if isCtxError e \<or> ctxErr then []
      else LPause fetchBackoff # (if ctxDone then [] else consumerLoop handle fs))"

text \<open>
  The offset a partition's consumer group resumes from: the commits whose request succeeded
  (\<open>commitOk\<close>) move it past the highest committed message.
\<close>

fun committed :: "(kmessage \<Rightarrow> bool) \<Rightarrow> nat \<Rightarrow> kaction list loopEvent list \<Rightarrow> nat" where
  "committed commitOk p [] = 0"
| "committed commitOk p (LPause d # es) = committed commitOk p es"
| "committed commitOk p (LHandled r msg acts # es) =
     (if km_Partition msg = p \<and> KCommit \<in> set acts \<and> commitOk msg
      then max (Suc (km_Offset msg)) (committed commitOk p es) else committed commitOk p es)"

section \<open>The commit contract\<close>

text \<open>The fetched messages of a partition come in the order of their offsets.\<close>

definition fetchedMessages :: "fetched list \<Rightarrow> kmessage list" where
  "fetchedMessages fs = concat (map (\<lambda>f. case f of Fetched r m \<Rightarrow> [m] | FetchFailed e a b \<Rightarrow> []) fs)"

definition inOrder :: "fetched list \<Rightarrow> bool" where
  "inOrder fs \<longleftrightarrow> sorted_wrt (\<lambda>m m'. km_Partition m = km_Partition m' \<longrightarrow> km_Offset m < km_Offset m') (fetchedMessages fs)"

text \<open>Once the context has ended, fetching fails with the error of the context.\<close>

fun fetchSeesCtx :: "fetched list \<Rightarrow> bool" where
  "fetchSeesCtx [] = True"
| "fetchSeesCtx (FetchFailed e a b # fs) = fetchSeesCtx fs"
| "fetchSeesCtx (Fetched r m # fs) =
     (((\<exists>i. r_ctxDone r i) \<longrightarrow> (case fs of FetchFailed e a b # _ \<Rightarrow> isCtxError e | [] \<Rightarrow> True | _ \<Rightarrow> False)) \<and> fetchSeesCtx fs)"

text \<open>
  A listener with manual commits: it commits at most once and last, and leaves a message uncommitted
  only when the context ended or a write failed. Then no message is passed over.
\<close>

locale manual_commit =
  fixes process :: "round \<Rightarrow> kmessage \<Rightarrow> kaction list"
  assumes commit_last: "KCommit \<in> set (process r m) \<Longrightarrow> \<exists>acts. process r m = acts @ [KCommit] \<and> KCommit \<notin> set acts"
    and uncommitted: "KCommit \<notin> set (process r m) \<Longrightarrow> (\<exists>i. r_ctxDone r i) \<or> (\<exists>w. r_write r w \<noteq> None)"
begin

lemma commit_once: "count_list (process r m) KCommit \<le> 1"
proof (cases "KCommit \<in> set (process r m)")
  case True
  from commit_last [OF this] obtain acts where "process r m = acts @ [KCommit]" "KCommit \<notin> set acts" by blast
  then show ?thesis by (simp add: count_list_0_iff)
qed (simp add: count_list_0_iff)

lemma loop_induct [case_names Nil Fetched Failed]:
  assumes "P []" and "\<And>r m fs. P fs \<Longrightarrow> P (Fetched r m # fs)" and "\<And>e a b fs. P fs \<Longrightarrow> P (FetchFailed e a b # fs)"
  shows "P fs"
proof (induction fs)
  case (Cons f fs)
  then show ?case using assms(2,3) by (cases f) auto
qed (rule assms(1))

lemma handled_fetched: "LHandled r m acts \<in> set (consumerLoop process fs) \<Longrightarrow> m \<in> set (fetchedMessages fs) \<and> acts = process r m"
  by (induction fs rule: loop_induct) (auto simp: fetchedMessages_def split: if_splits)

lemma uncommitted_stops:
  assumes "fetchSeesCtx (Fetched r m # fs)" and "\<And>w. r_write r w = None" and "KCommit \<notin> set (process r m)"
  shows "consumerLoop process fs = []"
proof -
  have "\<exists>i. r_ctxDone r i" using uncommitted [OF assms(3)] assms(2) by auto
  with assms(1) show ?thesis by (auto split: list.splits fetched.splits)
qed

lemma no_message_passed_over:
  assumes "inOrder fs" and "fetchSeesCtx fs" and "\<forall>r m w. Fetched r m \<in> set fs \<longrightarrow> r_write r w = None"
    and "LHandled r m acts \<in> set (consumerLoop process fs)" and "km_Partition m = p"
    and "km_Offset m < committed ok p (consumerLoop process fs)"
  shows "KCommit \<in> set acts"
  using assms
proof (induction fs rule: loop_induct)
  case (Fetched r' m' fs)
  have ord: "inOrder fs" and first: "\<forall>x \<in> set (fetchedMessages fs). km_Partition m' = km_Partition x \<longrightarrow> km_Offset m' < km_Offset x"
    using Fetched(2) by (auto simp: inOrder_def fetchedMessages_def)
  show ?case
  proof (cases "KCommit \<in> set (process r' m')")
    case False
    with uncommitted_stops [OF Fetched(3)] Fetched(4) have "consumerLoop process fs = []" by auto
    with False Fetched(5,7) show ?thesis by auto
  next
    case True
    show ?thesis
    proof (cases "LHandled r m acts \<in> set (consumerLoop process fs)")
      case False
      with Fetched(5) True show ?thesis by auto
    next
      case later: True
      then have "m \<in> set (fetchedMessages fs)" using handled_fetched by blast
      with first Fetched(6) have "km_Partition m' = p \<Longrightarrow> km_Offset m' < km_Offset m" by auto
      then have "km_Offset m < committed ok p (consumerLoop process fs)" using Fetched(7) by (auto split: if_splits)
      with later Fetched(1) ord Fetched(3,4,6) show ?thesis by auto
    qed
  qed
next
  case (Failed e a b fs)
  then show ?case by (auto simp: inOrder_def fetchedMessages_def split: if_splits)
qed simp

end

section \<open>Facts\<close>

lemma backoffLoop_closed:
  "0 < d \<Longrightarrow> d < 2 ^ 63 \<Longrightarrow> mx < 2 ^ 63 \<Longrightarrow> backoffLoop n d mx = min (d * 2 ^ n) mx"
proof (induction n arbitrary: d)
  case (Suc n)
  have grow: "d * 2 \<le> d * 2 ^ Suc n" using Suc.prems(1) by simp
  show ?case
  proof (cases "d * 2 < 2 ^ 63")
    case True
    then have w: "wrap64 (d * 2) = d * 2" using Suc.prems(1) by (intro wrap64_id) auto
    show ?thesis
    proof (cases "mx \<le> d * 2")
      case True
      with grow w show ?thesis by (simp add: min_def)
    next
      case False
      with Suc.IH [of "d * 2"] Suc.prems True w show ?thesis by (simp add: mult.assoc)
    qed
  next
    case False
    have "wrap64 (d * 2) = d * 2 - 2 ^ 64"
    proof -
      have "(d * 2 + 2 ^ 63) mod 2 ^ 64 = (d * 2 + 2 ^ 63 - 2 ^ 64) mod 2 ^ 64"
        by (rule minus_mod_self2 [symmetric])
      also have "\<dots> = d * 2 + 2 ^ 63 - 2 ^ 64" using False Suc.prems(2) by (intro mod_pos_pos_trivial) auto
      finally show ?thesis by (simp add: wrap64_def)
    qed
    then have "wrap64 (d * 2) \<le> 0" using Suc.prems(2) by simp
    moreover have "mx \<le> d * 2 ^ Suc n" using grow False Suc.prems(3) by linarith
    ultimately show ?thesis by (simp add: min_def)
  qed
qed (simp add: min_def)

text \<open>The calls of the handler from attempt \<open>a\<close> up to \<open>b\<close>, with the pauses between them.\<close>

definition calls :: "duration \<Rightarrow> duration \<Rightarrow> nat \<Rightarrow> nat \<Rightarrow> kaction list" where
  "calls initial mx a b =
     concat (map (\<lambda>i. (if i > 0 then [KSleep (retryBackoff (int i - 1) initial mx)] else []) @ [KInvoke i]) [a..<b])"

definition stopsAt :: "(nat \<Rightarrow> bool) \<Rightarrow> (nat \<Rightarrow> goerror option) \<Rightarrow> nat \<Rightarrow> bool" where
  "stopsAt ctxDone invoke i \<longleftrightarrow> i > 0 \<and> ctxDone i \<or> invoke i = None"

lemma calls_step: "a < b \<Longrightarrow> calls initial mx a b =
    (if a > 0 then [KSleep (retryBackoff (int a - 1) initial mx)] else []) @ KInvoke a # calls initial mx (Suc a) b"
  by (simp add: calls_def upt_conv_Cons)

lemma calls_empty [simp]: "calls initial mx a a = []"
  by (simp add: calls_def)

lemma calls_no_commit [simp]: "KCommit \<notin> set (calls initial mx a b)" "KDlq m \<notin> set (calls initial mx a b)"
  by (auto simp: calls_def)

lemma attemptLoop_eq:
  "attemptLoop initial mx ctxDone invoke n a le =
     (case find (stopsAt ctxDone invoke) [a..<a + n] of
        None \<Rightarrow> (calls initial mx a (a + n), Exhausted (if n = 0 then le else invoke (a + n - 1)))
      | Some k \<Rightarrow> if k > 0 \<and> ctxDone k then (calls initial mx a k, Cancelled)
                  else (calls initial mx a (Suc k), Succeeded))"
proof (induction n arbitrary: a le)
  case (Suc n)
  let ?S = "stopsAt ctxDone invoke"
  have find: "find ?S [a..<a + Suc n] = (if ?S a then Some a else find ?S [Suc a..<Suc a + n])"
    by (simp add: upt_conv_Cons del: upt_Suc)
  consider "a > 0 \<and> ctxDone a" | "\<not> (a > 0 \<and> ctxDone a)" "invoke a = None"
    | e where "\<not> (a > 0 \<and> ctxDone a)" "invoke a = Some e" by fastforce
  then show ?case
  proof cases
    case 1
    then have "?S a" by (simp add: stopsAt_def)
    with 1 show ?thesis unfolding find by simp
  next
    case 2
    then have "?S a" by (simp add: stopsAt_def)
    with 2 show ?thesis unfolding find by (simp add: calls_step [of a "Suc a"] Let_def)
  next
    case (3 e)
    then have "\<not> ?S a" by (simp add: stopsAt_def)
    moreover have "a < k" if "find ?S [Suc a..<Suc a + n] = Some k" for k
      using that by (auto simp: find_Some_iff simp del: upt_Suc)
    ultimately show ?thesis
    proof (cases "find ?S [Suc a..<Suc a + n]")
      case None
      with 3 \<open>\<not> ?S a\<close> show ?thesis
        unfolding find attemptLoop.simps(2) Suc by (auto simp: calls_step [of a "Suc (a + n)"] Let_def simp del: upt_Suc)
    next
      case (Some k)
      assume later: "\<And>k. find ?S [Suc a..<Suc a + n] = Some k \<Longrightarrow> a < k"
      from 3 \<open>\<not> ?S a\<close> Some later [OF Some] show ?thesis
        unfolding find attemptLoop.simps(2) Suc by (simp add: calls_step [of a k] calls_step [of a "Suc k"] Let_def)
    qed
  qed
qed simp

lemma retryBackoff_closed:
  assumes "0 < initial" and "initial < 2 ^ 63" and "mx < 2 ^ 63"
  shows "retryBackoff a initial mx = min (initial * 2 ^ nat a) mx"
  using assms by (simp add: retryBackoff_def backoffLoop_closed)

definition deadMessage :: "round \<Rightarrow> KafkaConfig \<Rightarrow> gostring \<Rightarrow> kmessage \<Rightarrow> nat \<Rightarrow> gostring \<Rightarrow> kmessage" where
  "deadMessage r cfg topic msg attempts reason =
     producerMessage (r_order r) (topic @ kc_DLQSuffix cfg) (km_Key msg) (km_Value msg)
       (dlqHeaders cfg (r_firstSeen r) topic msg attempts reason)"

lemma deadLetter_eq:
  "deadLetter r cfg topic msg attempts reason =
     KDlq (deadMessage r cfg topic msg attempts reason) #
     (if r_write r (deadMessage r cfg topic msg attempts reason) = None then [KCommit] else [])"
  by (simp add: deadLetter_def dlqPublish_def publish_def deadMessage_def Let_def)

lemma attemptsOf_pos [simp]: "0 < attemptsOf cfg" "attemptsOf cfg \<noteq> 0"
  by (simp_all add: attemptsOf_def)

text \<open>The dead letter of a message whose attempts all failed.\<close>

definition exhausted :: "round \<Rightarrow> KafkaConfig \<Rightarrow> gostring \<Rightarrow> (nat \<Rightarrow> goerror option) \<Rightarrow> kmessage \<Rightarrow> kmessage" where
  "exhausted r cfg topic invoke msg =
     deadMessage r cfg topic msg (attemptsOf cfg) (errorText (the (invoke (attemptsOf cfg - 1))))"

lemma deliver_eq:
  "deliver r cfg topic invoke msg =
     (let cs = calls (kc_RetryInitialDelay cfg) (kc_RetryMaxDelay cfg) 0
      in case find (stopsAt (r_ctxDone r) invoke) [0..<attemptsOf cfg] of
           None \<Rightarrow> cs (attemptsOf cfg) @ KDlq (exhausted r cfg topic invoke msg) #
                   (if r_write r (exhausted r cfg topic invoke msg) = None then [KCommit] else [])
         | Some k \<Rightarrow> if k > 0 \<and> r_ctxDone r k then cs k else cs (Suc k) @ [KCommit])"
proof (cases "find (stopsAt (r_ctxDone r) invoke) [0..<attemptsOf cfg]")
  case None
  then have "\<not> stopsAt (r_ctxDone r) invoke (attemptsOf cfg - 1)" by (simp add: find_None_iff)
  then obtain e where "invoke (attemptsOf cfg - Suc 0) = Some e" by (auto simp: stopsAt_def)
  with None show ?thesis by (simp add: deliver_def attemptLoop_eq deadLetter_eq exhausted_def Let_def)
next
  case (Some k)
  then show ?thesis by (simp add: deliver_def attemptLoop_eq Let_def)
qed

text \<open>The commit contract for one list of actions; every way of processing a message ends in one of three.\<close>

definition commitsProperly :: "round \<Rightarrow> kaction list \<Rightarrow> bool" where
  "commitsProperly r acts \<longleftrightarrow>
     (KCommit \<in> set acts \<longrightarrow> (\<exists>as. acts = as @ [KCommit] \<and> KCommit \<notin> set as)) \<and>
     (KCommit \<notin> set acts \<longrightarrow> (\<exists>i. r_ctxDone r i) \<or> (\<exists>w. r_write r w \<noteq> None))"

lemma commitsProperly_cases [simp]:
  "commitsProperly r [KCommit]" "commitsProperly r (deadLetter r cfg topic msg n reason)"
  "commitsProperly r (deliver r cfg topic invoke msg)"
proof -
  show "commitsProperly r [KCommit]" by (simp add: commitsProperly_def)
  show "commitsProperly r (deadLetter r cfg topic msg n reason)"
    by (auto simp: commitsProperly_def deadLetter_eq)
  show "commitsProperly r (deliver r cfg topic invoke msg)"
    by (auto simp: commitsProperly_def deliver_eq Let_def split: option.split)
qed

lemma manual_commitI: "(\<And>r m. commitsProperly r (process r m)) \<Longrightarrow> manual_commit process"
  by (simp add: manual_commit_def commitsProperly_def)

interpretation eventCommit: manual_commit "eventProcess unmarshal decode cfg topic handler"
  for unmarshal decode cfg topic handler
  by (rule manual_commitI) (simp add: eventProcess_def Let_def split: sum.split)

interpretation commandCommit: manual_commit "commandProcess unmarshal cfg topic reg ks"
  for unmarshal cfg topic reg ks
  by (rule manual_commitI) (simp add: commandProcess_def Let_def split: sum.split option.split)

section \<open>The delivery contract\<close>

fun invokedOf :: "kaction \<Rightarrow> nat list" where
  "invokedOf (KInvoke i) = [i]"
| "invokedOf _ = []"

fun pauseOf :: "kaction \<Rightarrow> duration list" where
  "pauseOf (KSleep d) = [d]"
| "pauseOf _ = []"

definition invokes :: "kaction list \<Rightarrow> nat list" where
  "invokes acts = concat (map invokedOf acts)"

definition pauses :: "kaction list \<Rightarrow> duration list" where
  "pauses acts = concat (map pauseOf acts)"

lemma trace_append [simp]:
  "invokes (as @ bs) = invokes as @ invokes bs" "pauses (as @ bs) = pauses as @ pauses bs"
  "invokes [] = []" "pauses [] = []"
  "invokes (a # as) = invokedOf a @ invokes as" "pauses (a # as) = pauseOf a @ pauses as"
  by (simp_all add: invokes_def pauses_def)

lemma calls_Suc: "calls initial mx 0 (Suc k) =
    calls initial mx 0 k @ (if k > 0 then [KSleep (retryBackoff (int k - 1) initial mx)] else []) @ [KInvoke k]"
  by (simp add: calls_def)

lemma invokes_calls [simp]: "invokes (calls initial mx 0 k) = [0..<k]"
  by (induction k) (auto simp: calls_Suc)

lemma pauses_calls [simp]: "pauses (calls initial mx 0 k) = map (\<lambda>i. retryBackoff (int i) initial mx) [0..<k - 1]"
proof (induction k)
  case (Suc k)
  then show ?case by (cases k) (auto simp: calls_Suc)
qed simp

text \<open>
  What the listener promises for a message it could decode, given which attempts of the handler
  succeed (\<open>ok\<close>), before which attempt the context ended (\<open>ended\<close>) and whether the dead letter \<open>dead\<close>
  can be written. The handler is called for attempts 0, 1, \dots in order, at most
  \<^verbatim>\<open>MaxRetryAttempts\<close> times, never again after it succeeded, with doubling pauses capped at the
  configured maximum; the message is committed exactly when the last call succeeded or all of them
  failed and the dead letter was written; it is dead-lettered exactly when all of them failed.
\<close>

definition deliveryContract :: "KafkaConfig \<Rightarrow> (nat \<Rightarrow> bool) \<Rightarrow> (nat \<Rightarrow> bool) \<Rightarrow> kmessage \<Rightarrow> bool \<Rightarrow> kaction list \<Rightarrow> bool" where
  "deliveryContract cfg ok ended dead dlqOk acts \<longleftrightarrow>
     (let N = attemptsOf cfg; k = length (invokes acts) in
      k \<le> N \<and> invokes acts = [0..<k] \<and> (\<forall>i. Suc i < k \<longrightarrow> \<not> ok i) \<and>
      pauses acts = map (\<lambda>i. min (kc_RetryInitialDelay cfg * 2 ^ i) (kc_RetryMaxDelay cfg)) [0..<k - 1] \<and>
      (KCommit \<in> set acts \<longleftrightarrow> 0 < k \<and> ok (k - 1) \<or> (\<forall>i < N. \<not> ok i \<and> \<not> ended i) \<and> dlqOk) \<and>
      (\<forall>m. KDlq m \<in> set acts \<longleftrightarrow> m = dead \<and> (\<forall>i < N. \<not> ok i \<and> \<not> ended i)) \<and>
      (k < N \<and> \<not> (0 < k \<and> ok (k - 1)) \<longrightarrow> ended k))"

lemma deliver_contract:
  assumes "0 < kc_RetryInitialDelay cfg" and "kc_RetryInitialDelay cfg < 2 ^ 63" and "kc_RetryMaxDelay cfg < 2 ^ 63"
  shows "deliveryContract cfg (\<lambda>i. invoke i = None) (\<lambda>i. i > 0 \<and> r_ctxDone r i) (exhausted r cfg topic invoke msg)
    (r_write r (exhausted r cfg topic invoke msg) = None) (deliver r cfg topic invoke msg)"
proof (cases "find (stopsAt (r_ctxDone r) invoke) [0..<attemptsOf cfg]")
  case None
  then have all: "\<not> stopsAt (r_ctxDone r) invoke i" if "i < attemptsOf cfg" for i using that by (auto simp: find_None_iff)
  obtain e where e: "invoke (attemptsOf cfg - Suc 0) = Some e"
    using all [of "attemptsOf cfg - 1"] by (auto simp: stopsAt_def)
  with all show ?thesis
    by (auto simp: None e deliver_eq deliveryContract_def Let_def stopsAt_def retryBackoff_closed [OF assms])
next
  case (Some k)
  then have k: "k < attemptsOf cfg" "stopsAt (r_ctxDone r) invoke k" "\<And>i. i < k \<Longrightarrow> \<not> stopsAt (r_ctxDone r) invoke i"
    by (auto simp: find_Some_iff)
  show ?thesis
  proof (cases "k > 0 \<and> r_ctxDone r k")
    case True
    have "\<not> invoke (k - 1) = None" using k(3) [of "k - 1"] True by (auto simp: stopsAt_def)
    with True k show ?thesis
      by (auto simp: Some deliver_eq deliveryContract_def Let_def stopsAt_def retryBackoff_closed [OF assms])
  next
    case False
    then have "invoke k = None" using k(2) by (auto simp: stopsAt_def)
    with False k show ?thesis
      by (auto simp: Some deliver_eq deliveryContract_def Let_def stopsAt_def retryBackoff_closed [OF assms])
  qed
qed

section \<open>Properties\<close>

text \<open>C35: The retry delays of the Kafka listeners: for 64-bit durations \<^verbatim>\<open>retryBackoff\<close> is exactly the
  initial delay doubled once per attempt and capped at the maximum; in particular the doubling that
  overflows never yields a negative or a shorter delay.\<close>

theorem retryBackoff_exact:
  assumes "0 < initial" and "initial < 2 ^ 63" and "mx < 2 ^ 63"
  shows "retryBackoff a initial mx = min (initial * 2 ^ nat a) mx \<and>
    (a \<le> b \<longrightarrow> retryBackoff a initial mx \<le> retryBackoff b initial mx)"
proof -
  have "initial * 2 ^ nat a \<le> initial * 2 ^ nat b" if "a \<le> b"
    using that assms(1) by (simp add: nat_mono power_increasing)
  then show ?thesis by (auto simp: retryBackoff_closed [OF assms] min_def)
qed

theorem retryBackoff_exact_witness:
  "retryBackoff 200 goSecond (2 ^ 62) = 2 ^ 62 \<and> retryBackoff 3 goSecond (2 ^ 62) = 8 * goSecond"
  using retryBackoff_exact [of goSecond "2 ^ 62" 200 200] retryBackoff_exact [of goSecond "2 ^ 62" 3 3]
  by (simp add: goSecond_def)

text \<open>C9: Event and command deliveries that can be decoded meet the delivery contract: bounded, ordered
  attempts with the configured pauses; a commit exactly on success or after a written dead letter;
  a dead letter exactly when every attempt failed.\<close>

theorem kafka_delivery_contract:
  assumes "usable cfg" and "kc_RetryMaxDelay cfg < 2 ^ 63"
    and "UnmarshalRaw unmarshal (km_Value msg) = Inr raw"
    and "invE = (\<lambda>i. invokeHandler [] (handler (r_id r) i
            \<lparr>ev_Name = env_Name raw, ev_EventID = env_EventID raw, ev_Data = decodePayload decode (env_Data raw)\<rparr>))"
    and "env_Name raw \<noteq> []" and "k_CommandHandler reg ks (env_Name raw) = Some h"
    and "invC = (\<lambda>i. invokeHandler ''command '' (h (r_id r) i
            \<lparr>cmd_Name = env_Name raw, cmd_CommandID = env_CommandID raw, cmd_Data = env_Data raw\<rparr>))"
  shows "deliveryContract cfg (\<lambda>i. invE i = None) (\<lambda>i. i > 0 \<and> r_ctxDone r i) (exhausted r cfg topic invE msg)
      (r_write r (exhausted r cfg topic invE msg) = None) (eventProcess unmarshal decode cfg topic handler r msg) \<and>
    deliveryContract cfg (\<lambda>i. invC i = None) (\<lambda>i. i > 0 \<and> r_ctxDone r i) (exhausted r cfg topic invC msg)
      (r_write r (exhausted r cfg topic invC msg) = None) (commandProcess unmarshal cfg topic reg ks r msg)"
proof -
  have d: "0 < kc_RetryInitialDelay cfg" "kc_RetryInitialDelay cfg < 2 ^ 63" "kc_RetryMaxDelay cfg < 2 ^ 63"
    using assms(1,2) by (auto simp: usable_def)
  show ?thesis
    using deliver_contract [OF d, of invE r topic msg] deliver_contract [OF d, of invC r topic msg] assms(3-)
    by (simp add: eventProcess_def commandProcess_def Let_def)
qed

definition exampleRound :: "nat \<Rightarrow> (kmessage \<Rightarrow> goerror option) \<Rightarrow> round" where
  "exampleRound i write = \<lparr>r_id = i, r_ctxDone = (\<lambda>_. False), r_write = write, r_order = exampleOrder, r_firstSeen = ''now''\<rparr>"

text \<open>A handler that fails the first time.\<close>

definition flakyHandler :: "('m, unit) khandler" where
  "flakyHandler i attempt m = (if attempt = 0 then HErr (ErrOther ''boom'') else HOk ())"

definition exampleEnvelope :: RawEnvelope where
  "exampleEnvelope = emptyEnvelope\<lparr>env_Name := ''pay''\<rparr>"

definition exampleRegistry :: "(unit, unit, (bytes Command, unit) khandler, unit) kafkaRegistry" where
  "exampleRegistry = k_newHandlerRegistry\<lparr>k_commandHandlers := [''pay'' \<mapsto> flakyHandler]\<rparr>"

lemma exampleKafka_usable: "usable exampleKafka" "kc_RetryMaxDelay exampleKafka < 2 ^ 63"
  by (simp_all add: usable_def exampleKafka_def k_NewConfigWithDefaults_def duration_units)

theorem kafka_delivery_contract_witness:
  "deliveryContract exampleKafka (\<lambda>i. (if i = 0 then Some (ErrOther ''boom'') else None) = None) (\<lambda>i. False)
     (exhausted (exampleRound 0 (\<lambda>_. None)) exampleKafka ''app.commands''
        (\<lambda>i. if i = 0 then Some (ErrOther ''boom'') else None) exampleMessage) True
     (commandProcess (\<lambda>_. Inr exampleEnvelope) exampleKafka ''app.commands''
        exampleRegistry [''pay''] (exampleRound 0 (\<lambda>_. None)) exampleMessage) \<and>
   invokes (commandProcess (\<lambda>_. Inr exampleEnvelope) exampleKafka ''app.commands''
        exampleRegistry [''pay''] (exampleRound 0 (\<lambda>_. None)) exampleMessage) = [0, 1]"
proof -
  let ?r = "exampleRound 0 (\<lambda>_. None)"
  let ?inv = "\<lambda>i::nat. if i = 0 then Some (ErrOther ''boom'') else None"
  have inv: "(\<lambda>i. invokeHandler w (flakyHandler (r_id ?r) i m)) = ?inv" for w and m :: 'z
    by (auto simp: invokeHandler_def flakyHandler_def)
  have raw: "UnmarshalRaw (\<lambda>_. Inr exampleEnvelope) (km_Value exampleMessage) = Inr exampleEnvelope"
    "env_Name exampleEnvelope \<noteq> []"
    by (simp_all add: UnmarshalRaw_def exampleEnvelope_def emptyEnvelope_def)
  have h: "k_CommandHandler exampleRegistry [''pay''] (env_Name exampleEnvelope) = Some flakyHandler"
    by (simp add: k_CommandHandler_def exampleEnvelope_def emptyEnvelope_def exampleRegistry_def)
  have c: "deliveryContract exampleKafka (\<lambda>i. ?inv i = None) (\<lambda>i. i > 0 \<and> r_ctxDone ?r i)
      (exhausted ?r exampleKafka ''app.commands'' ?inv exampleMessage)
      (r_write ?r (exhausted ?r exampleKafka ''app.commands'' ?inv exampleMessage) = None)
      (commandProcess (\<lambda>_. Inr exampleEnvelope) exampleKafka ''app.commands'' exampleRegistry [''pay''] ?r exampleMessage)"
    using kafka_delivery_contract [where cfg = exampleKafka and unmarshal = "\<lambda>_. Inr exampleEnvelope" and
        msg = exampleMessage and raw = exampleEnvelope and invE = ?inv and handler = flakyHandler and r = ?r and
        decode = "\<lambda>b. Inr b" and reg = exampleRegistry and ks = "[''pay'']" and h = flakyHandler and invC = ?inv and
        topic = "''app.commands''", OF exampleKafka_usable raw(1) inv [symmetric] raw(2) h inv [symmetric]]
    by blast
  have f: "find (stopsAt (r_ctxDone ?r) ?inv) [0..<attemptsOf exampleKafka] = Some 1"
    by (simp add: attemptsOf_def exampleKafka_def k_NewConfigWithDefaults_def stopsAt_def exampleRound_def upt_conv_Cons)
  have "invokes (commandProcess (\<lambda>_. Inr exampleEnvelope) exampleKafka ''app.commands'' exampleRegistry [''pay''] ?r exampleMessage) = [0, 1]"
    using raw h f by (simp add: commandProcess_def inv Let_def) (simp add: deliver_eq Let_def exampleRound_def)
  with c show ?thesis by (simp add: exampleRound_def)
qed


definition exampleFetches :: "(kmessage \<Rightarrow> goerror option) \<Rightarrow> fetched list" where
  "exampleFetches write = [Fetched (exampleRound 0 write) exampleMessage,
     Fetched (exampleRound 1 write) (exampleMessage\<lparr>km_Offset := 8\<rparr>), FetchFailed CtxCanceled True True]"

lemma exampleFetches_ok: "inOrder (exampleFetches w)" "fetchSeesCtx (exampleFetches w)"
  by (simp_all add: exampleFetches_def inOrder_def fetchedMessages_def exampleMessage_def exampleRound_def)


text \<open>A handler that never succeeds in round 0 and always does later.\<close>

definition brokenFirst :: "('m, unit) khandler" where
  "brokenFirst i attempt m = (if i = 0 then HErr (ErrOther ''boom'') else HOk ())"

definition skippingFetches :: "fetched list" where
  "skippingFetches = [Fetched (exampleRound 0 (\<lambda>_. Some (ErrOther ''no leader''))) exampleMessage,
     Fetched (exampleRound 1 (\<lambda>_. None)) (exampleMessage\<lparr>km_Offset := 8\<rparr>)]"

text \<open>A message whose dead letter could not be written is passed over: the listener leaves it
  uncommitted for redelivery, but goes on, and the commit of the next message of the partition moves
  the group's offset past it. In the run below message 7 fails all its attempts and its dead letter
  is refused; message 8 is handled and committed; the group resumes from 9.\<close>

theorem dlq_failure_passes_over:
  "let run = consumerLoop (eventProcess (\<lambda>_. Inr exampleEnvelope) (\<lambda>b. Inr b) exampleKafka ''app.a'' brokenFirst) skippingFetches
   in inOrder skippingFetches \<and> committed (\<lambda>_. True) 0 run = 9 \<and>
      (\<exists>r acts. LHandled r exampleMessage acts \<in> set run \<and> km_Offset exampleMessage = 7 \<and> invokes acts = [0..<5] \<and> KCommit \<notin> set acts)"
proof -
  let ?P = "eventProcess (\<lambda>_. Inr exampleEnvelope) (\<lambda>b. Inr b) exampleKafka ''app.a'' brokenFirst"
  let ?r0 = "exampleRound 0 (\<lambda>_. Some (ErrOther ''no leader''))" and ?r1 = "exampleRound 1 (\<lambda>_. None)"
  have n: "attemptsOf exampleKafka = 5" by (simp add: attemptsOf_def exampleKafka_def k_NewConfigWithDefaults_def)
  have raw: "UnmarshalRaw (\<lambda>_. Inr exampleEnvelope) b = Inr exampleEnvelope" for b
    by (simp add: UnmarshalRaw_def exampleEnvelope_def emptyEnvelope_def)
  have bad: "find (stopsAt (r_ctxDone ?r0) (\<lambda>i. Some (ErrOther ''boom''))) [0..<5] = None"
    by (simp add: find_None_iff stopsAt_def exampleRound_def)
  have good: "find (stopsAt (r_ctxDone ?r1) (\<lambda>i. None)) [0..<5] = Some 0"
    by (simp add: stopsAt_def upt_conv_Cons)
  have p0: "invokes (?P ?r0 m) = [0..<5] \<and> KCommit \<notin> set (?P ?r0 m)" for m
    using bad by (simp add: eventProcess_def raw brokenFirst_def invokeHandler_def exampleRound_def)
      (simp add: deliver_eq n Let_def)
  have p1: "KCommit \<in> set (?P ?r1 m)" for m
    using good by (simp add: eventProcess_def raw brokenFirst_def invokeHandler_def exampleRound_def)
      (simp add: deliver_eq n Let_def)
  show ?thesis
    using p0 [of exampleMessage] p1 [of "exampleMessage\<lparr>km_Offset := 8\<rparr>"]
    by (auto simp: skippingFetches_def inOrder_def fetchedMessages_def exampleMessage_def)
qed

end
