(* ===== verification/Kafka_Gateway.thy ===== *)
theory Kafka_Gateway
  imports Kafka_Listeners ReplyRouter
begin

text \<open>
  Commands, queries and replies on the Kafka transport: the gateway
  (\<^verbatim>\<open>internal/kafka/gateway.go\<close>), the query listener that answers (\<^verbatim>\<open>querylistener.go\<close>) and the reply
  listener that hands the answers to the reply router (\<^verbatim>\<open>replylistener.go\<close>). A deadline is a time in
  nanoseconds, \<open>None\<close> for a context without one.
\<close>

section \<open>The gateway\<close>

record kafkaGateway =
  kg_cfg :: KafkaConfig
  kg_replyEnabled :: bool
  kg_hasReady :: bool

definition k_newGateway :: "KafkaConfig \<Rightarrow> bool \<Rightarrow> kafkaGateway" where
  "k_newGateway cfg replyReady =
     \<lparr>kg_cfg = cfg, kg_replyEnabled = (\<not> kc_DisableReplyListener cfg), kg_hasReady = replyReady\<rparr>"

definition rcHeaders :: "gostring \<Rightarrow> gostring \<Rightarrow> kheaders" where
  "rcHeaders kind appName = [''content-type'' \<mapsto> ''application/json'', ''reactive-commons-envelope'' \<mapsto> ''v1'',
     ''reactive-commons-kind'' \<mapsto> kind, ''reactive-commons-version'' \<mapsto> libraryVersion, hdr_SourceApplication \<mapsto> appName]"

definition k_SendCommand :: "'d Command kmarshal \<Rightarrow> publishFn \<Rightarrow> kafkaGateway \<Rightarrow> 'd Command \<Rightarrow> gostring \<Rightarrow> kpublished" where
  "k_SendCommand marshal pub g cmd targetService =
     (if targetService = [] then (Some (ErrOther ''kafka: SendCommand: targetService is required''), [])
      else if cmd_Name cmd = [] then (Some (ErrOther ''kafka: SendCommand: command name is required''), [])
      else case Marshal marshal cmd of
             Inl e \<Rightarrow> (Some e, [])
           | Inr body \<Rightarrow>
               if exceeds body (kg_cfg g) then (Some (tooLarge body (kg_cfg g)), [])
               else pub (topicForCommand (kg_cfg g) targetService) (cmd_CommandID cmd) body
                      (rcHeaders ''command'' (kc_AppName (kg_cfg g))))"

text \<open>\<open>primed\<close> says which case of the \<^verbatim>\<open>select\<close> is taken: the reply consumer is ready, or the context ended first.\<close>

definition awaitReplyReady :: "kafkaGateway \<Rightarrow> bool \<Rightarrow> goerror option" where
  "awaitReplyReady g primed = (if \<not> kg_hasReady g then None else if primed then None else Some ErrQueryTimeout)"

definition k_timeoutMs :: "int \<Rightarrow> int option \<Rightarrow> gostring" where
  "k_timeoutMs now ctx =
     (case ctx of
        None \<Rightarrow> ''0''
      | Some deadline \<Rightarrow> (let ms = go_div (deadline - now) goMillisecond in formatInt (if ms < 0 then 0 else ms)))"

definition k_queryHeaders :: "kafkaGateway \<Rightarrow> gostring \<Rightarrow> gostring \<Rightarrow> gostring \<Rightarrow> kheaders" where
  "k_queryHeaders g correlationID resource timeoutMs =
     (rcHeaders ''query'' (kc_AppName (kg_cfg g)))(hdr_ReplyID \<mapsto> topicForReply (kg_cfg g), hdr_CorrelationID \<mapsto> correlationID,
        hdr_ServedQueryID \<mapsto> resource, hdr_ReplyTimeoutMillis \<mapsto> timeoutMs)"

text \<open>
  \<^verbatim>\<open>RequestReply\<close>: \<open>uuid\<close> is the fresh correlation id, \<open>meanwhile\<close> what the rest of the program does with the
  router between the publish and the end of the wait.
\<close>

definition k_RequestReply :: "'d AsyncQuery kmarshal \<Rightarrow> (bytes \<Rightarrow> gostring option) \<Rightarrow> publishFn \<Rightarrow> bool \<Rightarrow>
    (kmessage list \<Rightarrow> routerSys \<Rightarrow> routerSys) \<Rightarrow> int \<Rightarrow> gostring \<Rightarrow> kafkaGateway \<Rightarrow> int option \<Rightarrow> 'd AsyncQuery \<Rightarrow> gostring \<Rightarrow>
    routerSys \<Rightarrow> (goerror + bytes option) \<times> kmessage list \<times> routerSys" where
  "k_RequestReply marshal errorMessage pub primed meanwhile now uuid g ctx query targetService rs =
     (if \<not> kg_replyEnabled g
      then (Inl (ErrOther ''kafka: RequestReply unavailable: DisableReplyListener is set''), [], rs)
      else if targetService = [] then (Inl (ErrOther ''kafka: RequestReply: targetService is required''), [], rs)
      else case awaitReplyReady g primed of
             Some e \<Rightarrow> (Inl e, [], rs)
           | None \<Rightarrow>
               (let (ch, rs1) = Register uuid rs
                in case Marshal marshal query of
                     Inl e \<Rightarrow> (Inl e, [], Deregister uuid rs1)
                   | Inr body \<Rightarrow>
                       if exceeds body (kg_cfg g) then (Inl (tooLarge body (kg_cfg g)), [], Deregister uuid rs1)
                       else
                         (case pub (topicForQuery (kg_cfg g) targetService) uuid body
                                 (k_queryHeaders g uuid (q_Resource query) (k_timeoutMs now ctx)) of
                            (Some e, sent) \<Rightarrow> (Inl e, sent, Deregister uuid rs1)
                          | (None, sent) \<Rightarrow>
                              (let rs2 = meanwhile sent rs1
                               in (AwaitReply errorMessage (buffer rs2 ch), sent, Deregister uuid rs2)))))"

definition routingMissing :: "gostring \<Rightarrow> From \<Rightarrow> goerror" where
  "routingMissing op from =
     ErrOther (''kafka: '' @ op @ '': missing reply routing metadata (correlationId='' @ goQuote (CorrelationID from) @
       '', replyId='' @ goQuote (ReplyID from) @ '')'')"

definition k_Reply :: "'r kmarshal \<Rightarrow> publishFn \<Rightarrow> KafkaConfig \<Rightarrow> 'r option \<Rightarrow> From \<Rightarrow> kpublished" where
  "k_Reply marshal pub cfg response from =
     (if CorrelationID from = [] \<or> ReplyID from = [] then (Some (routingMissing ''Reply'' from), [])
      else
        (let headers = (rcHeaders ''reply'' (kc_AppName cfg))(hdr_CorrelationID \<mapsto> CorrelationID from)
         in case response of
              None \<Rightarrow> pub (ReplyID from) (CorrelationID from) ''null'' (headers(hdr_CompletionOnlySignal \<mapsto> ''true''))
            | Some v \<Rightarrow>
                (case marshal v of
                   Inl e \<Rightarrow> (Some (Wrapped ''reactive-commons: marshal query reply'' (ErrOther e)), [])
                 | Inr body \<Rightarrow> pub (ReplyID from) (CorrelationID from) body headers)))"

definition k_replyError :: "gostring kmarshal \<Rightarrow> publishFn \<Rightarrow> KafkaConfig \<Rightarrow> gostring \<Rightarrow> From \<Rightarrow> kpublished" where
  "k_replyError marshalError pub cfg errMsg from =
     (if CorrelationID from = [] \<or> ReplyID from = [] then (Some (routingMissing ''replyError'' from), [])
      else case marshalError errMsg of
             Inl e \<Rightarrow> (Some (Wrapped ''reactive-commons: marshal error reply'' (ErrOther e)), [])
           | Inr body \<Rightarrow>
               pub (ReplyID from) (CorrelationID from) body
                 ((rcHeaders ''reply'' (kc_AppName cfg))(hdr_CorrelationID \<mapsto> CorrelationID from, hdr_ReplyError \<mapsto> ''true'')))"

text \<open>The stub that stands in for the gateway before \<^verbatim>\<open>Start\<close>.\<close>

definition notReadyGateway :: "gostring \<Rightarrow> goerror" where
  "notReadyGateway doing = ErrOther (''kafka: Gateway not ready; wait for <-app.Ready() before '' @ doing)"

section \<open>The query listener\<close>

type_synonym 'r kqueryHandler = "nat \<Rightarrow> bytes AsyncQuery \<Rightarrow> From \<Rightarrow> 'r option hresult"

definition invokeQuery :: "'r option hresult \<Rightarrow> goerror + 'r option" where
  "invokeQuery res =
     (case res of
        HOk v \<Rightarrow> Inr v
      | HErr e \<Rightarrow> Inl e
      | HPanic p \<Rightarrow> Inl (ErrOther (''kafka: query handler panic: '' @ p)))"

definition queryProcess :: "kunmarshal \<Rightarrow> 'r kmarshal \<Rightarrow> gostring kmarshal \<Rightarrow> KafkaConfig \<Rightarrow>
    ('e, 'n, 'c, 'r kqueryHandler) kafkaRegistry \<Rightarrow> round \<Rightarrow> kmessage \<Rightarrow> kaction list" where
  "queryProcess unmarshal marshal marshalError cfg reg r msg =
     (let pub = publish (r_write r) (r_order r);
          from = \<lparr>CorrelationID = headerValue msg hdr_CorrelationID, ReplyID = headerValue msg hdr_ReplyID\<rparr>;
          decoded = (case UnmarshalRaw unmarshal (km_Value msg) of
                       Inl e \<Rightarrow> Inl e
                     | Inr raw \<Rightarrow>
                         if env_Resource raw = []
                         then Inl (ErrOther (''kafka: envelope decode: missing required field '' @ goQuote ''resource''))
                         else Inr raw)
      in case decoded of
           Inl e \<Rightarrow>
             (if ReplyID from \<noteq> [] \<and> CorrelationID from \<noteq> []
              then map KReply (snd (k_replyError marshalError pub cfg (errorText e) from)) else []) @ [KCommit]
         | Inr raw \<Rightarrow>
             (case k_QueryHandler reg (env_Resource raw) of
                None \<Rightarrow> [KCommit]
              | Some handler \<Rightarrow>
                  KInvoke 0 #
                  (case invokeQuery (handler (r_id r) \<lparr>q_Resource = env_Resource raw, q_QueryData = env_QueryData raw\<rparr> from) of
                     Inl e \<Rightarrow> map KReply (snd (k_replyError marshalError pub cfg (errorText e) from))
                   | Inr v \<Rightarrow> map KReply (snd (k_Reply marshal pub cfg v from))) @ [KCommit]))"

section \<open>The reply listener\<close>

definition primeNum :: "int \<Rightarrow> int" where
  "primeNum partitions = (if partitions < 1 then 1 else partitions)"

text \<open>
  \<^verbatim>\<open>awaitPrimed\<close> over the polls it makes, each the fetch counter and whether the context ended before the
  next tick: \<open>Some True\<close> when the channel was closed, \<open>Some False\<close> when it gave up, \<open>None\<close> while polling.
\<close>

fun awaitPrimed :: "int \<Rightarrow> (int \<times> bool) list \<Rightarrow> bool option" where
  "awaitPrimed n [] = None"
| "awaitPrimed n ((fetches, ctxDone) # ps) =
     (if fetches \<ge> n then Some True else if ctxDone then Some False else awaitPrimed n ps)"

definition k_route :: "kmessage \<Rightarrow> routerSys \<Rightarrow> routerSys" where
  "k_route msg rs =
     (let correlationID = headerValue msg hdr_CorrelationID
      in if correlationID = [] then rs
         else Route correlationID
                \<lparr>p_Body = km_Value msg, p_IsError = (headerValue msg hdr_ReplyError = ''true''),
                 p_IsEmpty = (headerValue msg hdr_CompletionOnlySignal = ''true'')\<rparr> rs)"

section \<open>Facts\<close>

lemma commitsProperly_replies [simp]: "commitsProperly r (map KReply ms @ [KCommit])"
  "commitsProperly r (KInvoke i # map KReply ms @ [KCommit])"
  by (auto simp: commitsProperly_def intro: exI [of _ "map KReply ms"] exI [of _ "KInvoke i # map KReply ms"])

interpretation queryCommit: manual_commit "queryProcess unmarshal marshal marshalError cfg reg"
  for unmarshal marshal marshalError cfg reg
  by (rule manual_commitI) (simp add: queryProcess_def Let_def split: sum.split option.split)

fun replyOf :: "kaction \<Rightarrow> kmessage list" where
  "replyOf (KReply m) = [m]"
| "replyOf _ = []"

definition repliesOf :: "kaction list \<Rightarrow> kmessage list" where
  "repliesOf acts = concat (map replyOf acts)"

lemma repliesOf_simps [simp]:
  "repliesOf [] = []" "repliesOf (a # as) = replyOf a @ repliesOf as" "repliesOf (as @ bs) = repliesOf as @ repliesOf bs"
  "repliesOf (map KReply ms) = ms"
  by (induction ms) (simp_all add: repliesOf_def)

text \<open>The message as a consumer gets it: the broker has given it a partition and an offset.\<close>

definition delivered :: "nat \<Rightarrow> nat \<Rightarrow> kmessage \<Rightarrow> kmessage" where
  "delivered p off m = m\<lparr>km_Partition := p, km_Offset := off\<rparr>"

lemma headerValue_delivered [simp]: "headerValue (delivered p off m) k = headerValue m k" "km_Value (delivered p off m) = km_Value m"
  by (simp_all add: headerValue_def delivered_def)

text \<open>The header maps of replies.\<close>

definition replyHeaders :: "KafkaConfig \<Rightarrow> gostring \<Rightarrow> kheaders" where
  "replyHeaders cfg cid = (rcHeaders ''reply'' (kc_AppName cfg))(hdr_CorrelationID \<mapsto> cid)"

definition replyHeadersFor :: "KafkaConfig \<Rightarrow> gostring \<Rightarrow> goerror + 'r option \<Rightarrow> kheaders" where
  "replyHeadersFor cfg cid res =
     (case res of
        Inl e \<Rightarrow> (replyHeaders cfg cid)(hdr_ReplyError \<mapsto> ''true'')
      | Inr None \<Rightarrow> (replyHeaders cfg cid)(hdr_CompletionOnlySignal \<mapsto> ''true'')
      | Inr (Some v) \<Rightarrow> replyHeaders cfg cid)"

definition replyBody :: "('r \<Rightarrow> bytes) \<Rightarrow> (gostring \<Rightarrow> bytes) \<Rightarrow> goerror + 'r option \<Rightarrow> bytes" where
  "replyBody enc encError res =
     (case res of Inl e \<Rightarrow> encError (errorText e) | Inr None \<Rightarrow> ''null'' | Inr (Some v) \<Rightarrow> enc v)"

lemma queryProcess_replies:
  assumes "UnmarshalRaw unmarshal (km_Value msg) = Inr raw" and "env_Resource raw \<noteq> []"
    and "k_QueryHandler reg (env_Resource raw) = Some h"
    and "headerValue msg hdr_CorrelationID = cid" and "cid \<noteq> []" and "headerValue msg hdr_ReplyID = rid" and "rid \<noteq> []"
    and "res = invokeQuery (h (r_id r) \<lparr>q_Resource = env_Resource raw, q_QueryData = env_QueryData raw\<rparr>
           \<lparr>CorrelationID = cid, ReplyID = rid\<rparr>)"
  shows "queryProcess unmarshal (\<lambda>v. Inr (enc v)) (\<lambda>t. Inr (encError t)) cfg reg r msg =
    [KInvoke 0, KReply (producerMessage (r_order r) rid cid (replyBody enc encError res) (replyHeadersFor cfg cid res)), KCommit]"
  using assms
  by (simp add: queryProcess_def Let_def k_Reply_def k_replyError_def publish_def replyBody_def replyHeadersFor_def
      replyHeaders_def split: sum.split option.split)

text \<open>What the caller gets for the result of the handler.\<close>

definition callerResult :: "('r \<Rightarrow> bytes) \<Rightarrow> goerror + 'r option \<Rightarrow> goerror + bytes option" where
  "callerResult enc res =
     (case res of
        Inl e \<Rightarrow> Inl (ErrOther (''reactive-commons: query handler error: '' @ errorText e))
      | Inr v \<Rightarrow> Inr (map_option enc v))"

lemma replyHeadersFor_lookup:
  "replyHeadersFor cfg cid res hdr_CorrelationID = Some cid"
  "replyHeadersFor cfg cid res hdr_ReplyError = (case res of Inl e \<Rightarrow> Some ''true'' | Inr v \<Rightarrow> None)"
  "replyHeadersFor cfg cid res hdr_CompletionOnlySignal = (case res of Inr None \<Rightarrow> Some ''true'' | _ \<Rightarrow> None)"
  by (simp_all add: replyHeadersFor_def replyHeaders_def rcHeaders_def header_names split: sum.split option.split)

lemma await_routed_reply:
  assumes "cid \<noteq> []" and "Register cid rs = (ch, rs1)"
    and "keyOrder (replyHeadersFor cfg cid res) (order (replyHeadersFor cfg cid res))"
    and "\<And>e. res = Inl e \<Longrightarrow> errorMessage (encError (errorText e)) = Some (errorText e)"
  shows "AwaitReply errorMessage (buffer (k_route (delivered p off
      (producerMessage order rid cid (replyBody enc encError res) (replyHeadersFor cfg cid res))) rs1) ch) = callerResult enc res"
proof -
  let ?m = "producerMessage order rid cid (replyBody enc encError res) (replyHeadersFor cfg cid res)"
  have hv: "headerValue ?m k = (case replyHeadersFor cfg cid res k of Some v \<Rightarrow> v | None \<Rightarrow> [])" for k
    by (rule headerValue_producerMessage [of "replyHeadersFor cfg cid res" order, OF assms(3)])
  have body: "km_Value ?m = replyBody enc encError res" by (simp add: producerMessage_def)
  have ch: "channels rs1 cid = Some ch" "buffer rs1 ch = None"
    using assms(2) by (auto simp: Register_def Let_def)
  have flags: "headerValue ?m hdr_ReplyError = ''true'' \<longleftrightarrow> isl res"
    "headerValue ?m hdr_CompletionOnlySignal = ''true'' \<longleftrightarrow> res = Inr None"
    by (simp_all add: hv replyHeadersFor_lookup split: sum.split option.split)
  have "buffer (k_route (delivered p off ?m) rs1) ch =
      Some \<lparr>p_Body = replyBody enc encError res, p_IsError = isl res, p_IsEmpty = (res = Inr None)\<rparr>"
    using assms(1) ch
    by (simp add: k_route_def hv [of hdr_CorrelationID] replyHeadersFor_lookup(1) body flags Let_def Route_def
        Route_load_def Route_send_def)
  then show ?thesis
    using assms(4) by (cases res) (auto simp: AwaitReply_def callerResult_def replyBody_def split: option.split)
qed

text \<open>The round trip of a query, whatever the encoding of messages and errors.\<close>

lemma kafka_query_transport:
  assumes gw: "kg_replyEnabled g" "target \<noteq> []" "uuid \<noteq> []" "topicForReply (kg_cfg g) \<noteq> []"
    and query: "marshal query = Inr body" "\<not> exceeds body (kg_cfg g)" "\<And>m. wr m = None"
    and wire: "unmarshal body = Inr raw" "env_Resource raw \<noteq> []" "k_QueryHandler reg (env_Resource raw) = Some h"
    and codec: "\<And>e. res = Inl e \<Longrightarrow> errorMessage (encError (errorText e)) = Some (errorText e)"
    and qorder: "keyOrder (k_queryHeaders g uuid (q_Resource query) (k_timeoutMs now ctx))
          (order (k_queryHeaders g uuid (q_Resource query) (k_timeoutMs now ctx)))"
    and rorder: "keyOrder (replyHeadersFor scfg uuid res) (r_order r (replyHeadersFor scfg uuid res))"
    and service: "serve = queryProcess unmarshal (\<lambda>v. Inr (enc v)) (\<lambda>t. Inr (encError t)) scfg reg r"
    and res: "res = invokeQuery (h (r_id r) \<lparr>q_Resource = env_Resource raw, q_QueryData = env_QueryData raw\<rparr>
          \<lparr>CorrelationID = uuid, ReplyID = topicForReply (kg_cfg g)\<rparr>)"
  shows "\<exists>m rs'. k_RequestReply marshal errorMessage (publish wr order) True
        (\<lambda>sent rs. fold k_route (map (delivered 0 0) (concat (map (\<lambda>m. repliesOf (serve (delivered p off m))) sent))) rs)
        now uuid g ctx query target rs = (callerResult enc res, [m], rs') \<and>
      km_Topic m = topicForQuery (kg_cfg g) target \<and> km_Key m = uuid \<and> channels rs' uuid = None \<and>
      (\<exists>reply. serve (delivered p off m) = [KInvoke 0, KReply reply, KCommit] \<and>
        km_Topic reply = topicForReply (kg_cfg g))"
proof -
  let ?hs = "k_queryHeaders g uuid (q_Resource query) (k_timeoutMs now ctx)"
  let ?m = "producerMessage order (topicForQuery (kg_cfg g) target) uuid body ?hs"
  let ?reply = "producerMessage (r_order r) (topicForReply (kg_cfg g)) uuid (replyBody enc encError res) (replyHeadersFor scfg uuid res)"
  obtain ch rs1 where reg: "Register uuid rs = (ch, rs1)" by fastforce
  have hv: "headerValue ?m k = (case ?hs k of Some v \<Rightarrow> v | None \<Rightarrow> [])" for k
    by (rule headerValue_producerMessage [of ?hs order, OF qorder])
  have cid: "headerValue (delivered p off ?m) hdr_CorrelationID = uuid"
    and rid: "headerValue (delivered p off ?m) hdr_ReplyID = topicForReply (kg_cfg g)"
    by (simp_all only: headerValue_delivered hv) (simp_all add: k_queryHeaders_def header_names)
  have raw: "UnmarshalRaw unmarshal (km_Value (delivered p off ?m)) = Inr raw"
    using wire(1,2) by (simp add: UnmarshalRaw_def producerMessage_def)
  have serve: "serve (delivered p off ?m) = [KInvoke 0, KReply ?reply, KCommit]"
    unfolding service by (rule queryProcess_replies [OF raw wire(2,3) cid gw(3) rid gw(4) res])
  have result: "AwaitReply errorMessage (buffer (k_route (delivered 0 0 ?reply) rs1) ch) = callerResult enc res"
    by (rule await_routed_reply [where order = "r_order r", OF gw(3) reg rorder]) (rule codec)
  show ?thesis
    using gw query reg serve result
    by (simp add: k_RequestReply_def awaitReplyReady_def Marshal_def publish_def Let_def)
      (simp add: producerMessage_def Deregister_def)
qed

section \<open>Properties\<close>



end
