(* ===== verification/Kafka_App.thy ===== *)
theory Kafka_App
  imports Kafka_Gateway
begin

text \<open>
  The Kafka application (\<^verbatim>\<open>internal/kafka/application.go\<close>): the topics it verifies, the readers its
  listeners open (the \<^verbatim>\<open>open\<close> methods of the five listeners), the order of start-up and shutdown. The
  cluster answers as in the topology theory; reading and handling messages is the matter of the
  listener theories.
\<close>

section \<open>Readers\<close>

text \<open>\<^verbatim>\<open>rd_StartLast\<close> stands for \<^verbatim>\<open>StartOffset: kgo.LastOffset\<close>; a commit interval of zero means manual commits.\<close>

record ReaderConfig =
  rd_Brokers :: "gostring list"
  rd_GroupID :: gostring
  rd_Topic :: gostring
  rd_MinBytes :: int
  rd_MaxBytes :: int
  rd_SessionTimeout :: duration
  rd_HeartbeatInterval :: duration
  rd_StartLast :: bool
  rd_CommitInterval :: duration
  rd_Dialer :: Dialer

definition readerBase :: "KafkaConfig \<Rightarrow> gostring \<Rightarrow> gostring \<Rightarrow> ReaderConfig" where
  "readerBase cfg groupID topic = \<lparr>rd_Brokers = kc_BootstrapBrokers cfg, rd_GroupID = groupID, rd_Topic = topic,
     rd_MinBytes = 1, rd_MaxBytes = 10 * 2 ^ 20, rd_SessionTimeout = kc_ConsumerSessionTimeout cfg,
     rd_HeartbeatInterval = kc_ConsumerHeartbeatInterval cfg, rd_StartLast = False, rd_CommitInterval = 0,
     rd_Dialer = dialer cfg\<rparr>"

definition eventReader :: "KafkaConfig \<Rightarrow> gostring \<Rightarrow> ReaderConfig" where
  "eventReader cfg name = readerBase cfg (groupIDForEvent cfg name) (topicForEvent cfg name)"

definition commandReader :: "KafkaConfig \<Rightarrow> ReaderConfig" where
  "commandReader cfg = readerBase cfg (groupIDForCommand cfg) (topicForCommand cfg (kc_AppName cfg))"

definition queryReader :: "KafkaConfig \<Rightarrow> ReaderConfig" where
  "queryReader cfg = readerBase cfg (groupIDForQuery cfg) (topicForQuery cfg (kc_AppName cfg))"

definition notificationReader :: "KafkaConfig \<Rightarrow> gostring \<Rightarrow> ReaderConfig" where
  "notificationReader cfg name =
     (readerBase cfg (groupIDForNotification cfg name (kc_InstanceID cfg)) (topicForNotification cfg name))
       \<lparr>rd_StartLast := True, rd_CommitInterval := goSecond\<rparr>"

definition replyReader :: "KafkaConfig \<Rightarrow> ReaderConfig" where
  "replyReader cfg = (readerBase cfg (groupIDForReply cfg) (topicForReply cfg))\<lparr>rd_StartLast := True, rd_CommitInterval := goSecond\<rparr>"

section \<open>Start-up and shutdown\<close>

definition collectTopicsToVerify :: "KafkaConfig \<Rightarrow> gostring list \<Rightarrow> gostring list \<Rightarrow> bool \<Rightarrow> bool \<Rightarrow> bool \<Rightarrow> gostring list" where
  "collectTopicsToVerify cfg events notifs hasCommands hasQueries replyEnabled =
     concat (map (\<lambda>name. [topicForEvent cfg name, topicForEvent cfg name @ kc_DLQSuffix cfg]) events) @
     map (topicForNotification cfg) notifs @
     (if hasCommands then [topicForCommand cfg (kc_AppName cfg), topicForCommand cfg (kc_AppName cfg) @ kc_DLQSuffix cfg] else []) @
     (if hasQueries then [topicForQuery cfg (kc_AppName cfg)] else []) @
     (if replyEnabled then [topicForReply cfg] else [])"

text \<open>The listeners: the kind, the handler name of an event or notification listener, the reader.\<close>

datatype klistener =
    EventL gostring ReaderConfig
  | NotificationL gostring ReaderConfig
  | CommandL ReaderConfig
  | QueryL ReaderConfig
  | ReplyL ReaderConfig

fun readerOf :: "klistener \<Rightarrow> ReaderConfig" where
  "readerOf (EventL n r) = r"
| "readerOf (NotificationL n r) = r"
| "readerOf (CommandL r) = r"
| "readerOf (QueryL r) = r"
| "readerOf (ReplyL r) = r"

text \<open>The steps of \<^verbatim>\<open>Start\<close>.\<close>

datatype kstep =
    VerifyDial
  | NewProducer
  | VerifyTopics "gostring list"
  | LookupReplyPartitions
  | Open klistener
  | PublishState
  | MarkStarted
  | Spawn klistener
  | CloseReady
  | WaitCtx
  | Drain duration
  | CloseReader klistener
  | CloseProducer

text \<open>
  The listeners of a running application in the order they are spawned and closed; \<open>events\<close> and \<open>notifs\<close>
  are the registered names in the order of the range loops of \<^verbatim>\<open>Start\<close>.
\<close>

definition spawnListeners :: "KafkaConfig \<Rightarrow> gostring list \<Rightarrow> gostring list \<Rightarrow> bool \<Rightarrow> bool \<Rightarrow> klistener list" where
  "spawnListeners cfg events notifs hasCommands hasQueries =
     map (\<lambda>n. EventL n (eventReader cfg n)) events @
     map (\<lambda>n. NotificationL n (notificationReader cfg n)) notifs @
     (if hasCommands then [CommandL (commandReader cfg)] else []) @
     (if hasQueries then [QueryL (queryReader cfg)] else []) @
     (if kc_DisableReplyListener cfg then [] else [ReplyL (replyReader cfg)])"

text \<open>The wait for the handlers, bounded by the handler timeout.\<close>

definition drainTimeout :: "KafkaConfig \<Rightarrow> duration" where
  "drainTimeout cfg = (if kc_HandlerTimeout cfg \<le> 0 then 30 * goSecond else kc_HandlerTimeout cfg)"

definition k_shutdown :: "KafkaConfig \<Rightarrow> klistener list \<Rightarrow> kstep list" where
  "k_shutdown cfg ls = Drain (drainTimeout cfg) # map CloseReader ls @ [CloseProducer]"

text \<open>
  \<^verbatim>\<open>Start\<close>: \<open>reg\<close> is the registry when the handlers are snapshotted, the four orders are those of the
  snapshots, \<open>eOrder\<close> and \<open>nOrder\<close> those of the loops that open the listeners; the cluster answers
  \<open>cl\<close>. The context ends at \<open>WaitCtx\<close>.
\<close>

definition openOrder :: "KafkaConfig \<Rightarrow> gostring list \<Rightarrow> gostring list \<Rightarrow> bool \<Rightarrow> bool \<Rightarrow> kstep list" where
  "openOrder cfg events notifs hasCommands hasQueries =
     (if kc_DisableReplyListener cfg then [] else [LookupReplyPartitions, Open (ReplyL (replyReader cfg))]) @
     (if hasCommands then [Open (CommandL (commandReader cfg))] else []) @
     (if hasQueries then [Open (QueryL (queryReader cfg))] else []) @
     map (\<lambda>n. Open (EventL n (eventReader cfg n))) events @
     map (\<lambda>n. Open (NotificationL n (notificationReader cfg n))) notifs"

definition k_Start :: "cluster \<Rightarrow> KafkaConfig \<Rightarrow> ('e, 'n, 'c, 'q) kafkaRegistry \<Rightarrow> gostring list \<Rightarrow> gostring list \<Rightarrow>
    gostring list \<Rightarrow> gostring list \<Rightarrow> gostring list \<Rightarrow> gostring list \<Rightarrow> kstep list \<times> goerror option" where
  "k_Start cl cfg reg ke kn kc kq eOrder nOrder =
     (case verifyDial cl cfg of
        Some e \<Rightarrow> ([VerifyDial], Some e)
      | None \<Rightarrow>
          (let handlers = snapshotEventHandlers reg ke;
               notifHandlers = snapshotNotificationHandlers reg kn;
               hasCommands = (rangeKeys (snapshotCommandHandlers reg kc) kc \<noteq> []);
               hasQueries = (rangeKeys (snapshotQueryHandlers reg kq) kq \<noteq> []);
               replyEnabled = (\<not> kc_DisableReplyListener cfg);
               topics = collectTopicsToVerify cfg (rangeKeys handlers ke) (rangeKeys notifHandlers kn) hasCommands hasQueries replyEnabled
           in case fst (verifyTopics cl cfg topics) of
                Some e \<Rightarrow> ([VerifyDial, NewProducer, VerifyTopics topics, CloseProducer], Some e)
              | None \<Rightarrow>
                  (let events = rangeKeys handlers eOrder; notifs = rangeKeys notifHandlers nOrder;
                       ls = spawnListeners cfg events notifs hasCommands hasQueries
                   in ([VerifyDial, NewProducer, VerifyTopics topics] @
                       openOrder cfg events notifs hasCommands hasQueries @
                       [PublishState, MarkStarted] @ map Spawn ls @ [CloseReady, WaitCtx] @ k_shutdown cfg ls, None))))"

section \<open>Facts\<close>

definition opened_listeners :: "kstep list \<Rightarrow> klistener list" where
  "opened_listeners steps = concat (map (\<lambda>s. case s of Open l \<Rightarrow> [l] | _ \<Rightarrow> []) steps)"

definition spawned_listeners :: "kstep list \<Rightarrow> klistener list" where
  "spawned_listeners steps = concat (map (\<lambda>s. case s of Spawn l \<Rightarrow> [l] | _ \<Rightarrow> []) steps)"

definition closed_listeners :: "kstep list \<Rightarrow> klistener list" where
  "closed_listeners steps = concat (map (\<lambda>s. case s of CloseReader l \<Rightarrow> [l] | _ \<Rightarrow> []) steps)"

lemma step_projections [simp]:
  "opened_listeners [] = []" "opened_listeners (as @ bs) = opened_listeners as @ opened_listeners bs"
  "spawned_listeners [] = []" "spawned_listeners (as @ bs) = spawned_listeners as @ spawned_listeners bs"
  "closed_listeners [] = []" "closed_listeners (as @ bs) = closed_listeners as @ closed_listeners bs"
  "opened_listeners (s # as) = (case s of Open l \<Rightarrow> [l] | _ \<Rightarrow> []) @ opened_listeners as"
  "spawned_listeners (s # as) = (case s of Spawn l \<Rightarrow> [l] | _ \<Rightarrow> []) @ spawned_listeners as"
  "closed_listeners (s # as) = (case s of CloseReader l \<Rightarrow> [l] | _ \<Rightarrow> []) @ closed_listeners as"
  by (simp_all add: opened_listeners_def spawned_listeners_def closed_listeners_def)

lemma projections_map [simp]:
  "opened_listeners (map Spawn ls) = []" "closed_listeners (map Spawn ls) = []" "spawned_listeners (map Spawn ls) = ls"
  "opened_listeners (map CloseReader ls) = []" "closed_listeners (map CloseReader ls) = ls" "spawned_listeners (map CloseReader ls) = []"
  "opened_listeners (map (\<lambda>n. Open (f n)) ns) = map f ns" "closed_listeners (map (\<lambda>n. Open (f n)) ns) = []"
  "spawned_listeners (map (\<lambda>n. Open (f n)) ns) = []"
  by (induction ls) (simp_all, (induction ns; simp)+)

lemma openOrder_projections [simp]:
  "closed_listeners (openOrder cfg es ns c q) = []" "spawned_listeners (openOrder cfg es ns c q) = []"
  "set (opened_listeners (openOrder cfg es ns c q)) = set (spawnListeners cfg es ns c q)"
  by (auto simp: openOrder_def spawnListeners_def)

lemma snapshots:
  assumes "keyOrder (k_eventHandlers reg) ke" and "keyOrder (k_notificationHandlers reg) kn"
    and "keyOrder (k_commandHandlers reg) kc" and "keyOrder (k_queryHandlers reg) kq"
  shows "snapshotEventHandlers reg ke = k_eventHandlers reg" "snapshotNotificationHandlers reg kn = k_notificationHandlers reg"
    "snapshotCommandHandlers reg kc = k_commandHandlers reg" "snapshotQueryHandlers reg kq = k_queryHandlers reg"
  by (simp_all add: snapshotEventHandlers_def snapshotNotificationHandlers_def snapshotCommandHandlers_def
      snapshotQueryHandlers_def copyMap_id assms)

text \<open>A successful start, unfolded.\<close>

lemma k_Start_ok:
  assumes "keyOrder (k_eventHandlers reg) ke" and "keyOrder (k_notificationHandlers reg) kn"
    and "keyOrder (k_commandHandlers reg) kc" and "keyOrder (k_queryHandlers reg) kq"
    and "keyOrder (k_eventHandlers reg) eOrder" and "keyOrder (k_notificationHandlers reg) nOrder"
    and "k_Start cl cfg reg ke kn kc kq eOrder nOrder = (steps, None)"
  shows "\<exists>topics ls.
      topics = collectTopicsToVerify cfg ke kn (kc \<noteq> []) (kq \<noteq> []) (\<not> kc_DisableReplyListener cfg) \<and>
      fst (verifyTopics cl cfg topics) = None \<and>
      ls = spawnListeners cfg eOrder nOrder (kc \<noteq> []) (kq \<noteq> []) \<and>
      steps = [VerifyDial, NewProducer, VerifyTopics topics] @ openOrder cfg eOrder nOrder (kc \<noteq> []) (kq \<noteq> []) @
        [PublishState, MarkStarted] @ map Spawn ls @ [CloseReady, WaitCtx] @ k_shutdown cfg ls"
  using assms(7) by (simp add: k_Start_def snapshots [OF assms(1-4)] assms(1-6) Let_def split: option.splits)

section \<open>Properties\<close>

text \<open>C32: Every topic the running application uses was verified before anything was published: a start
  that succeeds has one listener for each registered event and notification and for the kinds in use,
  and the topic each of them reads, and the dead-letter topic of each event or command listener, is
  among the topics that verification found or created.\<close>

theorem kafka_topics_verified:
  assumes "keyOrder (k_eventHandlers reg) ke" and "keyOrder (k_notificationHandlers reg) kn"
    and "keyOrder (k_commandHandlers reg) kc" and "keyOrder (k_queryHandlers reg) kq"
    and "keyOrder (k_eventHandlers reg) eOrder" and "keyOrder (k_notificationHandlers reg) nOrder"
    and "k_Start cl cfg reg ke kn kc kq eOrder nOrder = (steps, None)"
  shows "\<exists>topics. VerifyTopics topics \<in> set steps \<and> fst (verifyTopics cl cfg topics) = None \<and>
    (\<forall>l \<in> set (spawned_listeners steps). rd_Topic (readerOf l) \<in> set topics \<and>
       (case l of EventL n r \<Rightarrow> rd_Topic r @ kc_DLQSuffix cfg \<in> set topics
        | CommandL r \<Rightarrow> rd_Topic r @ kc_DLQSuffix cfg \<in> set topics | _ \<Rightarrow> True)) \<and>
    (\<forall>n \<in> dom (k_eventHandlers reg). EventL n (eventReader cfg n) \<in> set (spawned_listeners steps)) \<and>
    (\<forall>n \<in> dom (k_notificationHandlers reg). NotificationL n (notificationReader cfg n) \<in> set (spawned_listeners steps)) \<and>
    (k_commandHandlers reg \<noteq> Map.empty \<longrightarrow> CommandL (commandReader cfg) \<in> set (spawned_listeners steps)) \<and>
    (k_queryHandlers reg \<noteq> Map.empty \<longrightarrow> QueryL (queryReader cfg) \<in> set (spawned_listeners steps))"
proof -
  obtain topics ls where t: "topics = collectTopicsToVerify cfg ke kn (kc \<noteq> []) (kq \<noteq> []) (\<not> kc_DisableReplyListener cfg)"
    and ok: "fst (verifyTopics cl cfg topics) = None" and ls: "ls = spawnListeners cfg eOrder nOrder (kc \<noteq> []) (kq \<noteq> [])"
    and steps: "steps = [VerifyDial, NewProducer, VerifyTopics topics] @ openOrder cfg eOrder nOrder (kc \<noteq> []) (kq \<noteq> []) @
        [PublishState, MarkStarted] @ map Spawn ls @ [CloseReady, WaitCtx] @ k_shutdown cfg ls"
    using k_Start_ok [OF assms] by blast
  have sp: "spawned_listeners steps = ls" by (simp add: steps k_shutdown_def)
  have sets: "set eOrder = set ke" "set nOrder = set kn" "set ke = dom (k_eventHandlers reg)" "set kn = dom (k_notificationHandlers reg)"
    using assms(1,2,5,6) by (auto simp: keyOrder_def)
  have ne: "k_commandHandlers reg \<noteq> Map.empty \<longleftrightarrow> kc \<noteq> []" "k_queryHandlers reg \<noteq> Map.empty \<longleftrightarrow> kq \<noteq> []"
    using assms(3,4) by (auto simp: keyOrder_def dom_eq_empty_conv [symmetric] simp del: dom_eq_empty_conv)
  have read: "rd_Topic (readerOf l) \<in> set topics \<and>
       (case l of EventL n r \<Rightarrow> rd_Topic r @ kc_DLQSuffix cfg \<in> set topics
        | CommandL r \<Rightarrow> rd_Topic r @ kc_DLQSuffix cfg \<in> set topics | _ \<Rightarrow> True)" if "l \<in> set ls" for l
    using that sets(1,2) unfolding ls t
    by (auto simp: spawnListeners_def collectTopicsToVerify_def eventReader_def notificationReader_def commandReader_def
        queryReader_def replyReader_def readerBase_def split: if_splits)
  have "VerifyTopics topics \<in> set steps" by (simp add: steps)
  moreover have "EventL n (eventReader cfg n) \<in> set ls" if "n \<in> dom (k_eventHandlers reg)" for n
    using that sets by (auto simp: ls spawnListeners_def)
  moreover have "NotificationL n (notificationReader cfg n) \<in> set ls" if "n \<in> dom (k_notificationHandlers reg)" for n
    using that sets by (auto simp: ls spawnListeners_def)
  moreover have "kc \<noteq> [] \<Longrightarrow> CommandL (commandReader cfg) \<in> set ls" "kq \<noteq> [] \<Longrightarrow> QueryL (queryReader cfg) \<in> set ls"
    by (simp_all add: ls spawnListeners_def)
  ultimately show ?thesis using ok read unfolding sp ne by blast
qed

definition exampleHandlers :: "(unit, unit, unit, unit) kafkaRegistry" where
  "exampleHandlers = k_newHandlerRegistry\<lparr>k_eventHandlers := [''paid'' \<mapsto> ()], k_commandHandlers := [''pay'' \<mapsto> ()]\<rparr>"

definition exampleTopics :: "gostring list" where
  "exampleTopics = [''app.paid'', ''app.paid.dlq'', ''app.commands'', ''app.commands.dlq'', ''app.replies'']"

definition exampleStart :: "kstep list \<times> goerror option" where
  "exampleStart = k_Start (exampleCluster exampleTopics) exampleKafka exampleHandlers [''paid''] [] [''pay''] [] [''paid''] []"

lemma exampleHandlers_orders:
  "keyOrder (k_eventHandlers exampleHandlers) [''paid'']" "keyOrder (k_notificationHandlers exampleHandlers) []"
  "keyOrder (k_commandHandlers exampleHandlers) [''pay'']" "keyOrder (k_queryHandlers exampleHandlers) []"
  by (simp_all add: keyOrder_def exampleHandlers_def k_newHandlerRegistry_def)

lemma exampleCluster_start:
  assumes "keyOrder (k_eventHandlers reg) [''paid'']" "keyOrder (k_notificationHandlers reg) []"
    "keyOrder (k_commandHandlers reg) [''pay'']" "keyOrder (k_queryHandlers reg) []"
  shows "\<exists>steps. k_Start (exampleCluster exampleTopics) exampleKafka reg [''paid''] [] [''pay''] [] [''paid''] [] = (steps, None)"
proof -
  have "collectTopicsToVerify exampleKafka [''paid''] [] True False True = exampleTopics"
    by (simp add: collectTopicsToVerify_def exampleTopics_def exampleKafka_def k_NewConfigWithDefaults_def
        topicForEvent_def topicForCommand_def topicForReply_def)
  moreover have "verifyDial (exampleCluster exampleTopics) exampleKafka = None"
    by (simp add: verifyDial_def exampleCluster_def exampleKafka_def)
  moreover have "fst (verifyTopics (exampleCluster exampleTopics) exampleKafka exampleTopics) = None"
    by (simp add: verifyTopics_def exampleCluster_def exampleKafka_def k_NewConfigWithDefaults_def topicsToCreate_eq exampleTopics_def)
  moreover have "\<not> kc_DisableReplyListener exampleKafka"
    by (simp add: exampleKafka_def k_NewConfigWithDefaults_def)
  ultimately show ?thesis
    by (simp add: k_Start_def snapshots [OF assms] assms Let_def)
qed

lemma exampleStart_ok: "\<exists>steps. exampleStart = (steps, None)"
  unfolding exampleStart_def by (rule exampleCluster_start [OF exampleHandlers_orders])

theorem kafka_topics_verified_witness:
  "\<exists>topics. VerifyTopics topics \<in> set (fst exampleStart) \<and>
     EventL ''paid'' (eventReader exampleKafka ''paid'') \<in> set (spawned_listeners (fst exampleStart)) \<and>
     CommandL (commandReader exampleKafka) \<in> set (spawned_listeners (fst exampleStart))"
proof -
  obtain steps where s: "exampleStart = (steps, None)" using exampleStart_ok by blast
  have "''paid'' \<in> dom (k_eventHandlers exampleHandlers)" "k_commandHandlers exampleHandlers \<noteq> Map.empty"
    by (simp_all add: exampleHandlers_def)
  with kafka_topics_verified [OF exampleHandlers_orders exampleHandlers_orders(1,2) s [unfolded exampleStart_def]]
  show ?thesis by (auto simp: s)
qed

definition orderly :: "KafkaConfig \<Rightarrow> kstep list \<Rightarrow> goerror option \<Rightarrow> bool" where
  "orderly cfg steps err \<longleftrightarrow>
     (err = None \<longleftrightarrow> CloseReady \<in> set steps) \<and>
     count_list steps CloseProducer = count_list steps NewProducer \<and> count_list steps NewProducer \<le> 1 \<and>
     last steps = (if NewProducer \<in> set steps then CloseProducer else VerifyDial) \<and>
     set (opened_listeners steps) = set (spawned_listeners steps) \<and> closed_listeners steps = spawned_listeners steps \<and>
     (err = None \<longrightarrow> (\<exists>pre post. steps = pre @ CloseReady # WaitCtx # Drain (drainTimeout cfg) # post \<and> MarkStarted \<in> set pre \<and>
        spawned_listeners pre = spawned_listeners steps \<and> closed_listeners post = closed_listeners steps))"

lemma orderly_run:
  assumes "ls = spawnListeners cfg es ns a b"
  shows "orderly cfg ([VerifyDial, NewProducer, VerifyTopics ts] @ openOrder cfg es ns a b @ [PublishState, MarkStarted] @
    map Spawn ls @ [CloseReady, WaitCtx] @ k_shutdown cfg ls) None"
proof -
  let ?pre = "[VerifyDial, NewProducer, VerifyTopics ts] @ openOrder cfg es ns a b @ [PublishState, MarkStarted] @ map Spawn ls"
  let ?post = "map CloseReader ls @ [CloseProducer]"
  let ?S = "?pre @ CloseReady # WaitCtx # Drain (drainTimeout cfg) # ?post"
  have S: "[VerifyDial, NewProducer, VerifyTopics ts] @ openOrder cfg es ns a b @ [PublishState, MarkStarted] @
      map Spawn ls @ [CloseReady, WaitCtx] @ k_shutdown cfg ls = ?S"
    by (simp add: k_shutdown_def)
  have c: "count_list (map Spawn ls) x = 0" "count_list (map CloseReader ls) x = 0" "count_list (openOrder cfg es ns a b) x = 0"
    if "x \<in> {CloseProducer, NewProducer}" for x
    using that by (auto simp: count_list_0_iff openOrder_def)
  have "count_list ?S CloseProducer = 1" "count_list ?S NewProducer = 1" by (simp_all add: c)
  moreover have "set (opened_listeners ?S) = set (spawned_listeners ?S)" "closed_listeners ?S = spawned_listeners ?S"
    by (simp_all add: assms)
  moreover have "spawned_listeners ?pre = spawned_listeners ?S" "closed_listeners ?post = closed_listeners ?S" "MarkStarted \<in> set ?pre"
    by simp_all
  moreover have "last ?S = CloseProducer" "CloseReady \<in> set ?S" "NewProducer \<in> set ?S" by simp_all
  ultimately show ?thesis unfolding S orderly_def by (simp only: simp_thms) (metis One_nat_def order_refl)
qed

text \<open>Start-up and shutdown of the Kafka application are in order: readiness is signalled only by a
  successful start, after registration was closed and every listener spawned; a producer that was
  created is closed exactly once and last, also when the topics are refused; the listeners closed at
  shutdown are exactly those opened and spawned, and they are closed after a drain bounded by the handler timeout.\<close>

theorem kafka_start_order:
  "orderly cfg (fst (k_Start cl cfg reg ke kn kc kq eOrder nOrder)) (snd (k_Start cl cfg reg ke kn kc kq eOrder nOrder))"
proof -
  have "orderly cfg [VerifyDial] (Some e)" "orderly cfg [VerifyDial, NewProducer, VerifyTopics ts, CloseProducer] (Some e)" for e ts
    by (simp_all add: orderly_def)
  then show ?thesis by (simp add: k_Start_def orderly_run [simplified] Let_def split: option.split)
qed

text \<open>Competing and fan-out consumption: the instances of an application share the consumer groups of
  events, commands and queries, commit their offsets themselves and start where the group stands;
  notifications and replies are read by a group of each instance's own, from the end of the topic,
  with automatic commits.\<close>

theorem kafka_consumer_groups:
  assumes "cfg' = cfg\<lparr>kc_InstanceID := inst\<rparr>"
  shows "rd_GroupID (eventReader cfg' n) = rd_GroupID (eventReader cfg n) \<and>
    rd_GroupID (commandReader cfg') = rd_GroupID (commandReader cfg) \<and>
    rd_GroupID (queryReader cfg') = rd_GroupID (queryReader cfg) \<and>
    list_all (\<lambda>r. rd_CommitInterval r = 0 \<and> \<not> rd_StartLast r) [eventReader cfg n, commandReader cfg, queryReader cfg] \<and>
    (rd_GroupID (notificationReader cfg' n) = rd_GroupID (notificationReader cfg n) \<longleftrightarrow> inst = kc_InstanceID cfg) \<and>
    (rd_GroupID (replyReader cfg') = rd_GroupID (replyReader cfg) \<longleftrightarrow> inst = kc_InstanceID cfg) \<and>
    list_all (\<lambda>r. rd_CommitInterval r \<noteq> 0 \<and> rd_StartLast r) [notificationReader cfg n, replyReader cfg] \<and>
    rd_Topic (replyReader cfg') = rd_Topic (replyReader cfg)"
  using assms
  by (auto simp: eventReader_def commandReader_def queryReader_def notificationReader_def replyReader_def readerBase_def
      groupIDForEvent_def groupIDForCommand_def groupIDForQuery_def groupIDForNotification_def groupIDForReply_def
      groupPrefix_def topicForReply_def split: option.split)

theorem kafka_consumer_groups_witness:
  "rd_GroupID (replyReader (exampleKafka\<lparr>kc_InstanceID := ''other''\<rparr>)) \<noteq> rd_GroupID (replyReader exampleKafka)"
proof -
  have "kc_InstanceID exampleKafka = ''instance-1''" by (simp add: exampleKafka_def k_NewConfigWithDefaults_def)
  with kafka_consumer_groups [where cfg = exampleKafka and inst = "''other''", OF refl] show ?thesis by simp
qed

text \<open>A handler registered between the snapshot of the handlers and \<^verbatim>\<open>markStarted\<close> is accepted, and stays
  in the registry, but the started application has no listener for it.\<close>

theorem late_registration_unconsumed:
  assumes "keyOrder (k_eventHandlers reg) ke" and "keyOrder (k_notificationHandlers reg) kn"
    and "keyOrder (k_commandHandlers reg) kc" and "keyOrder (k_queryHandlers reg) kq"
    and "keyOrder (k_eventHandlers reg) eOrder" and "keyOrder (k_notificationHandlers reg) nOrder"
    and "k_Start cl cfg reg ke kn kc kq eOrder nOrder = (steps, None)"
    and "k_ListenEvent reg name h = Inr reg'"
  shows "k_eventHandlers (markStarted reg') name = Some h \<and> (\<forall>rd. EventL name rd \<notin> set (spawned_listeners steps))"
proof -
  obtain ls where ls: "ls = spawnListeners cfg eOrder nOrder (kc \<noteq> []) (kq \<noteq> [])" and sp: "spawned_listeners steps = ls"
    using k_Start_ok [OF assms(1-7)] by (auto simp: k_shutdown_def)
  have "k_eventHandlers reg name = None" "k_eventHandlers reg' name = Some h"
    using assms(8) by (auto simp: k_ListenEvent_def split: if_splits)
  then show ?thesis
    using assms(5) unfolding sp ls by (auto simp: spawnListeners_def keyOrder_def markStarted_def)
qed

end
