(* ===== verification/Kafka_Events.thy ===== *)
theory Kafka_Events
  imports Kafka_App RC_JSON
begin

text \<open>
  Events over Kafka from the publisher's \<^verbatim>\<open>Emit\<close> (\<^verbatim>\<open>eventbus.go\<close>) to the subscriber's handler
  (\<^verbatim>\<open>eventlistener.go\<close>), with the JSON envelope written out: the topic the message is written to is the
  one the subscriber's listener reads, and processing it meets the delivery contract for the emitted
  event.
\<close>

section \<open>The event on the wire\<close>

text \<open>The event with the id \<^verbatim>\<open>Emit\<close> gives it when it has none.\<close>

definition identified :: "KafkaConfig \<Rightarrow> gostring \<Rightarrow> 'd DomainEvent \<Rightarrow> 'd DomainEvent" where
  "identified cfg uuid ev = (if ev_EventID ev = [] \<and> kc_AutoGenerateMissingEventID cfg then ev\<lparr>ev_EventID := uuid\<rparr> else ev)"

lemma identified_fields [simp]:
  "ev_Name (identified cfg uuid ev) = ev_Name ev" "ev_Data (identified cfg uuid ev) = ev_Data ev"
  by (simp_all add: identified_def)

lemma k_Emit_accepted:
  assumes "marshal (identified cfg uuid ev) = Inr body" and "\<not> exceeds body cfg" and "\<And>m. wr m = None"
  shows "k_Emit marshal (publish wr order) cfg uuid ev =
    (None, [producerMessage order (topicForEvent cfg (ev_Name ev)) (ev_EventID (identified cfg uuid ev)) body (busHeaders ''event'')])"
  using assms by (simp add: k_Emit_def identified_def [symmetric] Marshal_def publish_def Let_def)

lemma event_listener_opened:
  assumes "keyOrder (k_eventHandlers reg) ke" and "keyOrder (k_notificationHandlers reg) kn"
    and "keyOrder (k_commandHandlers reg) kc" and "keyOrder (k_queryHandlers reg) kq"
    and "keyOrder (k_eventHandlers reg) eOrder" and "keyOrder (k_notificationHandlers reg) nOrder"
    and "k_Start cl cfg reg ke kn kc kq eOrder nOrder = (steps, None)" and "k_eventHandlers reg name = Some h"
  shows "EventL name (eventReader cfg name) \<in> set (spawned_listeners steps)"
proof -
  have "name \<in> set eOrder" using assms(5,8) by (auto simp: keyOrder_def)
  then have "EventL name (eventReader cfg name) \<in> set (spawnListeners cfg eOrder nOrder (kc \<noteq> []) (kq \<noteq> []))"
    by (simp add: spawnListeners_def)
  moreover have "set (spawned_listeners steps) = set (spawnListeners cfg eOrder nOrder (kc \<noteq> []) (kq \<noteq> []))"
    using k_Start_ok [OF assms(1-7)] by (auto simp: k_shutdown_def)
  ultimately show ?thesis by simp
qed

section \<open>Properties\<close>

text \<open>C7: An event emitted over Kafka reaches the handler registered for its name: exactly one message is
  written, keyed by the event's id (a fresh one when the event has none and ids are generated); a
  subscriber that started with a handler for the name runs a listener on the very topic it is written
  to; and whatever partition and offset the broker gives the message, the listener meets the delivery
  contract for the handler applied to the name, the id and the decoded payload of the emitted event.\<close>

theorem kafka_event_delivery:
  assumes event: "validUTF8 (ev_Name ev)" "validUTF8 (ev_EventID (identified cfg uuid ev))" "enc (ev_Data ev) = Inr v" "isValue v"
    and named: "ev_Name ev \<noteq> []"
    and size: "\<And>body. marshalEvent enc (identified cfg uuid ev) = Inr body \<Longrightarrow> \<not> exceeds body cfg"
    and writer: "\<And>m. wr m = None"
    and started: "keyOrder (k_eventHandlers reg) ke" "keyOrder (k_notificationHandlers reg) kn"
      "keyOrder (k_commandHandlers reg) kc" "keyOrder (k_queryHandlers reg) kq"
      "keyOrder (k_eventHandlers reg) eOrder" "keyOrder (k_notificationHandlers reg) nOrder"
      "k_Start cl scfg reg ke kn kc kq eOrder nOrder = (steps, None)"
    and handler: "k_eventHandlers reg (ev_Name ev) = Some h"
    and topics: "topicForEvent scfg (ev_Name ev) = topicForEvent cfg (ev_Name ev)"
    and usable: "usable scfg" "kc_RetryMaxDelay scfg < 2 ^ 63"
    and attempts: "attempt = (\<lambda>i. invokeHandler [] (h (r_id r) i
        \<lparr>ev_Name = ev_Name ev, ev_EventID = ev_EventID (identified cfg uuid ev), ev_Data = decodePayload decode v\<rparr>))"
  shows "\<exists>m. k_Emit (marshalEvent enc) (publish wr order) cfg uuid ev = (None, [m]) \<and>
    km_Key m = ev_EventID (identified cfg uuid ev) \<and>
    (\<exists>l \<in> set (spawned_listeners steps). l = EventL (ev_Name ev) (readerOf l) \<and> rd_Topic (readerOf l) = km_Topic m) \<and>
    deliveryContract scfg (\<lambda>i. attempt i = None) (\<lambda>i. i > 0 \<and> r_ctxDone r i)
      (exhausted r scfg (km_Topic m) attempt (delivered p off m)) (r_write r (exhausted r scfg (km_Topic m) attempt (delivered p off m)) = None)
      (eventProcess (jsonEnvelope err) decode scfg (km_Topic m) h r (delivered p off m))"
proof -
  let ?ev = "identified cfg uuid ev"
  obtain body where body: "marshalEvent enc ?ev = Inr body"
    "unmarshalEnvelope body = Some (emptyEnvelope\<lparr>env_Name := ev_Name ev, env_EventID := ev_EventID ?ev, env_Data := v\<rparr>)"
    using event_decodes [where enc = enc and ev = ?ev and v = v] event by auto
  let ?m = "producerMessage order (topicForEvent cfg (ev_Name ev)) (ev_EventID ?ev) body (busHeaders ''event'')"
  have emit: "k_Emit (marshalEvent enc) (publish wr order) cfg uuid ev = (None, [?m])"
    using k_Emit_accepted [where marshal = "marshalEvent enc" and wr = wr, OF body(1) size [OF body(1)] writer] .
  have m: "km_Topic ?m = topicForEvent cfg (ev_Name ev)" "km_Key ?m = ev_EventID ?ev" "km_Value ?m = body"
    by (simp_all add: producerMessage_def)
  have listener: "EventL (ev_Name ev) (eventReader scfg (ev_Name ev)) \<in> set (spawned_listeners steps)"
    using event_listener_opened [OF started handler] .
  have topic: "rd_Topic (eventReader scfg (ev_Name ev)) = km_Topic ?m"
    using topics m(1) by (simp add: eventReader_def readerBase_def)
  have process: "eventProcess (jsonEnvelope err) decode scfg (km_Topic ?m) h r (delivered p off ?m) =
      deliver r scfg (km_Topic ?m) attempt (delivered p off ?m)"
    using body(2) m(3) named by (simp add: eventProcess_def UnmarshalRaw_def jsonEnvelope_def attempts emptyEnvelope_def Let_def)
  have d: "0 < kc_RetryInitialDelay scfg" "kc_RetryInitialDelay scfg < 2 ^ 63" "kc_RetryMaxDelay scfg < 2 ^ 63"
    using usable by (auto simp: usable_def)
  show ?thesis
    using emit m(2) listener topic deliver_contract [OF d] process by (intro exI [of _ ?m]) force
qed

text \<open>A subscriber whose handler fails the first time.\<close>

definition exampleSubscription :: "((bytes kdata DomainEvent, unit) khandler, unit, unit, unit) kafkaRegistry" where
  "exampleSubscription = k_newHandlerRegistry\<lparr>k_eventHandlers := [''paid'' \<mapsto> flakyHandler], k_commandHandlers := [''pay'' \<mapsto> ()]\<rparr>"

theorem kafka_event_delivery_witness:
  "\<exists>m. k_Emit (marshalEvent (\<lambda>d. Inr d)) (publish (\<lambda>_. None) exampleOrder) exampleKafka ''u-1''
       \<lparr>ev_Name = ''paid'', ev_EventID = ''7'', ev_Data = ''{}''\<rparr> = (None, [m]) \<and> km_Topic m = ''app.paid'' \<and> km_Key m = ''7'' \<and>
     length (invokes (eventProcess (jsonEnvelope (\<lambda>_. ''syntax error'')) (\<lambda>d. Inr d) exampleKafka ''app.paid''
       flakyHandler (exampleRound 0 (\<lambda>_. None)) (delivered 0 5 m))) \<le> attemptsOf exampleKafka"
proof -
  let ?ev = "\<lparr>ev_Name = ''paid'', ev_EventID = ''7'', ev_Data = ''{}''\<rparr>" and ?r = "exampleRound 0 (\<lambda>_. None)"
  let ?attempt = "\<lambda>i. invokeHandler [] (flakyHandler (r_id ?r) i
        \<lparr>ev_Name = ev_Name ?ev, ev_EventID = ev_EventID (identified exampleKafka ''u-1'' ?ev), ev_Data = decodePayload (\<lambda>d. Inr d) ''{}''\<rparr>)"
  have id: "identified exampleKafka ''u-1'' ?ev = ?ev" by (simp add: identified_def)
  have json: "validUTF8 ''paid''" "validUTF8 ''7''" "isValue ''{}''"
    "map_sum id length (marshalEvent (\<lambda>d. Inr d) ?ev) = Inr 39"
    by code_simp+
  have size: "\<not> exceeds body exampleKafka" if "marshalEvent (\<lambda>d. Inr d) (identified exampleKafka ''u-1'' ?ev) = Inr body" for body
    using json(4) that unfolding id by (auto simp: exceeds_def exampleKafka_def k_NewConfigWithDefaults_def)
  have orders: "keyOrder (k_eventHandlers exampleSubscription) [''paid'']" "keyOrder (k_notificationHandlers exampleSubscription) []"
    "keyOrder (k_commandHandlers exampleSubscription) [''pay'']" "keyOrder (k_queryHandlers exampleSubscription) []"
    by (simp_all add: keyOrder_def exampleSubscription_def k_newHandlerRegistry_def)
  obtain steps where start: "k_Start (exampleCluster exampleTopics) exampleKafka exampleSubscription [''paid''] [] [''pay''] [] [''paid''] [] = (steps, None)"
    using exampleCluster_start [OF orders] by blast
  have h: "k_eventHandlers exampleSubscription (ev_Name ?ev) = Some flakyHandler" by (simp add: exampleSubscription_def)
  have topic: "topicForEvent exampleKafka ''paid'' = ''app.paid''"
    by (simp add: topicForEvent_def exampleKafka_def k_NewConfigWithDefaults_def)
  obtain m where m: "k_Emit (marshalEvent (\<lambda>d. Inr d)) (publish (\<lambda>_. None) exampleOrder) exampleKafka ''u-1'' ?ev = (None, [m])"
    "km_Key m = ev_EventID (identified exampleKafka ''u-1'' ?ev)"
    "\<exists>l \<in> set (spawned_listeners steps). l = EventL (ev_Name ?ev) (readerOf l) \<and> rd_Topic (readerOf l) = km_Topic m"
    "deliveryContract exampleKafka (\<lambda>i. ?attempt i = None) (\<lambda>i. i > 0 \<and> r_ctxDone ?r i)
      (exhausted ?r exampleKafka (km_Topic m) ?attempt (delivered 0 5 m)) (r_write ?r (exhausted ?r exampleKafka (km_Topic m) ?attempt (delivered 0 5 m)) = None)
      (eventProcess (jsonEnvelope (\<lambda>_. ''syntax error'')) (\<lambda>d. Inr d) exampleKafka (km_Topic m) flakyHandler ?r (delivered 0 5 m))"
    using kafka_event_delivery [where ev = ?ev and cfg = exampleKafka and uuid = "''u-1''" and enc = "\<lambda>d. Inr d" and v = "''{}''" and
        wr = "\<lambda>_. None" and order = exampleOrder and decode = "\<lambda>d. Inr d" and r = ?r and p = 0 and off = 5 and
        err = "\<lambda>_. ''syntax error''" and attempt = ?attempt, OF _ _ _ _ _ size _ orders orders(1,2) start h refl exampleKafka_usable refl] json id
    by fastforce
  have "km_Topic m = ''app.paid''"
    using m(1) topic by (auto simp: k_Emit_def publish_def producerMessage_def Let_def split: sum.splits if_splits)
  with m show ?thesis unfolding deliveryContract_def Let_def id by (intro exI [of _ m]) simp
qed

end
