(* ===== verification/Kafka_Messages.thy ===== *)
theory Kafka_Messages
  imports Kafka_Events
begin

text \<open>
  Commands and notifications over Kafka from \<^verbatim>\<open>SendCommand\<close> (\<^verbatim>\<open>gateway.go\<close>) and \<^verbatim>\<open>EmitNotification\<close>
  (\<^verbatim>\<open>eventbus.go\<close>) to the handlers of the services that started, with the JSON envelope written out: a
  command goes to the one group of the service it names, a notification to the group of every instance.
\<close>

section \<open>Messages on the wire\<close>

lemma k_SendCommand_accepted:
  assumes "target \<noteq> []" and "cmd_Name cmd \<noteq> []" and "marshal cmd = Inr body" and "\<not> exceeds body (kg_cfg g)" and "\<And>m. wr m = None"
  shows "k_SendCommand marshal (publish wr order) g cmd target =
    (None, [producerMessage order (topicForCommand (kg_cfg g) target) (cmd_CommandID cmd) body (rcHeaders ''command'' (kc_AppName (kg_cfg g)))])"
  using assms by (simp add: k_SendCommand_def Marshal_def publish_def Let_def)

text \<open>The notification with the id \<^verbatim>\<open>EmitNotification\<close> gives it when it has none.\<close>

definition k_identified :: "KafkaConfig \<Rightarrow> gostring \<Rightarrow> 'd Notification \<Rightarrow> 'd Notification" where
  "k_identified cfg uuid n = (if n_EventID n = [] \<and> kc_AutoGenerateMissingEventID cfg then n\<lparr>n_EventID := uuid\<rparr> else n)"

lemma k_identified_fields [simp]:
  "n_Name (k_identified cfg uuid n) = n_Name n" "n_Data (k_identified cfg uuid n) = n_Data n"
  by (simp_all add: k_identified_def)

lemma k_EmitNotification_accepted:
  assumes "marshal (k_identified cfg uuid n) = Inr body" and "\<not> exceeds body cfg" and "\<And>m. wr m = None"
  shows "k_EmitNotification marshal (publish wr order) cfg uuid n =
    (None, [producerMessage order (topicForNotification cfg (n_Name n)) (n_EventID (k_identified cfg uuid n)) body (busHeaders ''notification'')])"
  using assms by (simp add: k_EmitNotification_def k_identified_def [symmetric] Marshal_def publish_def Let_def)

section \<open>Running instances\<close>

text \<open>
  An instance that started: its configuration, its registry and the orders in which the maps were visited,
  the answers of the cluster and the steps of \<^verbatim>\<open>Start\<close>.
\<close>

record ('e, 'n, 'c, 'q) kinstance =
  ki_cfg :: KafkaConfig
  ki_reg :: "('e, 'n, 'c, 'q) kafkaRegistry"
  ki_events :: "gostring list"
  ki_notifications :: "gostring list"
  ki_commands :: "gostring list"
  ki_queries :: "gostring list"
  ki_cluster :: cluster
  ki_steps :: "kstep list"

definition k_runs :: "('e, 'n, 'c, 'q) kinstance \<Rightarrow> bool" where
  "k_runs i \<longleftrightarrow>
     keyOrder (k_eventHandlers (ki_reg i)) (ki_events i) \<and> keyOrder (k_notificationHandlers (ki_reg i)) (ki_notifications i) \<and>
     keyOrder (k_commandHandlers (ki_reg i)) (ki_commands i) \<and> keyOrder (k_queryHandlers (ki_reg i)) (ki_queries i) \<and>
     k_Start (ki_cluster i) (ki_cfg i) (ki_reg i) (ki_events i) (ki_notifications i) (ki_commands i) (ki_queries i) (ki_events i)
       (ki_notifications i) = (ki_steps i, None)"

lemma k_runs_listeners:
  assumes "k_runs i"
  shows "spawned_listeners (ki_steps i) =
    spawnListeners (ki_cfg i) (ki_events i) (ki_notifications i) (ki_commands i \<noteq> []) (ki_queries i \<noteq> [])"
proof -
  have o: "keyOrder (k_eventHandlers (ki_reg i)) (ki_events i)" "keyOrder (k_notificationHandlers (ki_reg i)) (ki_notifications i)"
    "keyOrder (k_commandHandlers (ki_reg i)) (ki_commands i)" "keyOrder (k_queryHandlers (ki_reg i)) (ki_queries i)"
    and s: "k_Start (ki_cluster i) (ki_cfg i) (ki_reg i) (ki_events i) (ki_notifications i) (ki_commands i) (ki_queries i) (ki_events i)
       (ki_notifications i) = (ki_steps i, None)"
    using assms by (simp_all add: k_runs_def)
  show ?thesis using k_Start_ok [OF o o(1,2) s] by (auto simp: k_shutdown_def)
qed

lemma command_listener_runs:
  assumes "k_runs i" and "k_commandHandlers (ki_reg i) \<noteq> Map.empty"
  shows "CommandL (commandReader (ki_cfg i)) \<in> set (spawned_listeners (ki_steps i))"
proof -
  have "set (ki_commands i) \<noteq> {}" using assms by (simp add: k_runs_def keyOrder_def)
  then show ?thesis by (simp add: k_runs_listeners [OF assms(1)] spawnListeners_def)
qed

lemma notification_listener_runs:
  assumes "k_runs i" and "k_notificationHandlers (ki_reg i) name = Some h"
  shows "NotificationL name (notificationReader (ki_cfg i) name) \<in> set (spawned_listeners (ki_steps i))"
proof -
  have "name \<in> set (ki_notifications i)" using assms by (auto simp: k_runs_def keyOrder_def)
  then show ?thesis by (simp add: k_runs_listeners [OF assms(1)] spawnListeners_def)
qed

section \<open>Properties\<close>

text \<open>C20: A command sent over Kafka reaches the service it names: exactly one message is written, keyed by the
  command's id; the service, started with command handlers, runs a listener on the very topic it is
  written to; whatever partition and offset the broker gives the message, the listener commits and drops
  it when no registered name or pattern fits, and otherwise meets the delivery contract for the handler
  registered under the name, or else under a matching pattern, applied to the name, the id and the payload text that were sent.\<close>

theorem kafka_command_delivery:
  assumes command: "validUTF8 (cmd_Name cmd)" "validUTF8 (cmd_CommandID cmd)" "enc (cmd_Data cmd) = Inr v" "isValue v"
    and named: "cmd_Name cmd \<noteq> []" "target \<noteq> []"
    and size: "\<And>body. marshalCommand enc cmd = Inr body \<Longrightarrow> \<not> exceeds body (kg_cfg g)"
    and writer: "\<And>m. wr m = None"
    and service: "k_runs i" "k_commandHandlers (ki_reg i) \<noteq> Map.empty" "kc_AppName (ki_cfg i) = target"
      "topicForCommand (ki_cfg i) target = topicForCommand (kg_cfg g) target"
    and usable: "usable (ki_cfg i)" "kc_RetryMaxDelay (ki_cfg i) < 2 ^ 63"
    and ks: "keyOrder (k_commandHandlers (ki_reg i)) ks"
  shows "\<exists>m. k_SendCommand (marshalCommand enc) (publish wr order) g cmd target = (None, [m]) \<and> km_Key m = cmd_CommandID cmd \<and>
    (\<exists>l \<in> set (spawned_listeners (ki_steps i)). l = CommandL (readerOf l) \<and> rd_Topic (readerOf l) = km_Topic m) \<and>
    (case k_CommandHandler (ki_reg i) ks (cmd_Name cmd) of
       None \<Rightarrow> k_commandHandlers (ki_reg i) (cmd_Name cmd) = None \<and> (\<forall>p \<in> dom (k_commandHandlers (ki_reg i)). \<not> Matches (cmd_Name cmd) p) \<and>
         commandProcess (jsonEnvelope err) (ki_cfg i) (km_Topic m) (ki_reg i) ks r (delivered p off m) = [KCommit]
     | Some h \<Rightarrow>
         (\<exists>q. k_commandHandlers (ki_reg i) q = Some h \<and> (q = cmd_Name cmd \<or> k_commandHandlers (ki_reg i) (cmd_Name cmd) = None \<and> Matches (cmd_Name cmd) q)) \<and>
         (let attempt = (\<lambda>n. invokeHandler ''command '' (h (r_id r) n \<lparr>cmd_Name = cmd_Name cmd, cmd_CommandID = cmd_CommandID cmd, cmd_Data = v\<rparr>));
              dead = exhausted r (ki_cfg i) (km_Topic m) attempt (delivered p off m)
          in deliveryContract (ki_cfg i) (\<lambda>n. attempt n = None) (\<lambda>n. n > 0 \<and> r_ctxDone r n) dead (r_write r dead = None)
               (commandProcess (jsonEnvelope err) (ki_cfg i) (km_Topic m) (ki_reg i) ks r (delivered p off m))))"
proof -
  let ?env = "emptyEnvelope\<lparr>env_Name := cmd_Name cmd, env_CommandID := cmd_CommandID cmd, env_Data := v\<rparr>" and
    ?c = "\<lparr>cmd_Name = cmd_Name cmd, cmd_CommandID = cmd_CommandID cmd, cmd_Data = v\<rparr>"
  obtain body where body: "marshalCommand enc cmd = Inr body" "unmarshalEnvelope body = Some ?env"
    using command_decodes [where enc = enc and cmd = cmd and v = v, OF command] by blast
  let ?m = "producerMessage order (topicForCommand (kg_cfg g) target) (cmd_CommandID cmd) body (rcHeaders ''command'' (kc_AppName (kg_cfg g)))"
  have send: "k_SendCommand (marshalCommand enc) (publish wr order) g cmd target = (None, [?m])"
    using k_SendCommand_accepted [where marshal = "marshalCommand enc" and wr = wr, OF named(2,1) body(1) size [OF body(1)] writer] .
  have m: "km_Topic ?m = topicForCommand (kg_cfg g) target" "km_Key ?m = cmd_CommandID cmd" "km_Value ?m = body"
    by (simp_all add: producerMessage_def)
  have listener: "\<exists>l \<in> set (spawned_listeners (ki_steps i)). l = CommandL (readerOf l) \<and> rd_Topic (readerOf l) = km_Topic ?m"
    using command_listener_runs [OF service(1,2)] service(3,4) m(1) by (intro bexI) (auto simp: commandReader_def readerBase_def)
  have process: "commandProcess (jsonEnvelope err) (ki_cfg i) (km_Topic ?m) (ki_reg i) ks r (delivered p off ?m) =
      (case k_CommandHandler (ki_reg i) ks (cmd_Name cmd) of
         None \<Rightarrow> [KCommit]
       | Some h \<Rightarrow> deliver r (ki_cfg i) (km_Topic ?m) (\<lambda>n. invokeHandler ''command '' (h (r_id r) n ?c)) (delivered p off ?m))"
    using body(2) m(3) named(1) by (simp add: commandProcess_def UnmarshalRaw_def jsonEnvelope_def emptyEnvelope_def Let_def split: option.split)
  have d: "0 < kc_RetryInitialDelay (ki_cfg i)" "kc_RetryInitialDelay (ki_cfg i) < 2 ^ 63" "kc_RetryMaxDelay (ki_cfg i) < 2 ^ 63"
    using usable by (auto simp: usable_def)
  have res: "resolves (k_commandHandlers (ki_reg i)) (cmd_Name cmd) (k_CommandHandler (ki_reg i) ks (cmd_Name cmd))"
    using kafkaCommandLookup.lookup_resolves [OF _ ks, of "cmd_Name cmd"] by simp
  show ?thesis
    using send m(2) listener process resolves_None_iff [OF res] resolves_SomeD [of "k_commandHandlers (ki_reg i)" "cmd_Name cmd"] res
      deliver_contract [OF d]
    by (intro exI [of _ ?m]) (auto simp: Let_def split: option.split)
qed

text \<open>C21: A notification over Kafka is broadcast: exactly one message is written, keyed by the notification's id (a
  fresh one when it has none and ids are generated); every instance that started with a handler for the
  name runs a listener on the very topic it is written to, reading from the end of the topic; instances
  of one service with different instance ids read in different groups, so that each gets the message; and whatever
  partition and offset the broker gives it, the listener calls the handler exactly once, with the name,
  the id and the decoded payload that were emitted.\<close>

theorem kafka_notification_fanout:
  assumes notification: "validUTF8 (n_Name n)" "validUTF8 (n_EventID (k_identified cfg uuid n))" "enc (n_Data n) = Inr v" "isValue v"
    and named: "n_Name n \<noteq> []"
    and size: "\<And>body. marshalNotification enc (k_identified cfg uuid n) = Inr body \<Longrightarrow> \<not> exceeds body cfg"
    and writer: "\<And>m. wr m = None"
    and running: "\<forall>i \<in> set instances. k_runs i \<and> topicForNotification (ki_cfg i) (n_Name n) = topicForNotification cfg (n_Name n)"
  shows "\<exists>m. k_EmitNotification (marshalNotification enc) (publish wr order) cfg uuid n = (None, [m]) \<and>
    km_Key m = n_EventID (k_identified cfg uuid n) \<and>
    (\<forall>i \<in> set instances. \<forall>h. k_notificationHandlers (ki_reg i) (n_Name n) = Some h \<longrightarrow>
       (\<exists>l \<in> set (spawned_listeners (ki_steps i)). l = NotificationL (n_Name n) (readerOf l) \<and> rd_Topic (readerOf l) = km_Topic m \<and>
          rd_StartLast (readerOf l) \<and> rd_GroupID (readerOf l) = groupIDForNotification (ki_cfg i) (n_Name n) (kc_InstanceID (ki_cfg i))) \<and>
       notificationProcess (jsonEnvelope err) decode h r (delivered p off m) =
         [(0, invokeHandler ''notification '' (h (r_id r) 0
            \<lparr>n_Name = n_Name n, n_EventID = n_EventID (k_identified cfg uuid n), n_Data = decodePayload decode v\<rparr>))]) \<and>
    (\<forall>i \<in> set instances. \<forall>j \<in> set instances. groupPrefix (ki_cfg i) = groupPrefix (ki_cfg j) \<longrightarrow> kc_InstanceID (ki_cfg i) \<noteq> kc_InstanceID (ki_cfg j) \<longrightarrow>
       groupIDForNotification (ki_cfg i) (n_Name n) (kc_InstanceID (ki_cfg i)) \<noteq> groupIDForNotification (ki_cfg j) (n_Name n) (kc_InstanceID (ki_cfg j)))"
proof -
  let ?n = "k_identified cfg uuid n"
  let ?env = "emptyEnvelope\<lparr>env_Name := n_Name n, env_EventID := n_EventID ?n, env_Data := v\<rparr>"
  obtain body where body: "marshalNotification enc ?n = Inr body" "unmarshalEnvelope body = Some ?env"
    using notification_decodes [where enc = enc and n = ?n and v = v] notification by auto
  let ?m = "producerMessage order (topicForNotification cfg (n_Name n)) (n_EventID ?n) body (busHeaders ''notification'')"
  have emit: "k_EmitNotification (marshalNotification enc) (publish wr order) cfg uuid n = (None, [?m])"
    using k_EmitNotification_accepted [where marshal = "marshalNotification enc" and wr = wr, OF body(1) size [OF body(1)] writer] .
  have m: "km_Topic ?m = topicForNotification cfg (n_Name n)" "km_Key ?m = n_EventID ?n" "km_Value ?m = body"
    by (simp_all add: producerMessage_def)
  have listener: "\<exists>l \<in> set (spawned_listeners (ki_steps i)). l = NotificationL (n_Name n) (readerOf l) \<and> rd_Topic (readerOf l) = km_Topic ?m \<and>
          rd_StartLast (readerOf l) \<and> rd_GroupID (readerOf l) = groupIDForNotification (ki_cfg i) (n_Name n) (kc_InstanceID (ki_cfg i))"
    if "i \<in> set instances" "k_notificationHandlers (ki_reg i) (n_Name n) = Some h" for i h
    using notification_listener_runs [OF _ that(2)] running that(1) m(1)
    by (intro bexI [of _ "NotificationL (n_Name n) (notificationReader (ki_cfg i) (n_Name n))"]) (auto simp: notificationReader_def readerBase_def)
  have process: "notificationProcess (jsonEnvelope err) decode h r (delivered p off ?m) =
      [(0, invokeHandler ''notification '' (h (r_id r) 0 \<lparr>n_Name = n_Name n, n_EventID = n_EventID ?n, n_Data = decodePayload decode v\<rparr>))]" for h
    using body(2) m(3) named by (simp add: notificationProcess_def UnmarshalRaw_def jsonEnvelope_def emptyEnvelope_def)
  show ?thesis
    using emit m(2) listener process by (intro exI [of _ ?m]) (simp add: groupIDForNotification_def)
qed

text \<open>Instances of one service that handles a command, failing the first time, and a notification.\<close>

definition exampleMessaging :: "(unit, (bytes kdata Notification, unit) khandler, (bytes Command, unit) khandler, unit) kafkaRegistry" where
  "exampleMessaging = k_newHandlerRegistry\<lparr>k_notificationHandlers := [''flush'' \<mapsto> flakyHandler], k_commandHandlers := [''pay'' \<mapsto> flakyHandler]\<rparr>"

definition messagingTopics :: "gostring list" where
  "messagingTopics = [''app.flush'', ''app.commands'', ''app.commands.dlq'', ''app.replies'']"

definition messagingStart :: "gostring \<Rightarrow> kstep list \<times> goerror option" where
  "messagingStart ident =
     k_Start (exampleCluster messagingTopics) (exampleKafka\<lparr>kc_InstanceID := ident\<rparr>) exampleMessaging [] [''flush''] [''pay''] [] [] [''flush'']"

definition messagingInstance ::
  "gostring \<Rightarrow> (unit, (bytes kdata Notification, unit) khandler, (bytes Command, unit) khandler, unit) kinstance" where
  "messagingInstance ident =
     \<lparr>ki_cfg = exampleKafka\<lparr>kc_InstanceID := ident\<rparr>, ki_reg = exampleMessaging, ki_events = [], ki_notifications = [''flush''],
      ki_commands = [''pay''], ki_queries = [], ki_cluster = exampleCluster messagingTopics, ki_steps = fst (messagingStart ident)\<rparr>"

lemma messagingInstance_runs: "k_runs (messagingInstance ident)"
proof -
  let ?cfg = "exampleKafka\<lparr>kc_InstanceID := ident\<rparr>"
  have o: "keyOrder (k_eventHandlers exampleMessaging) []" "keyOrder (k_notificationHandlers exampleMessaging) [''flush'']"
    "keyOrder (k_commandHandlers exampleMessaging) [''pay'']" "keyOrder (k_queryHandlers exampleMessaging) []"
    by (simp_all add: keyOrder_def exampleMessaging_def k_newHandlerRegistry_def)
  have "collectTopicsToVerify ?cfg [] [''flush''] True False True = messagingTopics"
    by (simp add: collectTopicsToVerify_def messagingTopics_def exampleKafka_def k_NewConfigWithDefaults_def
        topicForNotification_def topicForCommand_def topicForReply_def)
  moreover have "verifyDial (exampleCluster messagingTopics) ?cfg = None"
    by (simp add: verifyDial_def exampleCluster_def exampleKafka_def)
  moreover have "fst (verifyTopics (exampleCluster messagingTopics) ?cfg messagingTopics) = None"
    by (simp add: verifyTopics_def exampleCluster_def exampleKafka_def k_NewConfigWithDefaults_def topicsToCreate_eq messagingTopics_def)
  moreover have "\<not> kc_DisableReplyListener ?cfg"
    by (simp add: exampleKafka_def k_NewConfigWithDefaults_def)
  ultimately have "snd (messagingStart ident) = None"
    by (simp add: messagingStart_def k_Start_def snapshots [OF o] o Let_def)
  then have "messagingStart ident = (fst (messagingStart ident), None)" by (metis prod.collapse)
  with o show ?thesis by (simp add: k_runs_def messagingInstance_def messagingStart_def)
qed

text \<open>What the three instances and the sender have in common.\<close>

lemma messagingInstance_fields [simp]:
  "ki_cfg (messagingInstance ident) = exampleKafka\<lparr>kc_InstanceID := ident\<rparr>" "ki_reg (messagingInstance ident) = exampleMessaging"
  by (simp_all add: messagingInstance_def)

lemma messaging_config:
  "kc_AppName exampleKafka = ''app''" "topicForCommand (exampleKafka\<lparr>kc_InstanceID := ident\<rparr>) ''app'' = ''app.commands''"
  "topicForCommand exampleKafka ''app'' = ''app.commands''"
  "topicForNotification (exampleKafka\<lparr>kc_InstanceID := ident\<rparr>) name = topicForNotification exampleKafka name"
  "groupPrefix (exampleKafka\<lparr>kc_InstanceID := ident\<rparr>) = ''app''"
  "usable (exampleKafka\<lparr>kc_InstanceID := ident\<rparr>)" "attemptsOf (exampleKafka\<lparr>kc_InstanceID := ident\<rparr>) = attemptsOf exampleKafka"
  using exampleKafka_usable(1)
  by (simp_all add: exampleKafka_def k_NewConfigWithDefaults_def topicForCommand_def topicForNotification_def groupPrefix_def usable_def attemptsOf_def)

theorem kafka_command_delivery_witness:
  "\<exists>m. k_SendCommand (marshalCommand (\<lambda>d. Inr d)) (publish (\<lambda>_. None) exampleOrder) (k_newGateway exampleKafka True)
       \<lparr>cmd_Name = ''pay'', cmd_CommandID = ''9'', cmd_Data = ''{}''\<rparr> ''app'' = (None, [m]) \<and> km_Key m = ''9'' \<and>
     (\<exists>l \<in> set (spawned_listeners (ki_steps (messagingInstance ''i''))). l = CommandL (readerOf l) \<and> rd_Topic (readerOf l) = km_Topic m) \<and>
     length (invokes (commandProcess (jsonEnvelope (\<lambda>_. ''syntax error'')) (exampleKafka\<lparr>kc_InstanceID := ''i''\<rparr>) (km_Topic m)
       exampleMessaging [''pay''] (exampleRound 0 (\<lambda>_. None)) (delivered 0 5 m))) \<le> attemptsOf exampleKafka"
proof -
  let ?c = "\<lparr>cmd_Name = ''pay'', cmd_CommandID = ''9'', cmd_Data = ''{}''\<rparr>" and ?g = "k_newGateway exampleKafka True"
  have json: "validUTF8 ''pay''" "validUTF8 ''9''" "isValue ''{}''" "map_sum id length (marshalCommand (\<lambda>d. Inr d) ?c) = Inr 40"
    by code_simp+
  have g: "kg_cfg ?g = exampleKafka" by (simp add: k_newGateway_def)
  have size: "\<not> exceeds body (kg_cfg ?g)" if "marshalCommand (\<lambda>d. Inr d) ?c = Inr body" for body
    using json(4) that unfolding g by (auto simp: exceeds_def exampleKafka_def k_NewConfigWithDefaults_def)
  have reg: "k_commandHandlers exampleMessaging \<noteq> Map.empty" "keyOrder (k_commandHandlers exampleMessaging) [''pay'']"
    "k_CommandHandler exampleMessaging [''pay''] ''pay'' = Some flakyHandler"
    by (simp_all add: exampleMessaging_def k_newHandlerRegistry_def keyOrder_def k_CommandHandler_def)
  have max: "kc_RetryMaxDelay (exampleKafka\<lparr>kc_InstanceID := ''i''\<rparr>) < 2 ^ 63" using exampleKafka_usable(2) by simp
  show ?thesis
    using kafka_command_delivery [where enc = "\<lambda>d. Inr d" and cmd = ?c and v = "''{}''" and g = ?g and target = "''app''" and
        wr = "\<lambda>_. None" and order = exampleOrder and i = "messagingInstance ''i''" and ks = "[''pay'']" and
        r = "exampleRound 0 (\<lambda>_. None)" and p = 0 and off = 5 and err = "\<lambda>_. ''syntax error''", OF _ _ _ _ _ _ size]
      json reg g max messagingInstance_runs
    by (auto simp: messaging_config deliveryContract_def Let_def)
qed

theorem kafka_notification_fanout_witness:
  "\<exists>m. k_EmitNotification (marshalNotification (\<lambda>d. Inr d)) (publish (\<lambda>_. None) exampleOrder) exampleKafka ''u''
       \<lparr>n_Name = ''flush'', n_EventID = ''7'', n_Data = ''{}''\<rparr> = (None, [m]) \<and>
     notificationProcess (jsonEnvelope (\<lambda>_. ''syntax error'')) (\<lambda>d. Inr d) flakyHandler (exampleRound 0 (\<lambda>_. None)) (delivered 0 5 m) =
       [(0, Some (ErrOther ''boom''))] \<and>
     groupIDForNotification (ki_cfg (messagingInstance ''i'')) ''flush'' ''i'' \<noteq> groupIDForNotification (ki_cfg (messagingInstance ''j'')) ''flush'' ''j''"
proof -
  let ?n = "\<lparr>n_Name = ''flush'', n_EventID = ''7'', n_Data = ''{}''\<rparr>"
  have id: "k_identified exampleKafka ''u'' ?n = ?n" by (simp add: k_identified_def)
  have json: "validUTF8 ''flush''" "validUTF8 ''7''" "isValue ''{}''" "map_sum id length (marshalNotification (\<lambda>d. Inr d) ?n) = Inr 40"
    by code_simp+
  have size: "\<not> exceeds body exampleKafka" if "marshalNotification (\<lambda>d. Inr d) (k_identified exampleKafka ''u'' ?n) = Inr body" for body
    using json(4) that unfolding id by (auto simp: exceeds_def exampleKafka_def k_NewConfigWithDefaults_def)
  have reg: "k_notificationHandlers exampleMessaging ''flush'' = Some flakyHandler"
    by (simp add: exampleMessaging_def)
  show ?thesis
    using kafka_notification_fanout [where enc = "\<lambda>d. Inr d" and n = ?n and v = "''{}''" and cfg = exampleKafka and uuid = "''u''" and
        wr = "\<lambda>_. None" and order = exampleOrder and instances = "[messagingInstance ''i'', messagingInstance ''j'']" and
        r = "exampleRound 0 (\<lambda>_. None)" and p = 0 and off = 5 and err = "\<lambda>_. ''syntax error''" and decode = "\<lambda>d. Inr d", OF _ _ _ _ _ size]
      json reg messagingInstance_runs
    by (auto simp: messaging_config id flakyHandler_def invokeHandler_def)
qed

end
