(* ===== verification/Kafka_Facade.thy ===== *)
theory Kafka_Facade
  imports Kafka_App
begin

text \<open>
  What surrounds the Kafka transport: its telemetry (\<^verbatim>\<open>internal/kafka/observability.go\<close> and its uses in the
  event bus, the gateway and the listeners), the writer of the producer (\<^verbatim>\<open>producer.go\<close>), and the
  application object with its accessors (\<^verbatim>\<open>application.go\<close>). OpenTelemetry handles are references; what
  is recorded through them is a list of records.
\<close>

section \<open>Telemetry\<close>

type_synonym attributes = "(gostring \<times> gostring) list"

datatype spanKind = SpanKindProducer | SpanKindConsumer

datatype telemetry =
    SpanStart gostring spanKind attributes
  | SpanError goerror
  | SpanEnd
  | CounterAdd gostring attributes
  | HistogramRecord gostring attributes

definition metricAttrs :: "gostring \<Rightarrow> gostring \<Rightarrow> gostring \<Rightarrow> attributes" where
  "metricAttrs system topic kind =
     [(''messaging.system'', system), (''messaging.destination'', topic), (''messaging.reactive_commons.kind'', kind)]"

text \<open>The handles; a counter is known by its name. The no-op implementations are parameters.\<close>

record observability =
  ob_tracer :: objref
  ob_meterProvider :: objref
  ob_messagesEmitted :: gostring
  ob_messagesConsumed :: gostring
  ob_handlerErrors :: gostring
  ob_handlerDuration :: gostring

definition resolveObservability :: "objref \<Rightarrow> objref \<Rightarrow> KafkaConfig \<Rightarrow> observability" where
  "resolveObservability noopTracer noopMeterProvider cfg =
     \<lparr>ob_tracer = (case kc_Tracer cfg of None \<Rightarrow> noopTracer | Some t \<Rightarrow> t),
      ob_meterProvider = (case kc_MeterProvider cfg of None \<Rightarrow> noopMeterProvider | Some m \<Rightarrow> m),
      ob_messagesEmitted = ''reactive_commons_kafka_messages_emitted'',
      ob_messagesConsumed = ''reactive_commons_kafka_messages_consumed'',
      ob_handlerErrors = ''reactive_commons_kafka_handler_errors'',
      ob_handlerDuration = ''reactive_commons_kafka_handler_duration_seconds''\<rparr>"

definition startProduceSpan :: "gostring \<Rightarrow> gostring \<Rightarrow> telemetry" where
  "startProduceSpan topic kind =
     SpanStart (''kafka.produce '' @ topic) SpanKindProducer (metricAttrs ''kafka'' topic kind @ [(''messaging.operation'', ''publish'')])"

definition startConsumeSpan :: "gostring \<Rightarrow> gostring \<Rightarrow> telemetry" where
  "startConsumeSpan topic kind =
     SpanStart (''kafka.consume '' @ topic) SpanKindConsumer (metricAttrs ''kafka'' topic kind @ [(''messaging.operation'', ''process'')])"

text \<open>The finalizer both return.\<close>

definition endSpan :: "goerror option \<Rightarrow> telemetry list" where
  "endSpan err = (case err of None \<Rightarrow> [] | Some e \<Rightarrow> [SpanError e]) @ [SpanEnd]"

text \<open>
  Publishing under a span: \<^verbatim>\<open>Emit\<close>, \<^verbatim>\<open>EmitNotification\<close>, \<^verbatim>\<open>SendCommand\<close>, \<^verbatim>\<open>RequestReply\<close> and \<^verbatim>\<open>publishReply\<close> open
  one around their call of \<^verbatim>\<open>publish\<close>, whose message and error are the result \<open>r\<close>, and count a success.
\<close>

definition observePublish :: "observability \<Rightarrow> gostring \<Rightarrow> kpublished \<Rightarrow> telemetry list" where
  "observePublish ob kind r =
     concat (map (\<lambda>m. startProduceSpan (km_Topic m) kind # endSpan (fst r) @
       (if fst r = None then [CounterAdd (ob_messagesEmitted ob) (metricAttrs ''kafka'' (km_Topic m) kind)] else [])) (snd r))"

text \<open>\<^verbatim>\<open>invokeHandler\<close>: the span, the counters and the deferred finalizer around one call of the handler.\<close>

definition observeInvoke :: "observability \<Rightarrow> gostring \<Rightarrow> gostring \<Rightarrow> goerror option \<Rightarrow> telemetry list" where
  "observeInvoke ob topic kind err =
     [startConsumeSpan topic kind, CounterAdd (ob_messagesConsumed ob) (metricAttrs ''kafka'' topic kind),
      HistogramRecord (ob_handlerDuration ob) (metricAttrs ''kafka'' topic kind)] @
     (if err \<noteq> None then [CounterAdd (ob_handlerErrors ob) (metricAttrs ''kafka'' topic kind)] else []) @ endSpan err"

text \<open>The telemetry of a message whose processing did \<open>acts\<close>, \<open>invoke i\<close> being the result of the \<open>i\<close>-th call.\<close>

definition observeMessage :: "observability \<Rightarrow> gostring \<Rightarrow> gostring \<Rightarrow> (nat \<Rightarrow> goerror option) \<Rightarrow> kaction list \<Rightarrow> telemetry list" where
  "observeMessage ob topic kind invoke acts = concat (map (\<lambda>i. observeInvoke ob topic kind (invoke i)) (invokes acts))"

section \<open>Reading telemetry\<close>

fun counted :: "gostring \<Rightarrow> telemetry \<Rightarrow> bool" where
  "counted name (CounterAdd n as) = (n = name)"
| "counted name _ = False"

definition counter :: "gostring \<Rightarrow> telemetry list \<Rightarrow> nat" where
  "counter name ts = length (filter (counted name) ts)"

text \<open>Spans are closed before the next one opens: \<open>spansOk True\<close> reads the rest of an open span.\<close>

fun spansOk :: "bool \<Rightarrow> telemetry list \<Rightarrow> bool" where
  "spansOk isOpen [] = (\<not> isOpen)"
| "spansOk isOpen (SpanStart n k as # ts) = (\<not> isOpen \<and> spansOk True ts)"
| "spansOk isOpen (SpanEnd # ts) = (isOpen \<and> spansOk False ts)"
| "spansOk isOpen (SpanError e # ts) = (isOpen \<and> spansOk isOpen ts)"
| "spansOk isOpen (t # ts) = spansOk isOpen ts"

lemma counter_simps [simp]:
  "counter n [] = 0" "counter n (as @ bs) = counter n as + counter n bs"
  "counter n (t # ts) = (if counted n t then 1 else 0) + counter n ts"
  by (simp_all add: counter_def)

lemma counter_concat: "counter n (concat ts) = sum_list (map (counter n) ts)"
  by (induction ts) simp_all

lemma spansOk_append: "spansOk b as \<Longrightarrow> spansOk False bs \<Longrightarrow> spansOk b (as @ bs)"
  by (induction b as rule: spansOk.induct) auto

lemma spansOk_concat: "(\<And>t. t \<in> set ts \<Longrightarrow> spansOk False t) \<Longrightarrow> spansOk False (concat ts)"
  by (induction ts) (auto intro: spansOk_append)

lemma observeInvoke_spans: "spansOk False (observeInvoke ob topic kind err)"
  by (auto simp: observeInvoke_def startConsumeSpan_def endSpan_def split: option.split)

lemma observePublish_spans: "spansOk False (observePublish ob kind r)"
  unfolding observePublish_def
  by (rule spansOk_concat) (auto simp: startProduceSpan_def endSpan_def split: option.splits)

lemma observeInvoke_counts:
  assumes "ob = resolveObservability nt nm cfg"
  shows "counter (ob_messagesConsumed ob) (observeInvoke ob topic kind err) = 1"
    "counter (ob_handlerErrors ob) (observeInvoke ob topic kind err) = (if err = None then 0 else 1)"
  using assms by (auto simp: observeInvoke_def startConsumeSpan_def endSpan_def resolveObservability_def split: option.split)

lemma observeMessage_counts:
  assumes "ob = resolveObservability nt nm cfg"
  shows "counter (ob_messagesConsumed ob) (observeMessage ob topic kind invoke acts) = length (invokes acts)"
    "counter (ob_handlerErrors ob) (observeMessage ob topic kind invoke acts) = length (filter (\<lambda>i. invoke i \<noteq> None) (invokes acts))"
proof -
  have "sum_list (map (\<lambda>i. if invoke i = None then 0 else 1) is) = length (filter (\<lambda>i. invoke i \<noteq> None) is)" for "is"
    by (induction "is") simp_all
  then show "counter (ob_messagesConsumed ob) (observeMessage ob topic kind invoke acts) = length (invokes acts)"
    "counter (ob_handlerErrors ob) (observeMessage ob topic kind invoke acts) = length (filter (\<lambda>i. invoke i \<noteq> None) (invokes acts))"
    by (simp_all add: observeMessage_def counter_concat comp_def observeInvoke_counts [OF assms] sum_list_triv)
qed

text \<open>The failing calls of a delivery that met its contract: all but the last one, or all of them.\<close>

lemma contract_failures:
  assumes "deliveryContract cfg (\<lambda>i. invoke i = None) ended dead ok acts"
  shows "length (filter (\<lambda>i. invoke i \<noteq> None) (invokes acts)) =
      length (invokes acts) - (if invokes acts \<noteq> [] \<and> invoke (length (invokes acts) - 1) = None then 1 else 0)"
proof -
  obtain k where k: "invokes acts = [0..<k]" "\<And>i. Suc i < k \<Longrightarrow> invoke i \<noteq> None"
    using assms unfolding deliveryContract_def Let_def by blast
  show ?thesis
  proof (cases k)
    case (Suc n)
    have "filter (\<lambda>i. invoke i \<noteq> None) [0..<n] = [0..<n]"
      using k(2) Suc by (intro filter_True) auto
    then show ?thesis using Suc k(1) by simp
  qed (simp add: k(1))
qed

section \<open>The application object\<close>

text \<open>The writer \<^verbatim>\<open>newProducer\<close> builds; \<^verbatim>\<open>close\<close> of a producer that was never built does nothing.\<close>

record kafkaWriter =
  kw_Addr :: "gostring list"
  kw_HashBalancer :: bool
  kw_RequiredAcks :: int
  kw_BatchTimeout :: duration
  kw_Compression :: int
  kw_AllowAutoTopicCreation :: bool
  kw_TLS :: "objref option"
  kw_SASL :: "objref option"

definition newProducer :: "KafkaConfig \<Rightarrow> kafkaWriter" where
  "newProducer cfg = \<lparr>kw_Addr = kc_BootstrapBrokers cfg, kw_HashBalancer = True, kw_RequiredAcks = kc_ProducerAcks cfg,
     kw_BatchTimeout = kc_ProducerBatchTimeout cfg, kw_Compression = kc_ProducerCompression cfg,
     kw_AllowAutoTopicCreation = kc_AllowAutoCreateTopics cfg, kw_TLS = kc_TLS cfg, kw_SASL = kc_SASL cfg\<rparr>"

text \<open>The event bus and the gateway are the stubs until \<^verbatim>\<open>Start\<close> publishes the real ones.\<close>

datatype kbus = NotReadyBus | ProducerBus kafkaWriter
datatype kgateway = NotReadyGateway | ProducerGateway kafkaGateway

record KafkaApp =
  ka_cfg :: KafkaConfig
  ka_gateway :: kgateway
  ka_eventBus :: kbus
  ka_ready :: bool
  ka_started :: bool
  ka_logger :: objref
  ka_obs :: observability
  ka_listeners :: "klistener list"

definition NewKafkaApp :: "objref \<Rightarrow> objref \<Rightarrow> objref \<Rightarrow> KafkaConfig \<Rightarrow> KafkaApp" where
  "NewKafkaApp slogDefault noopTracer noopMeterProvider cfg =
     \<lparr>ka_cfg = cfg, ka_gateway = NotReadyGateway, ka_eventBus = NotReadyBus, ka_ready = False, ka_started = False,
      ka_logger = (case kc_Logger cfg of None \<Rightarrow> slogDefault | Some l \<Rightarrow> l),
      ka_obs = resolveObservability noopTracer noopMeterProvider cfg, ka_listeners = []\<rparr>"

text \<open>
  The effect of a step of \<^verbatim>\<open>Start\<close> on the fields the accessors read; \<open>ls\<close> are the listeners opened so far,
  \<open>replyReady\<close> whether there is a reply listener.
\<close>

definition appStep :: "klistener list \<Rightarrow> kstep \<Rightarrow> KafkaApp \<Rightarrow> KafkaApp" where
  "appStep ls st a =
     (case st of
        PublishState \<Rightarrow> a\<lparr>ka_eventBus := ProducerBus (newProducer (ka_cfg a)),
          ka_gateway := ProducerGateway (k_newGateway (ka_cfg a) (\<not> kc_DisableReplyListener (ka_cfg a))), ka_listeners := ls\<rparr>
      | MarkStarted \<Rightarrow> a\<lparr>ka_started := True\<rparr>
      | CloseReady \<Rightarrow> a\<lparr>ka_ready := True\<rparr>
      | _ \<Rightarrow> a)"

text \<open>The application after the first steps of \<^verbatim>\<open>Start\<close>.\<close>

definition appAfter :: "kstep list \<Rightarrow> KafkaApp \<Rightarrow> KafkaApp" where
  "appAfter sts a = fold (appStep (opened_listeners sts)) sts a"

text \<open>\<^verbatim>\<open>EventBus().Emit\<close> and \<^verbatim>\<open>Gateway().SendCommand\<close> as an application calls them, through the accessors.\<close>

definition EventBus_Emit :: "'d DomainEvent kmarshal \<Rightarrow> publishFn \<Rightarrow> gostring \<Rightarrow> KafkaApp \<Rightarrow> 'd DomainEvent \<Rightarrow> kpublished" where
  "EventBus_Emit marshal pub uuid a ev =
     (case ka_eventBus a of NotReadyBus \<Rightarrow> notReadyBus | ProducerBus w \<Rightarrow> k_Emit marshal pub (ka_cfg a) uuid ev)"

definition Gateway_SendCommand :: "'d Command kmarshal \<Rightarrow> publishFn \<Rightarrow> KafkaApp \<Rightarrow> 'd Command \<Rightarrow> gostring \<Rightarrow> kpublished" where
  "Gateway_SendCommand marshal pub a cmd target =
     (case ka_gateway a of
        NotReadyGateway \<Rightarrow> (Some (notReadyGateway ''sending commands''), [])
      | ProducerGateway g \<Rightarrow> k_SendCommand marshal pub g cmd target)"

lemma fold_appStep_other:
  assumes "PublishState \<notin> set sts" and "MarkStarted \<notin> set sts" and "CloseReady \<notin> set sts"
  shows "fold (appStep ls) sts a = a"
  using assms by (induction sts arbitrary: a) (auto simp: appStep_def split: kstep.splits)

lemma appStep_cfg [simp]: "ka_cfg (fold (appStep ls) sts a) = ka_cfg a" "ka_obs (fold (appStep ls) sts a) = ka_obs a"
  by (induction sts arbitrary: a) (simp_all add: appStep_def split: kstep.splits)

lemma prefix_contains: "xs @ ys = P @ c # Q \<Longrightarrow> c \<in> set xs \<Longrightarrow> c \<notin> set P \<Longrightarrow> \<exists>zs. xs = P @ c # zs"
  by (auto simp: append_eq_append_conv2 append_eq_Cons_conv)

lemma ready_iff: "\<not> ka_ready a \<Longrightarrow> ka_ready (fold (appStep ls) sts a) \<longleftrightarrow> CloseReady \<in> set sts"
  "ka_ready a \<Longrightarrow> ka_ready (fold (appStep ls) sts a)"
  by (induction sts arbitrary: a) (auto simp: appStep_def split: kstep.splits)

lemma unpublished: "PublishState \<notin> set sts \<Longrightarrow>
    ka_eventBus (fold (appStep ls) sts a) = ka_eventBus a \<and> ka_gateway (fold (appStep ls) sts a) = ka_gateway a"
  by (induction sts arbitrary: a) (auto simp: appStep_def split: kstep.splits)

lemma openOrder_other [simp]:
  "PublishState \<notin> set (openOrder cfg es ns c q)" "CloseReady \<notin> set (openOrder cfg es ns c q)" "MarkStarted \<notin> set (openOrder cfg es ns c q)"
  "PublishState \<notin> set (k_shutdown cfg ls)" "MarkStarted \<notin> set (k_shutdown cfg ls)" "CloseReady \<notin> set (k_shutdown cfg ls)"
  by (auto simp: openOrder_def k_shutdown_def)

text \<open>A start fails before it publishes anything, or opens the listeners, publishes and closes \<^verbatim>\<open>Ready\<close> in that order.\<close>

lemma start_shape:
  assumes "k_Start cl cfg reg ke kn kc kq eOrder nOrder = (sts, err)"
  obtains (failed) "err \<noteq> None" "CloseReady \<notin> set sts"
  | (started) before ls where "err = None"
      "sts = (before @ [PublishState, MarkStarted] @ map Spawn ls) @ CloseReady # WaitCtx # k_shutdown cfg ls"
      "PublishState \<notin> set before" "CloseReady \<notin> set before" "set (opened_listeners before) = set ls"
proof (cases "verifyDial cl cfg")
  case (Some e)
  then have "sts = [VerifyDial]" "err = Some e" using assms by (simp_all add: k_Start_def)
  then show ?thesis by (intro failed) simp_all
next
  case None
  let ?h = "snapshotEventHandlers reg ke" and ?n = "snapshotNotificationHandlers reg kn"
  let ?c = "rangeKeys (snapshotCommandHandlers reg kc) kc \<noteq> []" and ?q = "rangeKeys (snapshotQueryHandlers reg kq) kq \<noteq> []"
  let ?topics = "collectTopicsToVerify cfg (rangeKeys ?h ke) (rangeKeys ?n kn) ?c ?q (\<not> kc_DisableReplyListener cfg)"
  let ?o = "openOrder cfg (rangeKeys ?h eOrder) (rangeKeys ?n nOrder) ?c ?q"
  let ?ls = "spawnListeners cfg (rangeKeys ?h eOrder) (rangeKeys ?n nOrder) ?c ?q"
  show ?thesis
  proof (cases "fst (verifyTopics cl cfg ?topics)")
    case (Some e)
    then have "sts = [VerifyDial, NewProducer, VerifyTopics ?topics, CloseProducer]" "err = Some e"
      using None assms by (simp_all add: k_Start_def Let_def)
    then show ?thesis by (intro failed) simp_all
  next
    case topics: None
    have "sts = (([VerifyDial, NewProducer, VerifyTopics ?topics] @ ?o) @ [PublishState, MarkStarted] @ map Spawn ?ls) @
        CloseReady # WaitCtx # k_shutdown cfg ?ls" "err = None"
      using None topics assms by (simp_all add: k_Start_def Let_def)
    then show ?thesis by (intro started [of "[VerifyDial, NewProducer, VerifyTopics ?topics] @ ?o" ?ls]) simp_all
  qed
qed

text \<open>The application once \<^verbatim>\<open>Ready\<close> is closed.\<close>

lemma ready_app:
  assumes "k_Start cl cfg reg ke kn kc kq eOrder nOrder = (sts @ rest, err)" and "CloseReady \<in> set sts"
    and "app = appAfter sts (NewKafkaApp lg nt nm cfg)"
  shows "err = None" "ka_eventBus app = ProducerBus (newProducer cfg)" "ka_started app" "ka_cfg app = cfg"
    "ka_gateway app = ProducerGateway (k_newGateway cfg (\<not> kc_DisableReplyListener cfg))"
    "ka_listeners app = opened_listeners sts"
proof -
  obtain before ls where st: "err = None" "sts @ rest = (before @ [PublishState, MarkStarted] @ map Spawn ls) @ CloseReady # WaitCtx # k_shutdown cfg ls"
      "PublishState \<notin> set before" "CloseReady \<notin> set before"
    using start_shape [OF assms(1)] assms(2) by (metis Un_iff set_append)
  then obtain zs where zs: "sts = before @ PublishState # MarkStarted # map Spawn ls @ CloseReady # zs"
    using prefix_contains [OF st(2) assms(2)] by auto
  then have "set zs \<subseteq> set (WaitCtx # k_shutdown cfg ls)" using st(2) by (metis Un_upper1 append.assoc append_Cons append_Nil same_append_eq set_append list.inject)
  then have z: "fold (appStep xs) zs a = a" for xs a by (intro fold_appStep_other) auto
  have sp: "fold (appStep xs) (map Spawn ls) a = a" for xs a by (intro fold_appStep_other) auto
  let ?a = "fold (appStep (opened_listeners sts)) before (NewKafkaApp lg nt nm cfg)"
  have "ka_cfg ?a = cfg" by (simp add: NewKafkaApp_def)
  then show "err = None" "ka_eventBus app = ProducerBus (newProducer cfg)" "ka_started app" "ka_cfg app = cfg"
    "ka_gateway app = ProducerGateway (k_newGateway cfg (\<not> kc_DisableReplyListener cfg))"
    "ka_listeners app = opened_listeners sts"
    unfolding assms(3) appAfter_def by (simp_all add: st(1)) (simp_all add: zs sp z appStep_def)
qed

section \<open>Properties\<close>

text \<open>The readiness gate of the Kafka application, at every moment of every start: as long as the state is
  not published, the bus and the gateway that the accessors return fail every call with the
  not-ready error and write nothing; once the channel of \<^verbatim>\<open>Ready\<close> is closed they are the real ones on the
  application's configuration, and the listeners stored are those that were opened. A start that
  fails never closes the channel.\<close>

theorem kafka_ready_gate:
  assumes "k_Start cl cfg reg ke kn kc kq eOrder nOrder = (sts @ rest, err)" and "app = appAfter sts (NewKafkaApp lg nt nm cfg)"
  shows "(PublishState \<notin> set sts \<longrightarrow> EventBus_Emit marshalE pub uuid app ev = notReadyBus \<and>
      Gateway_SendCommand marshalC pub app cmd target = (Some (notReadyGateway ''sending commands''), [])) \<and>
    (ka_ready app \<longrightarrow> EventBus_Emit marshalE pub uuid app ev = k_Emit marshalE pub cfg uuid ev \<and>
      Gateway_SendCommand marshalC pub app cmd target =
        k_SendCommand marshalC pub (k_newGateway cfg (\<not> kc_DisableReplyListener cfg)) cmd target \<and>
      ka_started app \<and> set (ka_listeners app) = set (opened_listeners sts)) \<and>
    (err \<noteq> None \<longrightarrow> \<not> ka_ready app)"
proof -
  let ?a = "NewKafkaApp lg nt nm cfg" and ?ls = "opened_listeners sts"
  have init: "ka_eventBus ?a = NotReadyBus" "ka_gateway ?a = NotReadyGateway" "\<not> ka_ready ?a" "ka_cfg ?a = cfg"
    by (simp_all add: NewKafkaApp_def)
  have early: "PublishState \<notin> set sts \<Longrightarrow> ka_eventBus app = NotReadyBus \<and> ka_gateway app = NotReadyGateway"
    using unpublished [of sts ?ls ?a] init by (simp add: assms(2) appAfter_def)
  have failed: "err \<noteq> None \<Longrightarrow> CloseReady \<notin> set sts" using ready_app(1) [OF assms(1)] by blast
  have ready: "ka_ready app \<longleftrightarrow> CloseReady \<in> set sts"
    using ready_iff(1) [OF init(3)] by (simp add: assms(2) appAfter_def)
  note late = ready_app [OF assms(1) _ assms(2)]
  show ?thesis using early late ready failed
    by (auto simp: EventBus_Emit_def Gateway_SendCommand_def)
qed

theorem kafka_ready_gate_witness:
  "\<exists>rest app. fst exampleStart = take 3 (fst exampleStart) @ rest \<and> app = appAfter (take 3 (fst exampleStart)) (NewKafkaApp 0 1 2 exampleKafka) \<and>
     EventBus_Emit (\<lambda>_. Inr ''x'') (publish (\<lambda>_. None) exampleOrder) ''u'' app \<lparr>ev_Name = ''paid'', ev_EventID = ''7'', ev_Data = ()\<rparr> = notReadyBus"
proof -
  obtain steps where st: "exampleStart = (steps, None)" using exampleStart_ok by blast
  have eq: "k_Start (exampleCluster exampleTopics) exampleKafka exampleHandlers [''paid''] [] [''pay''] [] [''paid''] [] =
      (take 3 (fst exampleStart) @ drop 3 (fst exampleStart), None)"
    using st by (simp add: exampleStart_def)
  obtain topics ls where "steps = [VerifyDial, NewProducer, VerifyTopics topics] @ ls"
    using k_Start_ok [OF exampleHandlers_orders exampleHandlers_orders(1,2) st [unfolded exampleStart_def]] by blast
  then have "PublishState \<notin> set (take 3 (fst exampleStart))" by (simp add: st)
  then show ?thesis using kafka_ready_gate [OF eq refl, of "\<lambda>_. Inr ''x''"] by (metis append_take_drop_id)
qed

text \<open>Telemetry accounts for what happened. For an event or command that could be decoded, every call of the
  handler has its own span, closed before the next one opens and carrying the error of a failing
  call; the consumed counter grows by the number of calls and the error counter by the number of
  failing ones, which is all of them when the message was dead-lettered and all but the last one when
  the last call succeeded. Publishing an event or command opens at most one span and counts an emitted
  message exactly when it succeeds.\<close>

theorem kafka_telemetry_accounts:
  assumes ob: "ob = resolveObservability nt nm cfg"
    and contract: "deliveryContract cfg (\<lambda>i. invoke i = None) ended dead ok acts"
    and tel: "tel = observeMessage ob topic kind invoke acts"
  shows "spansOk False tel \<and> counter (ob_messagesConsumed ob) tel = length (invokes acts) \<and>
    (KDlq dead \<in> set acts \<longrightarrow> counter (ob_handlerErrors ob) tel = attemptsOf cfg \<and> counter (ob_messagesConsumed ob) tel = attemptsOf cfg) \<and>
    (invokes acts \<noteq> [] \<and> invoke (length (invokes acts) - 1) = None \<longrightarrow>
       counter (ob_handlerErrors ob) tel = length (invokes acts) - 1 \<and> KCommit \<in> set acts) \<and>
    (\<forall>marshal wr order uuid ev. let r = k_Emit marshal (publish wr order) cfg uuid ev in
       spansOk False (observePublish ob ''event'' r) \<and>
       counter (ob_messagesEmitted ob) (observePublish ob ''event'' r) = (if fst r = None then 1 else 0)) \<and>
    (\<forall>marshal wr order g cmd target. let r = k_SendCommand marshal (publish wr order) g cmd target in
       spansOk False (observePublish ob ''command'' r) \<and>
       counter (ob_messagesEmitted ob) (observePublish ob ''command'' r) = (if fst r = None then 1 else 0))"
proof -
  have spans: "spansOk False tel" unfolding tel observeMessage_def by (rule spansOk_concat) (auto simp: observeInvoke_spans)
  have consumed: "counter (ob_messagesConsumed ob) tel = length (invokes acts)" unfolding tel by (rule observeMessage_counts(1) [OF ob])
  have errors: "counter (ob_handlerErrors ob) tel =
      length (invokes acts) - (if invokes acts \<noteq> [] \<and> invoke (length (invokes acts) - 1) = None then 1 else 0)"
    unfolding tel using observeMessage_counts(2) [OF ob] contract_failures [OF contract] by simp
  have dead: "length (invokes acts) = attemptsOf cfg \<and> invoke (attemptsOf cfg - 1) \<noteq> None" if d: "KDlq dead \<in> set acts"
  proof -
    let ?k = "length (invokes acts)" and ?N = "attemptsOf cfg"
    have all: "invoke i \<noteq> None \<and> \<not> ended i" if "i < ?N" for i
      using contract d that unfolding deliveryContract_def Let_def by auto
    have "?k \<le> ?N" and more: "?k < ?N \<and> \<not> (0 < ?k \<and> invoke (?k - 1) = None) \<Longrightarrow> ended ?k"
      using contract unfolding deliveryContract_def Let_def by auto
    moreover have "\<not> ?k < ?N" using more all [of ?k] all [of "?k - 1"] by auto
    ultimately show ?thesis using all [of "?N - 1"] by simp
  qed
  have commit: "KCommit \<in> set acts" if "invokes acts \<noteq> []" "invoke (length (invokes acts) - 1) = None"
    using that contract unfolding deliveryContract_def Let_def by auto
  have once: "counter (ob_messagesEmitted ob) (observePublish ob k r) = (if fst r = None then 1 else 0)"
    if one: "fst r = None \<longrightarrow> length (snd r) = 1" for k and r :: kpublished
  proof (cases "fst r")
    case None
    then obtain m where "snd r = [m]" using one by (cases "snd r") auto
    then show ?thesis using None by (simp add: observePublish_def startProduceSpan_def endSpan_def)
  next
    case (Some e)
    then show ?thesis by (simp add: observePublish_def counter_concat startProduceSpan_def endSpan_def comp_def)
  qed
  have emit: "fst (k_Emit marshal (publish wr order) cfg uuid ev) = None \<longrightarrow> length (snd (k_Emit marshal (publish wr order) cfg uuid ev)) = 1"
    for marshal wr order uuid and ev :: "'f DomainEvent"
    by (auto simp: k_Emit_def publish_def Let_def split: sum.splits if_splits)
  have send: "fst (k_SendCommand marshal (publish wr order) g cmd target) = None \<longrightarrow> length (snd (k_SendCommand marshal (publish wr order) g cmd target)) = 1"
    for marshal wr order g target and cmd :: "'g Command"
    by (auto simp: k_SendCommand_def publish_def Let_def split: sum.splits if_splits)
  show ?thesis
    unfolding Let_def once [OF emit] once [OF send] using spans consumed errors dead commit observePublish_spans by auto
qed

theorem kafka_telemetry_accounts_witness:
  "let tel = observeMessage (resolveObservability 1 2 exampleKafka) ''app.commands'' ''command''
      (\<lambda>i. if i = 0 then Some (ErrOther ''boom'') else None)
      (deliver (exampleRound 0 (\<lambda>_. None)) exampleKafka ''app.commands'' (\<lambda>i. if i = 0 then Some (ErrOther ''boom'') else None) exampleMessage)
   in spansOk False tel \<and> counter ''reactive_commons_kafka_messages_consumed'' tel = 2 \<and> counter ''reactive_commons_kafka_handler_errors'' tel = 1"
proof -
  let ?r = "exampleRound 0 (\<lambda>_. None)" and ?inv = "\<lambda>i::nat. if i = 0 then Some (ErrOther ''boom'') else None"
  let ?acts = "deliver ?r exampleKafka ''app.commands'' ?inv exampleMessage" and ?ob = "resolveObservability 1 2 exampleKafka"
  have d: "0 < kc_RetryInitialDelay exampleKafka" "kc_RetryInitialDelay exampleKafka < 2 ^ 63" "kc_RetryMaxDelay exampleKafka < 2 ^ 63"
    using exampleKafka_usable by (auto simp: usable_def)
  have f: "find (stopsAt (r_ctxDone ?r) ?inv) [0..<attemptsOf exampleKafka] = Some 1"
    by (simp add: attemptsOf_def exampleKafka_def k_NewConfigWithDefaults_def stopsAt_def exampleRound_def upt_conv_Cons)
  then have inv: "invokes ?acts = [0, 1]" by (simp add: deliver_eq Let_def exampleRound_def)
  have names: "ob_messagesConsumed ?ob = ''reactive_commons_kafka_messages_consumed''" "ob_handlerErrors ?ob = ''reactive_commons_kafka_handler_errors''"
    by (simp_all add: resolveObservability_def)
  let ?tel = "observeMessage ?ob ''app.commands'' ''command'' ?inv ?acts"
  have "spansOk False ?tel" "counter (ob_messagesConsumed ?ob) ?tel = 2" "counter (ob_handlerErrors ?ob) ?tel = 1"
    using kafka_telemetry_accounts [OF refl deliver_contract [OF d, of ?inv ?r "''app.commands''" exampleMessage] refl,
        of 1 2 "''app.commands''" "''command''"] inv
    by auto
  then show ?thesis unfolding Let_def names by blast
qed

end
