(* ===== verification/Kafka_Runtime.thy ===== *)
theory Kafka_Runtime
  imports Kafka_App
begin

text \<open>
  A Kafka application at run time: the five listeners as the structs of \<^verbatim>\<open>internal/kafka\<close> with their
  constructors, \<^verbatim>\<open>open\<close>, \<^verbatim>\<open>close\<close> and \<^verbatim>\<open>run\<close> methods, and the goroutines that \<^verbatim>\<open>spawnListeners\<close> starts, interleaved
  with each other, with the cancellation of the context and with \<^verbatim>\<open>shutdown\<close>.
\<close>

section \<open>Listeners\<close>

text \<open>
  The registry of an application. The loggers and the telemetry handles of the structs are left out; the
  dead letters of a listener go through its own configuration and the application's producer.
\<close>

type_synonym ('d, 'r) appRegistry =
  "(('d kdata DomainEvent, unit) khandler, ('d kdata Notification, unit) khandler, (bytes Command, unit) khandler, 'r kqueryHandler) kafkaRegistry"

record 'd eventListener =
  el_cfg :: KafkaConfig
  el_name :: gostring
  el_topic :: gostring
  el_groupID :: gostring
  el_handler :: "('d kdata DomainEvent, unit) khandler"
  el_reader :: "ReaderConfig option"

record 'd notificationListener =
  nl_cfg :: KafkaConfig
  nl_name :: gostring
  nl_topic :: gostring
  nl_groupID :: gostring
  nl_handler :: "('d kdata Notification, unit) khandler"
  nl_reader :: "ReaderConfig option"

record ('d, 'r) commandListener =
  cl_cfg :: KafkaConfig
  cl_topic :: gostring
  cl_groupID :: gostring
  cl_reg :: "('d, 'r) appRegistry"
  cl_reader :: "ReaderConfig option"

record ('d, 'r) queryListener =
  ql_cfg :: KafkaConfig
  ql_topic :: gostring
  ql_groupID :: gostring
  ql_reg :: "('d, 'r) appRegistry"
  ql_reader :: "ReaderConfig option"

record replyListener =
  rl_cfg :: KafkaConfig
  rl_topic :: gostring
  rl_groupID :: gostring
  rl_primeNum :: int
  rl_reader :: "ReaderConfig option"

definition k_newEventListener :: "KafkaConfig \<Rightarrow> gostring \<Rightarrow> ('d kdata DomainEvent, unit) khandler \<Rightarrow> 'd eventListener" where
  "k_newEventListener cfg name handler = \<lparr>el_cfg = cfg, el_name = name, el_topic = topicForEvent cfg name,
     el_groupID = groupIDForEvent cfg name, el_handler = handler, el_reader = None\<rparr>"

definition k_newNotificationListener :: "KafkaConfig \<Rightarrow> gostring \<Rightarrow> ('d kdata Notification, unit) khandler \<Rightarrow> 'd notificationListener" where
  "k_newNotificationListener cfg name handler = \<lparr>nl_cfg = cfg, nl_name = name, nl_topic = topicForNotification cfg name,
     nl_groupID = groupIDForNotification cfg name (kc_InstanceID cfg), nl_handler = handler, nl_reader = None\<rparr>"

definition k_newCommandListener :: "KafkaConfig \<Rightarrow> ('d, 'r) appRegistry \<Rightarrow> ('d, 'r) commandListener" where
  "k_newCommandListener cfg reg = \<lparr>cl_cfg = cfg, cl_topic = topicForCommand cfg (kc_AppName cfg), cl_groupID = groupIDForCommand cfg,
     cl_reg = reg, cl_reader = None\<rparr>"

definition k_newQueryListener :: "KafkaConfig \<Rightarrow> ('d, 'r) appRegistry \<Rightarrow> ('d, 'r) queryListener" where
  "k_newQueryListener cfg reg = \<lparr>ql_cfg = cfg, ql_topic = topicForQuery cfg (kc_AppName cfg), ql_groupID = groupIDForQuery cfg,
     ql_reg = reg, ql_reader = None\<rparr>"

definition k_newReplyListener :: "KafkaConfig \<Rightarrow> int \<Rightarrow> replyListener" where
  "k_newReplyListener cfg partitions = \<lparr>rl_cfg = cfg, rl_topic = topicForReply cfg, rl_groupID = groupIDForReply cfg,
     rl_primeNum = primeNum partitions, rl_reader = None\<rparr>"

text \<open>The \<^verbatim>\<open>open\<close> methods. The readers are those of the application theory (\<open>wired\<close> below).\<close>

definition openEvent :: "'d eventListener \<Rightarrow> 'd eventListener" where
  "openEvent l = l\<lparr>el_reader := Some (readerBase (el_cfg l) (el_groupID l) (el_topic l))\<rparr>"

definition openCommand :: "('d, 'r) commandListener \<Rightarrow> ('d, 'r) commandListener" where
  "openCommand l = l\<lparr>cl_reader := Some (readerBase (cl_cfg l) (cl_groupID l) (cl_topic l))\<rparr>"

definition openQuery :: "('d, 'r) queryListener \<Rightarrow> ('d, 'r) queryListener" where
  "openQuery l = l\<lparr>ql_reader := Some (readerBase (ql_cfg l) (ql_groupID l) (ql_topic l))\<rparr>"

definition openNotification :: "'d notificationListener \<Rightarrow> 'd notificationListener" where
  "openNotification l = l\<lparr>nl_reader := Some ((readerBase (nl_cfg l) (nl_groupID l) (nl_topic l))
     \<lparr>rd_StartLast := True, rd_CommitInterval := goSecond\<rparr>)\<rparr>"

definition openReply :: "replyListener \<Rightarrow> replyListener" where
  "openReply l = l\<lparr>rl_reader := Some ((readerBase (rl_cfg l) (rl_groupID l) (rl_topic l))
     \<lparr>rd_StartLast := True, rd_CommitInterval := goSecond\<rparr>)\<rparr>"

text \<open>The codecs of the application, and the visiting order of the command map.\<close>

record ('d, 'r) codec =
  co_unmarshal :: kunmarshal
  co_decode :: "bytes \<Rightarrow> gostring + 'd"
  co_marshal :: "'r kmarshal"
  co_marshalError :: "gostring kmarshal"
  co_commandOrder :: "gostring list"

datatype fetchCall = FetchMessage | ReadMessage

text \<open>The \<^verbatim>\<open>consumerLoop\<close> value that a \<^verbatim>\<open>run\<close> method fills in.\<close>

record 'a loopValue =
  lo_kind :: gostring
  lo_topic :: gostring
  lo_fetch :: fetchCall
  lo_handle :: "round \<Rightarrow> kmessage \<Rightarrow> 'a"

definition eventRun :: "('d, 'r) codec \<Rightarrow> 'd eventListener \<Rightarrow> kaction list loopValue" where
  "eventRun co l = \<lparr>lo_kind = ''event'', lo_topic = el_topic l, lo_fetch = FetchMessage,
     lo_handle = eventProcess (co_unmarshal co) (co_decode co) (el_cfg l) (el_topic l) (el_handler l)\<rparr>"

definition commandRun :: "('d, 'r) codec \<Rightarrow> ('d, 'r) commandListener \<Rightarrow> kaction list loopValue" where
  "commandRun co l = \<lparr>lo_kind = ''command'', lo_topic = cl_topic l, lo_fetch = FetchMessage,
     lo_handle = commandProcess (co_unmarshal co) (cl_cfg l) (cl_topic l) (cl_reg l) (co_commandOrder co)\<rparr>"

definition queryRun :: "('d, 'r) codec \<Rightarrow> ('d, 'r) queryListener \<Rightarrow> kaction list loopValue" where
  "queryRun co l = \<lparr>lo_kind = ''query'', lo_topic = ql_topic l, lo_fetch = FetchMessage,
     lo_handle = queryProcess (co_unmarshal co) (co_marshal co) (co_marshalError co) (ql_cfg l) (ql_reg l)\<rparr>"

definition notificationRun :: "('d, 'r) codec \<Rightarrow> 'd notificationListener \<Rightarrow> kaction list loopValue" where
  "notificationRun co l = \<lparr>lo_kind = ''notification'', lo_topic = nl_topic l, lo_fetch = ReadMessage,
     lo_handle = (\<lambda>r m. map (\<lambda>(i, err). KInvoke i) (notificationProcess (co_unmarshal co) (co_decode co) (nl_handler l) r m))\<rparr>"

text \<open>The reply listener only hands replies to the router.\<close>

definition replyRun :: "replyListener \<Rightarrow> (routerSys \<Rightarrow> routerSys) loopValue" where
  "replyRun l = \<lparr>lo_kind = ''reply'', lo_topic = rl_topic l, lo_fetch = ReadMessage, lo_handle = (\<lambda>r m. k_route m)\<rparr>"

datatype ('d, 'r) listener =
    EventListener "'d eventListener"
  | NotificationListener "'d notificationListener"
  | CommandListener "('d, 'r) commandListener"
  | QueryListener "('d, 'r) queryListener"
  | ReplyListener replyListener

fun readerField :: "('d, 'r) listener \<Rightarrow> ReaderConfig option" where
  "readerField (EventListener l) = el_reader l"
| "readerField (NotificationListener l) = nl_reader l"
| "readerField (CommandListener l) = cl_reader l"
| "readerField (QueryListener l) = ql_reader l"
| "readerField (ReplyListener l) = rl_reader l"

text \<open>\<^verbatim>\<open>close\<close>, on a pointer that may be nil; \<open>answer\<close> is that of the reader's own \<^verbatim>\<open>Close\<close>.\<close>

definition closeListener :: "('d, 'r) listener option \<Rightarrow> goerror option \<Rightarrow> goerror option" where
  "closeListener l answer =
     (case l of None \<Rightarrow> None | Some l' \<Rightarrow> (case readerField l' of None \<Rightarrow> None | Some rd \<Rightarrow> answer))"

fun fetchOf :: "('d, 'r) codec \<Rightarrow> ('d, 'r) listener \<Rightarrow> fetchCall" where
  "fetchOf co (EventListener l) = lo_fetch (eventRun co l)"
| "fetchOf co (NotificationListener l) = lo_fetch (notificationRun co l)"
| "fetchOf co (CommandListener l) = lo_fetch (commandRun co l)"
| "fetchOf co (QueryListener l) = lo_fetch (queryRun co l)"
| "fetchOf co (ReplyListener l) = lo_fetch (replyRun l)"

text \<open>What a listener does with a message, apart from routing replies.\<close>

fun handleOf :: "('d, 'r) codec \<Rightarrow> ('d, 'r) listener \<Rightarrow> round \<Rightarrow> kmessage \<Rightarrow> kaction list" where
  "handleOf co (EventListener l) = lo_handle (eventRun co l)"
| "handleOf co (NotificationListener l) = lo_handle (notificationRun co l)"
| "handleOf co (CommandListener l) = lo_handle (commandRun co l)"
| "handleOf co (QueryListener l) = lo_handle (queryRun co l)"
| "handleOf co (ReplyListener l) = (\<lambda>r m. [])"

text \<open>The listeners that \<^verbatim>\<open>Start\<close> makes and opens, in the order they are spawned.\<close>

definition makeListeners :: "KafkaConfig \<Rightarrow> ('d, 'r) appRegistry \<Rightarrow> gostring list \<Rightarrow> gostring list \<Rightarrow> bool \<Rightarrow> bool \<Rightarrow> int \<Rightarrow> ('d, 'r) listener list" where
  "makeListeners cfg reg events notifs hasCommands hasQueries partitions =
     concat (map (\<lambda>n. case k_eventHandlers reg n of None \<Rightarrow> [] | Some h \<Rightarrow> [EventListener (openEvent (k_newEventListener cfg n h))]) events) @
     concat (map (\<lambda>n. case k_notificationHandlers reg n of None \<Rightarrow> []
       | Some h \<Rightarrow> [NotificationListener (openNotification (k_newNotificationListener cfg n h))]) notifs) @
     (if hasCommands then [CommandListener (openCommand (k_newCommandListener cfg reg))] else []) @
     (if hasQueries then [QueryListener (openQuery (k_newQueryListener cfg reg))] else []) @
     (if kc_DisableReplyListener cfg then [] else [ReplyListener (openReply (k_newReplyListener cfg partitions))])"

text \<open>A listener as the application theory sees it.\<close>

fun outline :: "('d, 'r) listener \<Rightarrow> klistener" where
  "outline (EventListener l) = EventL (el_name l) (the (el_reader l))"
| "outline (NotificationListener l) = NotificationL (nl_name l) (the (nl_reader l))"
| "outline (CommandListener l) = CommandL (the (cl_reader l))"
| "outline (QueryListener l) = QueryL (the (ql_reader l))"
| "outline (ReplyListener l) = ReplyL (the (rl_reader l))"

lemma wired:
  fixes reg :: "('a, 'b) appRegistry"
  assumes "set events \<subseteq> dom (k_eventHandlers reg)" and "set notifs \<subseteq> dom (k_notificationHandlers reg)"
  shows "map outline (makeListeners cfg reg events notifs c q n) = spawnListeners cfg events notifs c q"
proof -
  have "map outline (concat (map (\<lambda>n. case k_eventHandlers reg n of None \<Rightarrow> []
      | Some h \<Rightarrow> [EventListener (openEvent (k_newEventListener cfg n h)) :: ('a, 'b) listener]) events)) = map (\<lambda>n. EventL n (eventReader cfg n)) events"
    using assms(1) by (induction events) (auto simp: openEvent_def k_newEventListener_def eventReader_def split: option.splits)
  moreover have "map outline (concat (map (\<lambda>n. case k_notificationHandlers reg n of None \<Rightarrow> []
      | Some h \<Rightarrow> [NotificationListener (openNotification (k_newNotificationListener cfg n h)) :: ('a, 'b) listener]) notifs)) =
      map (\<lambda>n. NotificationL n (notificationReader cfg n)) notifs"
    using assms(2) by (induction notifs) (auto simp: openNotification_def k_newNotificationListener_def notificationReader_def split: option.splits)
  ultimately show ?thesis
    by (simp add: makeListeners_def spawnListeners_def openCommand_def k_newCommandListener_def commandReader_def
        openQuery_def k_newQueryListener_def queryReader_def openReply_def k_newReplyListener_def replyReader_def)
qed

section \<open>The running application\<close>

text \<open>
  The goroutine of a listener: waiting for the reply topic to be primed, fetching, in the handler with
  what is left to do for a message, pausing after a failed fetch, or returned. The main goroutine: in
  \<^verbatim>\<open><-ctx.Done()\<close>, in the select of \<^verbatim>\<open>shutdown\<close>, closing the readers from the \<open>i\<close>-th on, or returned.
\<close>

datatype gpc = GPrime | GFetch | GHandle "kaction list" | GPause goerror | GDone
datatype mpc = MWait | MDrain | MClose nat | MDone

text \<open>
  Goroutines are numbered in the order they are spawned. \<open>ru_fetches\<close> and \<open>ru_log\<close> record what a
  goroutine fetched and did, \<open>ru_steps\<close> the steps of the main goroutine; \<open>ru_late\<close> says whether a commit
  was asked of a closed reader or a message was written to the closed producer.
\<close>

record krun =
  ru_ctx :: bool
  ru_pc :: "nat \<Rightarrow> gpc"
  ru_fetches :: "nat \<Rightarrow> fetched list"
  ru_log :: "nat \<Rightarrow> kaction list"
  ru_main :: mpc
  ru_steps :: "kstep list"
  ru_timedOut :: bool
  ru_closed :: "nat set"
  ru_producerOpen :: bool
  ru_late :: bool

text \<open>
  The events. The environment of a round, results of its writes included, is fixed when its message is
  fetched; a closed reader gives no more messages. The bound of the drain can pass at any time after
  the context has ended.
\<close>

datatype kevent =
    ECancel
  | EPrimed nat
  | EFetch nat round kmessage
  | EFetchFailed nat goerror
  | EPauseOver nat
  | EPauseCancelled nat
  | EAct nat
  | EHandled nat
  | EShutdown
  | EDrained
  | EDrainTimeout
  | ECloseReader
  | ECloseProducer

definition lateFor :: "krun \<Rightarrow> nat \<Rightarrow> kaction \<Rightarrow> bool" where
  "lateFor s i a = (case a of KCommit \<Rightarrow> i \<in> ru_closed s | KDlq m \<Rightarrow> \<not> ru_producerOpen s | KReply m \<Rightarrow> \<not> ru_producerOpen s | _ \<Rightarrow> False)"

definition goto :: "nat \<Rightarrow> gpc \<Rightarrow> krun \<Rightarrow> krun" where
  "goto i p s = s\<lparr>ru_pc := (ru_pc s)(i := p)\<rparr>"

definition fetchedBy :: "nat \<Rightarrow> fetched \<Rightarrow> krun \<Rightarrow> krun" where
  "fetchedBy i f s = s\<lparr>ru_fetches := (ru_fetches s)(i := ru_fetches s i @ [f])\<rparr>"

definition mainStep :: "mpc \<Rightarrow> kstep list \<Rightarrow> krun \<Rightarrow> krun" where
  "mainStep p sts s = s\<lparr>ru_main := p, ru_steps := ru_steps s @ sts\<rparr>"

fun kfire :: "('d, 'r) codec \<Rightarrow> KafkaConfig \<Rightarrow> ('d, 'r) listener list \<Rightarrow> kevent \<Rightarrow> krun \<Rightarrow> krun option" where
  "kfire co cfg ls ECancel s = Some (s\<lparr>ru_ctx := True\<rparr>)"
| "kfire co cfg ls (EPrimed i) s = (if i < length ls \<and> ru_pc s i = GPrime then Some (goto i GFetch s) else None)"
| "kfire co cfg ls (EFetch i r m) s =
     (if i < length ls \<and> ru_pc s i = GFetch \<and> i \<notin> ru_closed s
      then Some (goto i (GHandle (handleOf co (ls ! i) r m)) (fetchedBy i (Fetched r m) s)) else None)"
| "kfire co cfg ls (EFetchFailed i e) s =
     (if i < length ls \<and> ru_pc s i = GFetch
      then if isCtxError e \<or> ru_ctx s then Some (goto i GDone (fetchedBy i (FetchFailed e (ru_ctx s) False) s))
           else Some (goto i (GPause e) s)
      else None)"
| "kfire co cfg ls (EPauseOver i) s =
     (if i < length ls then (case ru_pc s i of GPause e \<Rightarrow> Some (goto i GFetch (fetchedBy i (FetchFailed e False False) s)) | _ \<Rightarrow> None) else None)"
| "kfire co cfg ls (EPauseCancelled i) s =
     (if i < length ls \<and> ru_ctx s
      then (case ru_pc s i of GPause e \<Rightarrow> Some (goto i GDone (fetchedBy i (FetchFailed e False True) s)) | _ \<Rightarrow> None) else None)"
| "kfire co cfg ls (EAct i) s =
     (if i < length ls
      then (case ru_pc s i of
              GHandle (a # as) \<Rightarrow> Some (goto i (GHandle as) (s\<lparr>ru_log := (ru_log s)(i := ru_log s i @ [a]), ru_late := ru_late s \<or> lateFor s i a\<rparr>))
            | _ \<Rightarrow> None) else None)"
| "kfire co cfg ls (EHandled i) s = (if i < length ls \<and> ru_pc s i = GHandle [] then Some (goto i GFetch s) else None)"
| "kfire co cfg ls EShutdown s = (if ru_main s = MWait \<and> ru_ctx s then Some (mainStep MDrain [WaitCtx] s) else None)"
| "kfire co cfg ls EDrained s =
     (if ru_main s = MDrain \<and> list_all (\<lambda>i. ru_pc s i = GDone) [0..<length ls]
      then Some (mainStep (MClose 0) [Drain (drainTimeout cfg)] s) else None)"
| "kfire co cfg ls EDrainTimeout s =
     (if ru_main s = MDrain then Some (mainStep (MClose 0) [Drain (drainTimeout cfg)] (s\<lparr>ru_timedOut := True\<rparr>)) else None)"
| "kfire co cfg ls ECloseReader s =
     (case ru_main s of
        MClose i \<Rightarrow> (if i < length ls then Some (mainStep (MClose (Suc i)) [CloseReader (outline (ls ! i))] (s\<lparr>ru_closed := insert i (ru_closed s)\<rparr>)) else None)
      | _ \<Rightarrow> None)"
| "kfire co cfg ls ECloseProducer s =
     (if ru_main s = MClose (length ls) then Some (mainStep MDone [CloseProducer] (s\<lparr>ru_producerOpen := False\<rparr>)) else None)"

definition kstepRel :: "('d, 'r) codec \<Rightarrow> KafkaConfig \<Rightarrow> ('d, 'r) listener list \<Rightarrow> krun \<Rightarrow> krun \<Rightarrow> bool" where
  "kstepRel co cfg ls s t \<longleftrightarrow> (\<exists>e. kfire co cfg ls e s = Some t)"

text \<open>Just after the goroutines were spawned; the context may have ended already.\<close>

definition spawned :: "('d, 'r) listener list \<Rightarrow> krun \<Rightarrow> bool" where
  "spawned ls s \<longleftrightarrow>
     (\<forall>i < length ls. ru_pc s i = (case ls ! i of ReplyListener l \<Rightarrow> GPrime | _ \<Rightarrow> GFetch)) \<and>
     (\<forall>i. ru_fetches s i = [] \<and> ru_log s i = []) \<and> ru_main s = MWait \<and> ru_steps s = [] \<and> \<not> ru_timedOut s \<and>
     ru_closed s = {} \<and> ru_producerOpen s \<and> \<not> ru_late s"

section \<open>Invariants\<close>

text \<open>The effects of a run of the loop, and fetches after which the loop goes on.\<close>

definition effectsOf :: "kaction list loopEvent list \<Rightarrow> kaction list" where
  "effectsOf es = concat (map (\<lambda>e. case e of LHandled r m acts \<Rightarrow> acts | LPause d \<Rightarrow> []) es)"

fun goesOn :: "fetched \<Rightarrow> bool" where
  "goesOn (Fetched r m) = True"
| "goesOn (FetchFailed e ctxErr ctxDone) = (\<not> isCtxError e \<and> \<not> ctxErr \<and> \<not> ctxDone)"

lemma consumerLoop_append:
  "list_all goesOn fs \<Longrightarrow> consumerLoop h (fs @ gs) = consumerLoop h fs @ consumerLoop h gs"
proof (induction fs)
  case (Cons f fs)
  then show ?case by (cases f) auto
qed simp

lemma effectsOf_append [simp]: "effectsOf (as @ bs) = effectsOf as @ effectsOf bs"
  by (simp add: effectsOf_def)

lemma effectsOf_simps [simp]: "effectsOf [] = []" "effectsOf (LHandled r m acts # es) = acts @ effectsOf es" "effectsOf (LPause d # es) = effectsOf es"
  by (simp_all add: effectsOf_def)

fun leftover :: "gpc \<Rightarrow> kaction list" where
  "leftover (GHandle as) = as"
| "leftover _ = []"

text \<open>A goroutine has done what the loop does with its fetches, up to what is left of the current message.\<close>

definition doneSoFar :: "(round \<Rightarrow> kmessage \<Rightarrow> kaction list) \<Rightarrow> gpc \<Rightarrow> fetched list \<Rightarrow> kaction list \<Rightarrow> bool" where
  "doneSoFar h p fs lg \<longleftrightarrow> lg @ leftover p = effectsOf (consumerLoop h fs) \<and> (p \<noteq> GDone \<longrightarrow> list_all goesOn fs) \<and>
     (\<forall>e. p = GPause e \<longrightarrow> \<not> isCtxError e)"

lemma doneSoFar_steps:
  "doneSoFar h GPrime fs lg \<Longrightarrow> doneSoFar h GFetch fs lg"
  "doneSoFar h GFetch fs lg \<Longrightarrow> doneSoFar h (GHandle (h r m)) (fs @ [Fetched r m]) lg"
  "doneSoFar h GFetch fs lg \<Longrightarrow> isCtxError e \<or> b \<Longrightarrow> doneSoFar h GDone (fs @ [FetchFailed e b False]) lg"
  "doneSoFar h GFetch fs lg \<Longrightarrow> \<not> isCtxError e \<Longrightarrow> doneSoFar h (GPause e) fs lg"
  "doneSoFar h (GPause e) fs lg \<Longrightarrow> doneSoFar h GFetch (fs @ [FetchFailed e False False]) lg"
  "doneSoFar h (GPause e) fs lg \<Longrightarrow> doneSoFar h GDone (fs @ [FetchFailed e False True]) lg"
  "doneSoFar h (GHandle (a # as)) fs lg \<Longrightarrow> doneSoFar h (GHandle as) fs (lg @ [a])"
  "doneSoFar h (GHandle []) fs lg \<Longrightarrow> doneSoFar h GFetch fs lg"
  by (auto simp: doneSoFar_def consumerLoop_append)

definition follows :: "('d, 'r) codec \<Rightarrow> ('d, 'r) listener list \<Rightarrow> krun \<Rightarrow> bool" where
  "follows co ls s \<longleftrightarrow> (\<forall>i < length ls. doneSoFar (handleOf co (ls ! i)) (ru_pc s i) (ru_fetches s i) (ru_log s i))"

lemma follows_init: "spawned ls s \<Longrightarrow> follows co ls s"
  by (auto simp: spawned_def follows_def doneSoFar_def split: listener.split)

lemmas machine_simps = goto_def fetchedBy_def mainStep_def

lemma follows_step:
  assumes "follows co ls s" and "kfire co cfg ls e s = Some t"
  shows "follows co ls t"
proof -
  have old: "doneSoFar (handleOf co (ls ! i)) (ru_pc s i) (ru_fetches s i) (ru_log s i)" if "i < length ls" for i
    using assms(1) that by (simp add: follows_def)
  have "doneSoFar (handleOf co (ls ! i)) (ru_pc t i) (ru_fetches t i) (ru_log t i)" if i: "i < length ls" for i
  proof (cases e)
    case (EPrimed j)
    then show ?thesis using assms(2) old [OF i] by (auto simp: machine_simps doneSoFar_steps(1) split: if_splits)
  next
    case (EFetch j r m)
    then show ?thesis using assms(2) old [OF i] by (auto simp: machine_simps doneSoFar_steps(2) split: if_splits)
  next
    case (EFetchFailed j e')
    then show ?thesis using assms(2) old [OF i] by (auto simp: machine_simps doneSoFar_steps(3,4) split: if_splits)
  next
    case (EPauseOver j)
    then show ?thesis using assms(2) old [OF i] by (auto simp: machine_simps doneSoFar_steps(5) split: if_splits gpc.splits)
  next
    case (EPauseCancelled j)
    then show ?thesis using assms(2) old [OF i] by (auto simp: machine_simps doneSoFar_steps(6) split: if_splits gpc.splits)
  next
    case (EAct j)
    then show ?thesis using assms(2) old [OF i] by (auto simp: machine_simps doneSoFar_steps(7) split: if_splits gpc.splits list.splits)
  next
    case (EHandled j)
    then show ?thesis using assms(2) old [OF i] by (auto simp: machine_simps doneSoFar_steps(8) split: if_splits)
  qed (use assms(2) old [OF i] in \<open>auto simp: machine_simps split: if_splits mpc.splits\<close>)
  then show ?thesis by (simp add: follows_def)
qed

text \<open>The phases of shutdown: the steps made so far, the resources closed, and who is still at work.\<close>

fun stepsAt :: "KafkaConfig \<Rightarrow> klistener list \<Rightarrow> mpc \<Rightarrow> kstep list" where
  "stepsAt cfg ls MWait = []"
| "stepsAt cfg ls MDrain = [WaitCtx]"
| "stepsAt cfg ls (MClose i) = WaitCtx # Drain (drainTimeout cfg) # map CloseReader (take i ls)"
| "stepsAt cfg ls MDone = WaitCtx # k_shutdown cfg ls"

definition phaseOk :: "KafkaConfig \<Rightarrow> ('d, 'r) listener list \<Rightarrow> krun \<Rightarrow> bool" where
  "phaseOk cfg ls s \<longleftrightarrow>
     ru_steps s = stepsAt cfg (map outline ls) (ru_main s) \<and>
     ru_closed s = (case ru_main s of MClose i \<Rightarrow> {..<i} | MDone \<Rightarrow> {..<length ls} | _ \<Rightarrow> {}) \<and>
     (ru_producerOpen s \<longleftrightarrow> ru_main s \<noteq> MDone) \<and>
     (case ru_main s of MClose i \<Rightarrow> i \<le> length ls | _ \<Rightarrow> True) \<and>
     (ru_main s \<noteq> MWait \<longrightarrow> ru_ctx s) \<and>
     (ru_timedOut s \<longrightarrow> ru_main s \<notin> {MWait, MDrain})"

definition drainedOk :: "('d, 'r) listener list \<Rightarrow> krun \<Rightarrow> bool" where
  "drainedOk ls s \<longleftrightarrow> \<not> ru_timedOut s \<longrightarrow>
     (ru_main s \<notin> {MWait, MDrain} \<longrightarrow> (\<forall>i < length ls. ru_pc s i = GDone)) \<and> \<not> ru_late s"

lemma phase_init: "spawned ls s \<Longrightarrow> phaseOk cfg ls s \<and> drainedOk ls s"
  by (simp add: spawned_def phaseOk_def drainedOk_def)

fun byMain :: "kevent \<Rightarrow> bool" where
  "byMain EShutdown = True"
| "byMain EDrained = True"
| "byMain EDrainTimeout = True"
| "byMain ECloseReader = True"
| "byMain ECloseProducer = True"
| "byMain _ = False"

lemma worker_frame:
  assumes "kfire co cfg ls e s = Some t" and "\<not> byMain e"
  shows "ru_main t = ru_main s" "ru_steps t = ru_steps s" "ru_closed t = ru_closed s" "ru_producerOpen t = ru_producerOpen s"
    "ru_timedOut t = ru_timedOut s" "ru_ctx s \<Longrightarrow> ru_ctx t"
  using assms by (cases e; force simp: goto_def fetchedBy_def split: if_splits gpc.splits list.splits)+

text \<open>The steps of the main goroutine.\<close>

lemma main_cases:
  assumes "kfire co cfg ls e s = Some t" and "byMain e"
  obtains (Shutdown) "ru_main s = MWait" "ru_ctx s" "t = mainStep MDrain [WaitCtx] s"
  | (Drained) "ru_main s = MDrain" "\<forall>i < length ls. ru_pc s i = GDone" "t = mainStep (MClose 0) [Drain (drainTimeout cfg)] s"
  | (Timeout) "ru_main s = MDrain" "t = mainStep (MClose 0) [Drain (drainTimeout cfg)] (s\<lparr>ru_timedOut := True\<rparr>)"
  | (Close) i where "ru_main s = MClose i" "i < length ls"
      "t = mainStep (MClose (Suc i)) [CloseReader (outline (ls ! i))] (s\<lparr>ru_closed := insert i (ru_closed s)\<rparr>)"
  | (Producer) "ru_main s = MClose (length ls)" "t = mainStep MDone [CloseProducer] (s\<lparr>ru_producerOpen := False\<rparr>)"
  using assms by (cases e) (auto simp: list_all_iff split: if_splits mpc.splits)

lemma phase_step:
  assumes "phaseOk cfg ls s" and "kfire co cfg ls e s = Some t"
  shows "phaseOk cfg ls t"
proof (cases "byMain e")
  case False
  from assms(1) worker_frame [OF assms(2) this] show ?thesis by (auto simp: phaseOk_def)
next
  case True
  have "{..<Suc i} = insert i {..<i}" for i :: nat by auto
  with assms(2) True show ?thesis
    by (cases rule: main_cases) (use assms(1) in \<open>simp_all add: phaseOk_def mainStep_def take_Suc_conv_app_nth k_shutdown_def\<close>)
qed

lemma worker_done:
  assumes "kfire co cfg ls e s = Some t" and "\<not> byMain e" and "\<forall>i < length ls. ru_pc s i = GDone"
  shows "(\<forall>i < length ls. ru_pc t i = GDone) \<and> ru_late t = ru_late s"
  using assms by (cases e) (auto split: if_splits gpc.splits list.splits)

lemma worker_late:
  assumes "kfire co cfg ls e s = Some t" and "ru_late t" and "\<not> ru_late s"
  shows "\<exists>i a. i < length ls \<and> lateFor s i a"
proof (cases e)
  case (EAct j)
  then obtain a as where "j < length ls" "ru_late t \<longleftrightarrow> ru_late s \<or> lateFor s j a"
    using assms(1) by (auto simp: goto_def split: if_splits gpc.splits list.splits)
  then show ?thesis using assms(2,3) by blast
qed (use assms in \<open>auto simp: machine_simps split: if_splits gpc.splits mpc.splits\<close>)

lemma drained_step:
  assumes "phaseOk cfg ls s" and "drainedOk ls s" and "kfire co cfg ls e s = Some t"
  shows "drainedOk ls t"
proof (cases "byMain e")
  case True
  from assms(3) True show ?thesis
    by (cases rule: main_cases) (use assms(2) in \<open>simp_all add: drainedOk_def mainStep_def\<close>)
next
  case False
  note fr = worker_frame [OF assms(3) False]
  show ?thesis
  proof (cases "ru_main s \<in> {MWait, MDrain}")
    case True
    then have "\<not> lateFor s i a" for i a using assms(1) by (auto simp: phaseOk_def lateFor_def split: kaction.split)
    then have "ru_late t \<longrightarrow> ru_late s" using worker_late [OF assms(3)] by blast
    then show ?thesis using True assms(2) by (auto simp: drainedOk_def fr(1,5))
  next
    case late: False
    show ?thesis using late assms(2) worker_done [OF assms(3) False] by (auto simp: drainedOk_def fr(1,5))
  qed
qed

interpretation krun: machine_invariant "spawned ls" "kstepRel co cfg ls" "\<lambda>s. phaseOk cfg ls s \<and> drainedOk ls s \<and> follows co ls s"
  for co :: "('d, 'r) codec" and cfg ls
  by unfold_locales (auto simp: kstepRel_def phase_init follows_init intro: phase_step drained_step follows_step)

text \<open>Shutdown on the main goroutine alone, from any of its points.\<close>

lemma closing:
  "ru_main s = MClose i \<Longrightarrow> i + k = length ls \<Longrightarrow>
     \<exists>t. runTrace (kfire co cfg ls) (replicate k ECloseReader @ [ECloseProducer]) s = Some t \<and> ru_main t = MDone \<and> ru_timedOut t = ru_timedOut s"
proof (induction k arbitrary: i s)
  case (Suc k)
  let ?t = "mainStep (MClose (Suc i)) [CloseReader (outline (ls ! i))] (s\<lparr>ru_closed := insert i (ru_closed s)\<rparr>)"
  have "ru_main ?t = MClose (Suc i)" "ru_timedOut ?t = ru_timedOut s" by (simp_all add: mainStep_def)
  with Suc.IH [of ?t "Suc i"] Suc.prems show ?case by simp
qed (simp add: mainStep_def)

lemma finishes:
  assumes "phaseOk cfg ls s" and "ru_ctx s"
  shows "\<exists>es t. runTrace (kfire co cfg ls) es s = Some t \<and> ru_main t = MDone \<and> length es \<le> length ls + 3 \<and> list_all byMain es"
proof -
  let ?close = "replicate (length ls) ECloseReader @ [ECloseProducer]"
  have timeout: "\<exists>t. runTrace (kfire co cfg ls) (EDrainTimeout # ?close) u = Some t \<and> ru_main t = MDone" if "ru_main u = MDrain" for u
    using that closing [where ls = ls and i = 0 and k = "length ls" and co = co and cfg = cfg and
        s = "mainStep (MClose 0) [Drain (drainTimeout cfg)] (u\<lparr>ru_timedOut := True\<rparr>)"] by (auto simp: mainStep_def)
  show ?thesis
  proof (cases "ru_main s")
    case MWait
    have "ru_main (mainStep MDrain [WaitCtx] s) = MDrain" by (simp add: mainStep_def)
    from timeout [OF this] obtain t where
      "runTrace (kfire co cfg ls) (EDrainTimeout # ?close) (mainStep MDrain [WaitCtx] s) = Some t" "ru_main t = MDone" by blast
    then show ?thesis using MWait assms(2)
      by (intro exI [of _ "EShutdown # EDrainTimeout # ?close"] exI [of _ t]) (simp del: kfire.simps(11) add: list_all_iff)
  next
    case MDrain
    from timeout [OF this] obtain t where "runTrace (kfire co cfg ls) (EDrainTimeout # ?close) s = Some t" "ru_main t = MDone" by blast
    then show ?thesis by (intro exI [of _ "EDrainTimeout # ?close"] exI [of _ t]) (simp del: kfire.simps add: list_all_iff)
  next
    case (MClose i)
    then have "i + (length ls - i) = length ls" using assms(1) by (simp add: phaseOk_def)
    from closing [where co = co and cfg = cfg, OF MClose this] show ?thesis
      by (intro exI [of _ "replicate (length ls - i) ECloseReader @ [ECloseProducer]"]) (auto simp: list_all_iff le_SucI)
  next
    case MDone
    then show ?thesis by (intro exI [of _ "[]"]) simp
  qed
qed

text \<open>Once the context has ended every goroutine can return without the main one.\<close>

lemma retire_handler:
  "i < length ls \<Longrightarrow> ru_ctx s \<Longrightarrow> ru_pc s i = GHandle as \<Longrightarrow>
     \<exists>es t. runTrace (kfire co cfg ls) es s = Some t \<and> (\<forall>e \<in> set es. \<not> byMain e) \<and> ru_pc t = (ru_pc s)(i := GDone)"
proof (induction as arbitrary: s)
  case Nil
  then show ?case
    by (intro exI [of _ "[EHandled i, EFetchFailed i CtxCanceled]"]) (simp add: machine_simps fun_eq_iff)
next
  case (Cons a as)
  let ?u = "goto i (GHandle as) (s\<lparr>ru_log := (ru_log s)(i := ru_log s i @ [a]), ru_late := ru_late s \<or> lateFor s i a\<rparr>)"
  have u: "kfire co cfg ls (EAct i) s = Some ?u" using Cons.prems by simp
  have v: "ru_ctx ?u" "ru_pc ?u i = GHandle as" "(ru_pc ?u)(i := GDone) = (ru_pc s)(i := GDone)"
    using Cons.prems by (simp_all add: goto_def)
  from Cons.IH [OF Cons.prems(1) v(1,2)] obtain es t where
    "runTrace (kfire co cfg ls) es ?u = Some t" "\<forall>e \<in> set es. \<not> byMain e" "ru_pc t = (ru_pc s)(i := GDone)" unfolding v(3) by blast
  then show ?case using u by (intro exI [of _ "EAct i # es"] exI [of _ t]) simp
qed

lemma retire:
  assumes "i < length ls" and "ru_ctx s"
  shows "\<exists>es t. runTrace (kfire co cfg ls) es s = Some t \<and> (\<forall>e \<in> set es. \<not> byMain e) \<and> ru_pc t = (ru_pc s)(i := GDone)"
proof (cases "ru_pc s i")
  case GPrime
  then show ?thesis using assms by (intro exI [of _ "[EPrimed i, EFetchFailed i CtxCanceled]"]) (simp add: machine_simps fun_eq_iff)
next
  case GFetch
  then show ?thesis using assms by (intro exI [of _ "[EFetchFailed i CtxCanceled]"]) (simp add: machine_simps fun_eq_iff)
next
  case (GHandle as)
  then show ?thesis using retire_handler [OF assms] by blast
next
  case (GPause e)
  then show ?thesis using assms by (intro exI [of _ "[EPauseCancelled i]"]) (simp add: machine_simps fun_eq_iff)
next
  case GDone
  then show ?thesis by (intro exI [of _ "[]"]) auto
qed

lemma worker_frames:
  assumes "runTrace (kfire co cfg ls) es s = Some t" and "\<forall>e \<in> set es. \<not> byMain e"
  shows "ru_main t = ru_main s \<and> ru_timedOut t = ru_timedOut s \<and> (ru_ctx s \<longrightarrow> ru_ctx t)"
  using assms
proof (induction es arbitrary: s)
  case (Cons e es)
  then obtain u where u: "kfire co cfg ls e s = Some u" "runTrace (kfire co cfg ls) es u = Some t" by (auto split: option.splits)
  show ?case using Cons.IH [OF u(2)] Cons.prems(2) worker_frame(1,5,6) [OF u(1)] by auto
qed simp

lemma retire_all:
  assumes "ru_ctx s" and "n \<le> length ls"
  shows "\<exists>es t. runTrace (kfire co cfg ls) es s = Some t \<and> (\<forall>e \<in> set es. \<not> byMain e) \<and> (\<forall>i < n. ru_pc t i = GDone)"
  using assms(2)
proof (induction n)
  case (Suc n)
  then obtain es t where t: "runTrace (kfire co cfg ls) es s = Some t" "\<forall>e \<in> set es. \<not> byMain e" "\<forall>i < n. ru_pc t i = GDone" by auto
  have "ru_ctx t" using worker_frames [OF t(1,2)] assms(1) by simp
  with retire [of n ls t co cfg] Suc.prems obtain fs u where
    "runTrace (kfire co cfg ls) fs t = Some u" "\<forall>e \<in> set fs. \<not> byMain e" "ru_pc u = (ru_pc t)(n := GDone)" by auto
  then show ?case using t by (intro exI [of _ "es @ fs"] exI [of _ u]) (auto simp: runTrace_append less_Suc_eq)
qed (intro exI [of _ "[]"], simp)

lemma drains:
  assumes "ru_ctx s" and "ru_main s \<in> {MWait, MDrain}"
  shows "\<exists>es t. runTrace (kfire co cfg ls) es s = Some t \<and> ru_main t = MDone \<and> ru_timedOut t = ru_timedOut s"
proof -
  obtain as u where u: "runTrace (kfire co cfg ls) as s = Some u" "ru_main u = MDrain" "ru_ctx u" "ru_timedOut u = ru_timedOut s"
  proof (cases "ru_main s = MWait")
    case True
    then show ?thesis using assms(1) that [of "[EShutdown]"] by (simp add: mainStep_def)
  qed (use assms that [of "[]"] in auto)
  obtain bs v where v: "runTrace (kfire co cfg ls) bs u = Some v" "\<forall>e \<in> set bs. \<not> byMain e" "\<forall>i < length ls. ru_pc v i = GDone"
    using retire_all [OF u(3), of "length ls" ls co cfg] by auto
  let ?w = "mainStep (MClose 0) [Drain (drainTimeout cfg)] v"
  have w: "kfire co cfg ls EDrained v = Some ?w" using worker_frames [OF v(1,2)] u(2) v(3) by (simp add: list_all_iff)
  have main: "ru_main ?w = MClose 0" "ru_timedOut ?w = ru_timedOut s" using worker_frames [OF v(1,2)] u(4) by (simp_all add: mainStep_def)
  from closing [where ls = ls and k = "length ls" and co = co and cfg = cfg, OF main(1)] main(2) obtain t where
    "runTrace (kfire co cfg ls) (replicate (length ls) ECloseReader @ [ECloseProducer]) ?w = Some t" "ru_main t = MDone" "ru_timedOut t = ru_timedOut s"
    by auto
  then show ?thesis
    using u(1) v(1) w by (intro exI [of _ "as @ bs @ EDrained # replicate (length ls) ECloseReader @ [ECloseProducer]"] exI [of _ t])
      (simp add: runTrace_append)
qed

text \<open>As long as the drain is waiting, the goroutines can all return, and then everything fetched was handled to its end.\<close>

lemma clean_finish:
  assumes "reach (spawned ls) (kstepRel co cfg ls) s" and w: "ru_ctx s" "ru_main s \<in> {MWait, MDrain}"
  shows "\<exists>es t. runTrace (kfire co cfg ls) es s = Some t \<and> ru_main t = MDone \<and> \<not> ru_timedOut t \<and> \<not> ru_late t \<and>
    (\<forall>i < length ls. ru_log t i = effectsOf (consumerLoop (handleOf co (ls ! i)) (ru_fetches t i)))"
proof -
  obtain es t where t: "runTrace (kfire co cfg ls) es s = Some t" "ru_main t = MDone" "ru_timedOut t = ru_timedOut s"
    using drains [OF w, of co cfg ls] by blast
  have "reach (spawned ls) (kstepRel co cfg ls) t" by (rule runTrace_reach [OF t(1) assms(1)]) (auto simp: kstepRel_def)
  note it = krun.reach_inv [OF this]
  have no: "\<not> ru_timedOut t" using krun.reach_inv [OF assms(1)] w(2) t(3) by (auto simp: phaseOk_def)
  then have fin: "\<forall>i < length ls. ru_pc t i = GDone" "\<not> ru_late t" using it t(2) by (simp_all add: drainedOk_def)
  have "ru_log t j = effectsOf (consumerLoop (handleOf co (ls ! j)) (ru_fetches t j))" if "j < length ls" for j
    using it fin(1) that by (auto simp: follows_def doneSoFar_def)
  then show ?thesis using t(1,2) no fin(2) by blast
qed

lemma stepsAt_prefix: "\<exists>rest. stepsAt cfg ls p @ rest = WaitCtx # k_shutdown cfg ls"
proof (cases p)
  case (MClose j)
  then show ?thesis
    by (intro exI [of _ "map CloseReader (drop j ls) @ [CloseProducer]"]) (simp add: k_shutdown_def flip: map_append append_assoc)
qed (simp_all add: k_shutdown_def)

section \<open>Properties\<close>

text \<open>C31: Running and stopping a Kafka application, whatever the interleaving of the listeners' goroutines with each
  other, the cancellation and the shutdown: each goroutine does exactly what the consumer loop does with
  the messages it fetched, up to what is left of the current one; the main goroutine goes through the steps
  of \<^verbatim>\<open>shutdown\<close> in order; a reader is closed only after the context ended and all goroutines returned or the
  drain timed out, and the producer after every reader; unless the drain timed out, nothing is committed on a
  closed reader or written to the closed producer. Once the context has ended the main goroutine never
  waits for a handler for ever (at most three steps and one per listener remain), and as long as
  the drain has not timed out, the goroutines can all return so that every fetched message was handled to its end.\<close>

theorem kafka_shutdown:
  assumes "reach (spawned ls) (kstepRel co cfg ls) s"
    and ls: "ls = makeListeners cfg reg events notifs c q n"
    and names: "set events \<subseteq> dom (k_eventHandlers reg)" "set notifs \<subseteq> dom (k_notificationHandlers reg)"
  defines "expected \<equiv> \<lambda>u i. effectsOf (consumerLoop (handleOf co (ls ! i)) (ru_fetches u i))"
  shows "(\<forall>i < length ls. ru_log s i @ leftover (ru_pc s i) = expected s i) \<and>
    (\<exists>rest. ru_steps s @ rest = WaitCtx # k_shutdown cfg (spawnListeners cfg events notifs c q)) \<and>
    (ru_closed s \<noteq> {} \<longrightarrow> ru_ctx s \<and> (ru_timedOut s \<or> (\<forall>i < length ls. ru_pc s i = GDone))) \<and>
    (\<not> ru_producerOpen s \<longrightarrow> ru_closed s = {..<length ls}) \<and>
    (\<not> ru_timedOut s \<longrightarrow> \<not> ru_late s) \<and>
    (ru_ctx s \<longrightarrow> (\<exists>es t. runTrace (kfire co cfg ls) es s = Some t \<and> ru_main t = MDone \<and> list_all byMain es \<and> length es \<le> length ls + 3)) \<and>
    (ru_ctx s \<and> ru_main s \<in> {MWait, MDrain} \<longrightarrow>
       (\<exists>es t. runTrace (kfire co cfg ls) es s = Some t \<and> ru_main t = MDone \<and> \<not> ru_timedOut t \<and> \<not> ru_late t \<and>
          (\<forall>i < length ls. ru_log t i = expected t i)))"
proof -
  note i = krun.reach_inv [OF assms(1)]
  have out: "map outline ls = spawnListeners cfg events notifs c q" unfolding ls by (rule wired [OF names])
  have steps: "\<exists>rest. ru_steps s @ rest = WaitCtx # k_shutdown cfg (spawnListeners cfg events notifs c q)"
    using i stepsAt_prefix [of cfg "spawnListeners cfg events notifs c q"] by (simp add: phaseOk_def out)
  have main: "ru_main s \<notin> {MWait, MDrain}" if "ru_closed s \<noteq> {}" using i that by (auto simp: phaseOk_def)
  have "ru_log s j @ leftover (ru_pc s j) = expected s j" if "j < length ls" for j
    using i that by (simp add: follows_def doneSoFar_def expected_def)
  moreover have "ru_closed s \<noteq> {} \<longrightarrow> ru_ctx s \<and> (ru_timedOut s \<or> (\<forall>i < length ls. ru_pc s i = GDone))"
    using i main by (auto simp: phaseOk_def drainedOk_def)
  moreover have "\<not> ru_producerOpen s \<longrightarrow> ru_closed s = {..<length ls}" "\<not> ru_timedOut s \<longrightarrow> \<not> ru_late s"
    using i by (simp_all add: phaseOk_def drainedOk_def)
  ultimately show ?thesis using steps clean_finish [OF assms(1)] finishes [of cfg ls s co] i unfolding expected_def by blast
qed

definition runningRegistry :: "(bytes, bytes) appRegistry" where
  "runningRegistry = k_newHandlerRegistry\<lparr>k_eventHandlers := [''paid'' \<mapsto> flakyHandler]\<rparr>"

definition runningCodec :: "(bytes, bytes) codec" where
  "runningCodec = \<lparr>co_unmarshal = (\<lambda>b. Inr exampleEnvelope), co_decode = Inr, co_marshal = Inr, co_marshalError = Inr, co_commandOrder = []\<rparr>"

definition runningListeners :: "(bytes, bytes) listener list" where
  "runningListeners = makeListeners exampleKafka runningRegistry [''paid''] [] False False 1"

definition runningStart :: krun where
  "runningStart = \<lparr>ru_ctx = False, ru_pc = (\<lambda>i. if i = 0 then GFetch else GPrime), ru_fetches = (\<lambda>_. []), ru_log = (\<lambda>_. []),
     ru_main = MWait, ru_steps = [], ru_timedOut = False, ru_closed = {}, ru_producerOpen = True, ru_late = False\<rparr>"

theorem kafka_shutdown_witness:
  "\<exists>s. runTrace (kfire runningCodec exampleKafka runningListeners)
      [EFetch 0 (exampleRound 0 (\<lambda>_. None)) exampleMessage, EAct 0, ECancel, EShutdown] runningStart = Some s \<and>
    ru_log s 0 = [KInvoke 0] \<and> ru_main s = MDrain \<and>
    (\<exists>es t. runTrace (kfire runningCodec exampleKafka runningListeners) es s = Some t \<and> ru_main t = MDone \<and> \<not> ru_late t)"
proof -
  have ls: "runningListeners = [EventListener (openEvent (k_newEventListener exampleKafka ''paid'' flakyHandler)),
      ReplyListener (openReply (k_newReplyListener exampleKafka 1))]"
    by (simp add: runningListeners_def makeListeners_def runningRegistry_def k_newHandlerRegistry_def exampleKafka_def k_NewConfigWithDefaults_def)
  have start: "spawned runningListeners runningStart"
    by (simp add: ls spawned_def runningStart_def nth_Cons split: nat.split)
  obtain acts where acts: "handleOf runningCodec (runningListeners ! 0) (exampleRound 0 (\<lambda>_. None)) exampleMessage = KInvoke 0 # acts"
    by (simp add: ls eventRun_def openEvent_def k_newEventListener_def runningCodec_def eventProcess_def UnmarshalRaw_def
        deliver_def attemptsOf_def flakyHandler_def invokeHandler_def exampleRound_def exampleKafka_def k_NewConfigWithDefaults_def
        exampleEnvelope_def emptyEnvelope_def exampleMessage_def numeral_eq_Suc Let_def)
  obtain s where s: "runTrace (kfire runningCodec exampleKafka runningListeners)
      [EFetch 0 (exampleRound 0 (\<lambda>_. None)) exampleMessage, EAct 0, ECancel, EShutdown] runningStart = Some s"
    "ru_log s 0 = [KInvoke 0]" "ru_main s = MDrain" "ru_ctx s"
    using acts by (simp add: ls runningStart_def machine_simps)
  have "reach (spawned runningListeners) (kstepRel runningCodec exampleKafka runningListeners) s"
    by (rule runTrace_reach [OF s(1) reach_init [of "spawned runningListeners", OF start]]) (auto simp: kstepRel_def)
  from kafka_shutdown [OF this runningListeners_def] s show ?thesis by (auto simp: runningRegistry_def)
qed

end
