(* ===== verification/Example_Teams.thy ===== *)
theory Example_Teams
  imports RC_JSON Rabbit_Registry
begin

text \<open>
  The team service of \<^verbatim>\<open>examples/rabbitmq/async-receiver-responder\<close>: an application whose handlers the
  consumers call concurrently. Each handler is one critical section of its mutex. Slices are references
  into a heap of arrays, since the handlers of the queries hand out slices that are encoded after the
  mutex was released.
\<close>

section \<open>Messages\<close>

record Member =
  mb_Username :: gostring
  mb_Name :: gostring

record AddMemberCommand =
  am_TeamName :: gostring
  am_Member :: Member

record RemovedMemberEvent =
  rm_TeamName :: gostring
  rm_Username :: gostring

record AnimalEvent =
  ae_Name :: gostring
  ae_Type :: gostring

definition zeroMember :: Member where
  "zeroMember = \<lparr>mb_Username = [], mb_Name = []\<rparr>"

text \<open>Decoding of the payloads. A value stored into a struct field is decoded into that field.\<close>

definition setMember :: "bytes \<times> bytes \<Rightarrow> Member \<Rightarrow> Member option" where
  "setMember kv x =
     (case unquoteJSON (fst kv) of
        None \<Rightarrow> None
      | Some key \<Rightarrow>
          if isField ''username'' key then map_option (\<lambda>v. x\<lparr>mb_Username := v\<rparr>) (storeString (snd kv) (mb_Username x))
          else if isField ''name'' key then map_option (\<lambda>v. x\<lparr>mb_Name := v\<rparr>) (storeString (snd kv) (mb_Name x))
          else Some x)"

definition setAdd :: "bytes \<times> bytes \<Rightarrow> AddMemberCommand \<Rightarrow> AddMemberCommand option" where
  "setAdd kv x =
     (case unquoteJSON (fst kv) of
        None \<Rightarrow> None
      | Some key \<Rightarrow>
          if isField ''teamName'' key then map_option (\<lambda>v. x\<lparr>am_TeamName := v\<rparr>) (storeString (snd kv) (am_TeamName x))
          else if isField ''member'' key
            then map_option (\<lambda>v. x\<lparr>am_Member := v\<rparr>) (Option.bind (topMembers (snd kv)) (\<lambda>kvs. setFields setMember kvs (am_Member x)))
          else Some x)"

definition setRemoved :: "bytes \<times> bytes \<Rightarrow> RemovedMemberEvent \<Rightarrow> RemovedMemberEvent option" where
  "setRemoved kv x =
     (case unquoteJSON (fst kv) of
        None \<Rightarrow> None
      | Some key \<Rightarrow>
          if isField ''teamName'' key then map_option (\<lambda>v. x\<lparr>rm_TeamName := v\<rparr>) (storeString (snd kv) (rm_TeamName x))
          else if isField ''username'' key then map_option (\<lambda>v. x\<lparr>rm_Username := v\<rparr>) (storeString (snd kv) (rm_Username x))
          else Some x)"

definition setAnimal :: "bytes \<times> bytes \<Rightarrow> AnimalEvent \<Rightarrow> AnimalEvent option" where
  "setAnimal kv x =
     (case unquoteJSON (fst kv) of
        None \<Rightarrow> None
      | Some key \<Rightarrow>
          if isField ''name'' key then map_option (\<lambda>v. x\<lparr>ae_Name := v\<rparr>) (storeString (snd kv) (ae_Name x))
          else if isField ''type'' key then map_option (\<lambda>v. x\<lparr>ae_Type := v\<rparr>) (storeString (snd kv) (ae_Type x))
          else Some x)"

definition unmarshalAdd :: "bytes \<Rightarrow> AddMemberCommand option" where
  "unmarshalAdd body = Option.bind (topMembers body) (\<lambda>kvs. setFields setAdd kvs \<lparr>am_TeamName = [], am_Member = zeroMember\<rparr>)"

definition unmarshalRemoved :: "bytes \<Rightarrow> RemovedMemberEvent option" where
  "unmarshalRemoved body = Option.bind (topMembers body) (\<lambda>kvs. setFields setRemoved kvs \<lparr>rm_TeamName = [], rm_Username = []\<rparr>)"

definition unmarshalAnimal :: "bytes \<Rightarrow> AnimalEvent option" where
  "unmarshalAnimal body = Option.bind (topMembers body) (\<lambda>kvs. setFields setAnimal kvs \<lparr>ae_Name = [], ae_Type = []\<rparr>)"

text \<open>\<^verbatim>\<open>json.Unmarshal\<close> into a string.\<close>

definition unmarshalText :: "bytes \<Rightarrow> gostring option" where
  "unmarshalText body =
     (case skipWs body of
        [] \<Rightarrow> None
      | c # r \<Rightarrow>
          if c = CHR 0x22
          then (case skipString r of
                  None \<Rightarrow> None
                | Some t \<Rightarrow> if skipWs t = [] then unquoteJSON (butlast (upto r t)) else None)
          else (case skipWord ''null'' (c # r) of None \<Rightarrow> None | Some t \<Rightarrow> if skipWs t = [] then Some [] else None))"

section \<open>Slices\<close>

text \<open>A slice that starts at the beginning of its array, as all of this program do.\<close>

record slice =
  sl_arr :: nat
  sl_len :: nat
  sl_cap :: nat

type_synonym heap = "nat \<Rightarrow> Member list"

definition readSlice :: "heap \<Rightarrow> slice \<Rightarrow> Member list" where
  "readSlice h s = take (sl_len s) (h (sl_arr s))"

text \<open>
  \<^verbatim>\<open>append\<close> of one element: in place when the capacity allows it, otherwise into a new array. The new
  capacity \<open>grow n\<close>, at least the \<open>n\<close> needed, is the runtime's choice; \<open>nx\<close> is the next free array.
\<close>

definition goAppend :: "(nat \<Rightarrow> nat) \<Rightarrow> Member \<Rightarrow> slice \<times> heap \<times> nat \<Rightarrow> slice \<times> heap \<times> nat" where
  "goAppend grow m shn =
     (case shn of (s, h, nx) \<Rightarrow>
        if sl_len s < sl_cap s
        then (s\<lparr>sl_len := Suc (sl_len s)\<rparr>, h(sl_arr s := (h (sl_arr s))[sl_len s := m]), nx)
        else (let n = Suc (sl_len s); c = grow n
              in (\<lparr>sl_arr = nx, sl_len = n, sl_cap = c\<rparr>, h(nx := readSlice h s @ m # replicate (c - n) zeroMember), Suc nx)))"

section \<open>The service\<close>

record Team =
  tm_Name :: gostring
  tm_Members :: slice

record UseCase =
  uc_tms :: "gostring \<rightharpoonup> Team"
  uc_heap :: heap
  uc_next :: nat

definition NewUseCase :: UseCase where
  "NewUseCase = \<lparr>uc_tms = Map.empty, uc_heap = (\<lambda>_. []), uc_next = 0\<rparr>"

text \<open>\<^verbatim>\<open>Members{}\<close> has no array of its own.\<close>

definition noMembers :: slice where
  "noMembers = \<lparr>sl_arr = 0, sl_len = 0, sl_cap = 0\<rparr>"

text \<open>The copy of the map shares the members of the teams. \<open>ks\<close> is the order of the range loop.\<close>

definition GetTeamsHandler :: "gostring list \<Rightarrow> UseCase \<Rightarrow> (gostring \<rightharpoonup> Team)" where
  "GetTeamsHandler ks u = foldl (\<lambda>out k. out(k := uc_tms u k)) Map.empty (rangeKeys (uc_tms u) ks)"

text \<open>\<open>jsonErr\<close> is the text of the library's error for a payload.\<close>

definition GetTeamHandler :: "(bytes \<Rightarrow> gostring) \<Rightarrow> bytes \<Rightarrow> UseCase \<Rightarrow> goerror + slice" where
  "GetTeamHandler jsonErr raw u =
     (case unmarshalText raw of
        None \<Rightarrow> Inl (Wrapped ''decode team name'' (ErrOther (jsonErr raw)))
      | Some teamName \<Rightarrow> (case uc_tms u teamName of Some t \<Rightarrow> Inr (tm_Members t) | None \<Rightarrow> Inr noMembers))"

definition AddMemberHandler :: "(nat \<Rightarrow> nat) \<Rightarrow> (bytes \<Rightarrow> gostring) \<Rightarrow> bytes \<Rightarrow> UseCase \<Rightarrow> goerror option \<times> UseCase" where
  "AddMemberHandler grow jsonErr raw u =
     (case unmarshalAdd raw of
        None \<Rightarrow> (Some (Wrapped ''decode add-member command'' (ErrOther (jsonErr raw))), u)
      | Some data \<Rightarrow>
          (let t = (case uc_tms u (am_TeamName data) of Some t \<Rightarrow> t | None \<Rightarrow> \<lparr>tm_Name = am_TeamName data, tm_Members = noMembers\<rparr>);
               (s, h, nx) = goAppend grow (am_Member data) (tm_Members t, uc_heap u, uc_next u)
           in (None, \<lparr>uc_tms = (uc_tms u)(am_TeamName data \<mapsto> t\<lparr>tm_Members := s\<rparr>), uc_heap = h, uc_next = nx\<rparr>)))"

text \<open>
  The loop of \<^verbatim>\<open>RemoveMemberHandler\<close> over the positions of the slice: the elements are read from the
  array that the appends to \<^verbatim>\<open>filtered\<close> write.
\<close>

fun removeLoop :: "(nat \<Rightarrow> nat) \<Rightarrow> gostring \<Rightarrow> slice \<Rightarrow> nat list \<Rightarrow> slice \<times> heap \<times> nat \<Rightarrow> slice \<times> heap \<times> nat" where
  "removeLoop grow username ms [] fhn = fhn"
| "removeLoop grow username ms (i # is) fhn =
     (let m = fst (snd fhn) (sl_arr ms) ! i
      in removeLoop grow username ms is (if mb_Username m \<noteq> username then goAppend grow m fhn else fhn))"

definition RemoveMemberHandler :: "(nat \<Rightarrow> nat) \<Rightarrow> (bytes \<Rightarrow> gostring) \<Rightarrow> bytes \<Rightarrow> UseCase \<Rightarrow> goerror option \<times> UseCase" where
  "RemoveMemberHandler grow jsonErr raw u =
     (case unmarshalRemoved raw of
        None \<Rightarrow> (Some (Wrapped ''decode member-removed event'' (ErrOther (jsonErr raw))), u)
      | Some data \<Rightarrow>
          (case uc_tms u (rm_TeamName data) of
             None \<Rightarrow> (None, u)
           | Some t \<Rightarrow>
               (let (f, h, nx) = removeLoop grow (rm_Username data) (tm_Members t) [0..<sl_len (tm_Members t)]
                       ((tm_Members t)\<lparr>sl_len := 0\<rparr>, uc_heap u, uc_next u)
                in (None, \<lparr>uc_tms = (uc_tms u)(rm_TeamName data \<mapsto> t\<lparr>tm_Members := f\<rparr>), uc_heap = h, uc_next = nx\<rparr>))))"

definition AnimalEventHandler :: "(bytes \<Rightarrow> gostring) \<Rightarrow> bytes \<Rightarrow> goerror option" where
  "AnimalEventHandler jsonErr raw =
     (case unmarshalAnimal raw of None \<Rightarrow> Some (ErrOther (jsonErr raw)) | Some data \<Rightarrow> Some (ErrOther ''not implemented''))"

definition ResetHandler :: "UseCase \<Rightarrow> UseCase" where
  "ResetHandler u = u\<lparr>uc_tms := Map.empty\<rparr>"

text \<open>The registration of the handlers, by their names; it stops at the first error.\<close>

datatype teamHandler = GetTeamsH | GetTeamH | AddMemberH | RemoveMemberH | AnimalEventH | ResetH

type_synonym teamRegistry = "(teamHandler, teamHandler, teamHandler, teamHandler) rabbitRegistry"

definition ifOk :: "goerror + teamRegistry \<Rightarrow> (teamRegistry \<Rightarrow> goerror + teamRegistry) \<Rightarrow> goerror + teamRegistry" where
  "ifOk x f = (case x of Inl e \<Rightarrow> Inl e | Inr r \<Rightarrow> f r)"

definition RegisterHandlers :: "teamRegistry \<Rightarrow> goerror + teamRegistry" where
  "RegisterHandlers r =
     ifOk (ServeQuery r ''get-teams'' GetTeamsH) (\<lambda>r. ifOk (ServeQuery r ''get-team-members'' GetTeamH)
       (\<lambda>r. ifOk (ListenCommand r ''add-member'' AddMemberH) (\<lambda>r. ifOk (ListenEvent r ''member-removed'' RemoveMemberH)
         (\<lambda>r. ifOk (ListenEvent r ''animals.#'' AnimalEventH) (\<lambda>r. ListenNotification r ''data-reset'' ResetH)))))"

text \<open>The deliveries that change the service, in the order their critical sections run.\<close>

datatype teamOp = OpAdd bytes | OpRemove bytes | OpReset

fun applyOp :: "(nat \<Rightarrow> nat) \<Rightarrow> teamOp \<Rightarrow> UseCase \<Rightarrow> UseCase" where
  "applyOp grow (OpAdd raw) u = snd (AddMemberHandler grow id raw u)"
| "applyOp grow (OpRemove raw) u = snd (RemoveMemberHandler grow id raw u)"
| "applyOp grow OpReset u = ResetHandler u"

section \<open>The specification\<close>

text \<open>A service that keeps the members of every team as a list of its own.\<close>

type_synonym teams = "gostring \<rightharpoonup> Member list"

definition membersOf :: "teams \<Rightarrow> gostring \<Rightarrow> Member list" where
  "membersOf T k = (case T k of None \<Rightarrow> [] | Some ms \<Rightarrow> ms)"

fun specOp :: "teamOp \<Rightarrow> teams \<Rightarrow> teams" where
  "specOp (OpAdd raw) T =
     (case unmarshalAdd raw of None \<Rightarrow> T | Some d \<Rightarrow> T(am_TeamName d \<mapsto> membersOf T (am_TeamName d) @ [am_Member d]))"
| "specOp (OpRemove raw) T =
     (case unmarshalRemoved raw of
        None \<Rightarrow> T
      | Some d \<Rightarrow> (case T (rm_TeamName d) of None \<Rightarrow> T | Some ms \<Rightarrow> T(rm_TeamName d \<mapsto> filter (\<lambda>m. mb_Username m \<noteq> rm_Username d) ms)))"
| "specOp OpReset T = Map.empty"

definition absTeams :: "UseCase \<Rightarrow> teams" where
  "absTeams u = (\<lambda>k. map_option (\<lambda>t. readSlice (uc_heap u) (tm_Members t)) (uc_tms u k))"

text \<open>Every team has an array of its own.\<close>

definition okSlice :: "UseCase \<Rightarrow> slice \<Rightarrow> bool" where
  "okSlice u s \<longleftrightarrow> sl_len s \<le> sl_cap s \<and> (sl_cap s > 0 \<longrightarrow> sl_arr s < uc_next u \<and> length (uc_heap u (sl_arr s)) = sl_cap s)"

definition ownArrays :: "UseCase \<Rightarrow> bool" where
  "ownArrays u \<longleftrightarrow>
     (\<forall>k t. uc_tms u k = Some t \<longrightarrow> okSlice u (tm_Members t)) \<and>
     (\<forall>k k' t t'. uc_tms u k = Some t \<longrightarrow> uc_tms u k' = Some t' \<longrightarrow> k \<noteq> k' \<longrightarrow> sl_cap (tm_Members t) > 0 \<longrightarrow> sl_cap (tm_Members t') > 0 \<longrightarrow>
        sl_arr (tm_Members t) \<noteq> sl_arr (tm_Members t'))"

section \<open>Refinement\<close>

text \<open>A handler that gives the team \<open>k\<close> the slice \<open>s\<close> and writes no array but that of \<open>s\<close>.\<close>

lemma own_apart:
  "ownArrays u \<Longrightarrow> uc_tms u k = Some t \<Longrightarrow> uc_tms u k' = Some t' \<Longrightarrow> k \<noteq> k' \<Longrightarrow> sl_cap (tm_Members t) > 0 \<Longrightarrow>
     sl_cap (tm_Members t') > 0 \<Longrightarrow> sl_arr (tm_Members t) \<noteq> sl_arr (tm_Members t')"
  unfolding ownArrays_def by blast

lemma own_ok: "ownArrays u \<Longrightarrow> uc_tms u k = Some t \<Longrightarrow> okSlice u (tm_Members t)"
  unfolding ownArrays_def by blast

lemma update_team:
  assumes "ownArrays u" and "uc_next u \<le> nx" and ok: "okSlice \<lparr>uc_tms = tms', uc_heap = h, uc_next = nx\<rparr> (tm_Members t)"
    and frame: "\<And>a. a \<noteq> sl_arr (tm_Members t) \<or> sl_cap (tm_Members t) = 0 \<Longrightarrow> h a = uc_heap u a"
    and owner: "sl_cap (tm_Members t) > 0 \<Longrightarrow> uc_next u \<le> sl_arr (tm_Members t) \<or>
      (\<exists>t0. uc_tms u k = Some t0 \<and> sl_cap (tm_Members t0) > 0 \<and> sl_arr (tm_Members t0) = sl_arr (tm_Members t))"
    and tms': "tms' = (uc_tms u)(k \<mapsto> t)"
  shows "ownArrays \<lparr>uc_tms = tms', uc_heap = h, uc_next = nx\<rparr>"
    and "absTeams \<lparr>uc_tms = tms', uc_heap = h, uc_next = nx\<rparr> = (absTeams u)(k \<mapsto> readSlice h (tm_Members t))"
proof -
  have apart: "sl_arr (tm_Members t') \<noteq> sl_arr (tm_Members t) \<or> sl_cap (tm_Members t) = 0"
    if "uc_tms u k' = Some t'" "k' \<noteq> k" "sl_cap (tm_Members t') > 0" for k' t'
  proof (cases "sl_cap (tm_Members t) = 0")
    case False
    have "sl_arr (tm_Members t') < uc_next u" using assms(1) that by (auto simp: ownArrays_def okSlice_def)
    then show ?thesis using owner False own_apart [OF assms(1) that(1) _ that(2,3)] by fastforce
  qed simp
  have kept: "okSlice \<lparr>uc_tms = tms', uc_heap = h, uc_next = nx\<rparr> (tm_Members t') \<and>
      readSlice h (tm_Members t') = readSlice (uc_heap u) (tm_Members t')" if "uc_tms u k' = Some t'" "k' \<noteq> k" for k' t'
  proof (cases "sl_cap (tm_Members t') = 0")
    case True
    then show ?thesis using own_ok [OF assms(1) that(1)] by (simp add: okSlice_def readSlice_def)
  next
    case False
    with apart [OF that] frame [of "sl_arr (tm_Members t')"] have "h (sl_arr (tm_Members t')) = uc_heap u (sl_arr (tm_Members t'))" by simp
    moreover have "okSlice u (tm_Members t')" by (rule own_ok [OF assms(1) that(1)])
    ultimately show ?thesis using assms(2) by (auto simp: okSlice_def readSlice_def)
  qed
  show "ownArrays \<lparr>uc_tms = tms', uc_heap = h, uc_next = nx\<rparr>"
    unfolding ownArrays_def
  proof (intro conjI allI impI)
    fix k' t' assume "uc_tms \<lparr>uc_tms = tms', uc_heap = h, uc_next = nx\<rparr> k' = Some t'"
    then show "okSlice \<lparr>uc_tms = tms', uc_heap = h, uc_next = nx\<rparr> (tm_Members t')"
      using ok kept [of k' t'] by (cases "k' = k") (auto simp: tms')
  next
    fix k1 k2 t1 t2
    assume "uc_tms \<lparr>uc_tms = tms', uc_heap = h, uc_next = nx\<rparr> k1 = Some t1" "uc_tms \<lparr>uc_tms = tms', uc_heap = h, uc_next = nx\<rparr> k2 = Some t2"
      "k1 \<noteq> k2" "0 < sl_cap (tm_Members t1)" "0 < sl_cap (tm_Members t2)"
    then show "sl_arr (tm_Members t1) \<noteq> sl_arr (tm_Members t2)"
      using apart [of k1 t1] apart [of k2 t2] own_apart [OF assms(1), of k1 t1 k2 t2] by (auto simp: tms' split: if_splits)
  qed
  show "absTeams \<lparr>uc_tms = tms', uc_heap = h, uc_next = nx\<rparr> = (absTeams u)(k \<mapsto> readSlice h (tm_Members t))"
    using kept by (auto simp: absTeams_def tms' fun_eq_iff map_option_case split: option.split)
qed

lemma goAppend_facts:
  assumes "okSlice u s" and "\<And>n. n \<le> grow n" and "goAppend grow m (s, uc_heap u, uc_next u) = (s', h, nx)"
  shows "readSlice h s' = readSlice (uc_heap u) s @ [m]" and "uc_next u \<le> nx" and "okSlice \<lparr>uc_tms = T, uc_heap = h, uc_next = nx\<rparr> s'"
    and "a \<noteq> sl_arr s' \<Longrightarrow> h a = uc_heap u a" and "0 < sl_cap s'"
    and "uc_next u \<le> sl_arr s' \<or> 0 < sl_cap s \<and> sl_arr s' = sl_arr s"
    and "0 < sl_cap s \<Longrightarrow> n \<le> sl_len s \<Longrightarrow> take n (h (sl_arr s)) = take n (uc_heap u (sl_arr s))"
proof -
  have len: "length (readSlice (uc_heap u) s) = sl_len s" using assms(1) by (auto simp: readSlice_def okSlice_def)
  have g: "Suc (sl_len s) \<le> grow (Suc (sl_len s))" by (rule assms(2))
  show "readSlice h s' = readSlice (uc_heap u) s @ [m]"
  proof (cases "sl_len s < sl_cap s")
    case True
    then have "sl_len s < length (uc_heap u (sl_arr s))" using assms(1) by (auto simp: okSlice_def)
    then show ?thesis using assms(3) True by (auto simp: goAppend_def readSlice_def take_Suc_conv_app_nth)
  next
    case False
    then have "s' = \<lparr>sl_arr = uc_next u, sl_len = Suc (sl_len s), sl_cap = grow (Suc (sl_len s))\<rparr>"
      "h = (uc_heap u)(uc_next u := readSlice (uc_heap u) s @ m # replicate (grow (Suc (sl_len s)) - Suc (sl_len s)) zeroMember)"
      using assms(3) by (auto simp: goAppend_def Let_def)
    then have "readSlice h s' = take (Suc (sl_len s)) (readSlice (uc_heap u) s @ m # replicate (grow (Suc (sl_len s)) - Suc (sl_len s)) zeroMember)"
      unfolding readSlice_def [where h = h and s = s'] by simp
    then show ?thesis by (simp add: len)
  qed
  show "uc_next u \<le> nx" "a \<noteq> sl_arr s' \<Longrightarrow> h a = uc_heap u a" "uc_next u \<le> sl_arr s' \<or> 0 < sl_cap s \<and> sl_arr s' = sl_arr s" "0 < sl_cap s'"
    using assms(3) g by (auto simp: goAppend_def Let_def split: if_splits)
  show "okSlice \<lparr>uc_tms = T, uc_heap = h, uc_next = nx\<rparr> s'"
    using assms(1,3) g len by (auto simp: goAppend_def okSlice_def Let_def split: if_splits)
  show "take n (h (sl_arr s)) = take n (uc_heap u (sl_arr s))" if "0 < sl_cap s" "n \<le> sl_len s"
    using assms(1,3) that by (auto simp: goAppend_def okSlice_def Let_def split: if_splits)
qed

text \<open>The loop overwrites the array in place: it never writes ahead of what it reads.\<close>

lemma removeLoop_facts:
  assumes "sl_arr ms = a" and "sl_arr f = a" and "sl_cap f = c" and "sl_len f \<le> i" and "i \<le> n" and "n \<le> c" and "length (h a) = c"
  shows "\<exists>f' h'. removeLoop grow user ms [i..<n] (f, h, nx) = (f', h', nx) \<and> sl_arr f' = a \<and> sl_cap f' = c \<and> sl_len f' \<le> n \<and>
    length (h' a) = c \<and> (\<forall>b. b \<noteq> a \<longrightarrow> h' b = h b) \<and>
    readSlice h' f' = readSlice h f @ filter (\<lambda>m. mb_Username m \<noteq> user) (take (n - i) (drop i (h a)))"
  using assms(2-)
proof (induction "n - i" arbitrary: i f h)
  case 0
  then show ?case by simp
next
  case (Suc d)
  then have i: "i < n" "[i..<n] = i # [Suc i..<n]" "i < length (h a)" by (simp_all add: upt_conv_Cons)
  let ?m = "h a ! i"
  have split: "take (n - i) (drop i (h a)) = ?m # take (n - Suc i) (drop (Suc i) (h a))"
    using i by (simp flip: Cons_nth_drop_Suc add: Suc_diff_Suc [symmetric])
  show ?case
  proof (cases "mb_Username ?m = user")
    case True
    with Suc.hyps(1) [of "Suc i" f h] Suc.hyps(2) Suc.prems i show ?thesis by (simp add: assms(1) split)
  next
    case False
    let ?f = "f\<lparr>sl_len := Suc (sl_len f)\<rparr>" and ?h = "h(a := (h a)[sl_len f := ?m])"
    have app: "goAppend grow ?m (f, h, nx) = (?f, ?h, nx)" using Suc.prems i(1) by (simp add: goAppend_def)
    have "readSlice ?h ?f = readSlice h f @ [?m]" using Suc.prems i by (simp add: readSlice_def take_Suc_conv_app_nth)
    moreover have "drop (Suc i) ((h a)[sl_len f := ?m]) = drop (Suc i) (h a)" using Suc.prems by (simp add: drop_update_cancel)
    ultimately show ?thesis
      using Suc.hyps(1) [of "Suc i" ?f ?h] Suc.hyps(2) Suc.prems i False by (simp add: assms(1) split app)
  qed
qed

lemma add_step:
  assumes "ownArrays u" and "\<And>n. n \<le> grow n" and "unmarshalAdd raw = Some d"
  obtains t s h nx where "t = (case uc_tms u (am_TeamName d) of Some t \<Rightarrow> t | None \<Rightarrow> \<lparr>tm_Name = am_TeamName d, tm_Members = noMembers\<rparr>)"
    "okSlice u (tm_Members t)" "goAppend grow (am_Member d) (tm_Members t, uc_heap u, uc_next u) = (s, h, nx)"
    "applyOp grow (OpAdd raw) u = \<lparr>uc_tms = (uc_tms u)(am_TeamName d \<mapsto> t\<lparr>tm_Members := s\<rparr>), uc_heap = h, uc_next = nx\<rparr>"
    "readSlice (uc_heap u) (tm_Members t) = membersOf (absTeams u) (am_TeamName d)"
proof -
  let ?t = "case uc_tms u (am_TeamName d) of Some t \<Rightarrow> t | None \<Rightarrow> \<lparr>tm_Name = am_TeamName d, tm_Members = noMembers\<rparr>"
  obtain s h nx where g: "goAppend grow (am_Member d) (tm_Members ?t, uc_heap u, uc_next u) = (s, h, nx)" by (metis prod_cases3)
  have "okSlice u (tm_Members ?t)" using own_ok [OF assms(1)] by (auto simp: okSlice_def noMembers_def split: option.split)
  moreover have "readSlice (uc_heap u) (tm_Members ?t) = membersOf (absTeams u) (am_TeamName d)"
    by (simp add: membersOf_def absTeams_def readSlice_def noMembers_def split: option.split)
  ultimately show ?thesis
    using that [OF refl _ g] g by (simp add: AddMemberHandler_def assms(3) Let_def)
qed

lemma remove_step:
  assumes "ownArrays u" and "unmarshalRemoved raw = Some d" and "uc_tms u (rm_TeamName d) = Some t"
  obtains f h where "sl_arr f = sl_arr (tm_Members t)" "sl_cap f = sl_cap (tm_Members t)"
    "okSlice \<lparr>uc_tms = (uc_tms u)(rm_TeamName d \<mapsto> t\<lparr>tm_Members := f\<rparr>), uc_heap = h, uc_next = uc_next u\<rparr> f"
    "\<And>a. a \<noteq> sl_arr f \<or> sl_cap f = 0 \<Longrightarrow> h a = uc_heap u a"
    "applyOp grow (OpRemove raw) u = \<lparr>uc_tms = (uc_tms u)(rm_TeamName d \<mapsto> t\<lparr>tm_Members := f\<rparr>), uc_heap = h, uc_next = uc_next u\<rparr>"
    "readSlice h f = filter (\<lambda>m. mb_Username m \<noteq> rm_Username d) (readSlice (uc_heap u) (tm_Members t))"
proof (cases "sl_cap (tm_Members t) = 0")
  case True
  let ?f = "(tm_Members t)\<lparr>sl_len := 0\<rparr>"
  have "sl_len (tm_Members t) = 0" using own_ok [OF assms(1,3)] True by (simp add: okSlice_def)
  then show ?thesis
    using that [of ?f "uc_heap u"] True by (simp add: RemoveMemberHandler_def assms(2,3) okSlice_def readSlice_def)
next
  case False
  let ?s = "tm_Members t"
  have ok: "sl_len ?s \<le> sl_cap ?s" "length (uc_heap u (sl_arr ?s)) = sl_cap ?s" "sl_arr ?s < uc_next u"
    using own_ok [OF assms(1,3)] False by (simp_all add: okSlice_def)
  obtain f h where fh: "removeLoop grow (rm_Username d) ?s [0..<sl_len ?s] (?s\<lparr>sl_len := 0\<rparr>, uc_heap u, uc_next u) = (f, h, uc_next u)"
    "sl_arr f = sl_arr ?s" "sl_cap f = sl_cap ?s" "sl_len f \<le> sl_len ?s" "length (h (sl_arr ?s)) = sl_cap ?s" "\<forall>b. b \<noteq> sl_arr ?s \<longrightarrow> h b = uc_heap u b"
    "readSlice h f = filter (\<lambda>m. mb_Username m \<noteq> rm_Username d) (readSlice (uc_heap u) ?s)"
    using removeLoop_facts [where ms = ?s and f = "?s\<lparr>sl_len := 0\<rparr>" and i = 0 and n = "sl_len ?s" and h = "uc_heap u" and a = "sl_arr ?s" and c = "sl_cap ?s"
        and grow = grow and user = "rm_Username d" and nx = "uc_next u"] ok
    by (auto simp: readSlice_def)
  show ?thesis
    using that [of f h] fh ok False by (simp add: RemoveMemberHandler_def assms(2,3) okSlice_def)
qed

lemma add_refines:
  assumes "ownArrays u" and "\<And>n. n \<le> grow n"
  shows "ownArrays (applyOp grow (OpAdd raw) u) \<and> absTeams (applyOp grow (OpAdd raw) u) = specOp (OpAdd raw) (absTeams u)"
proof (cases "unmarshalAdd raw")
  case None
  then show ?thesis using assms(1) by (simp add: AddMemberHandler_def)
next
  case (Some d)
  obtain t s h nx where st: "t = (case uc_tms u (am_TeamName d) of Some t \<Rightarrow> t | None \<Rightarrow> \<lparr>tm_Name = am_TeamName d, tm_Members = noMembers\<rparr>)"
    "okSlice u (tm_Members t)" "goAppend grow (am_Member d) (tm_Members t, uc_heap u, uc_next u) = (s, h, nx)"
    "applyOp grow (OpAdd raw) u = \<lparr>uc_tms = (uc_tms u)(am_TeamName d \<mapsto> t\<lparr>tm_Members := s\<rparr>), uc_heap = h, uc_next = nx\<rparr>"
    "readSlice (uc_heap u) (tm_Members t) = membersOf (absTeams u) (am_TeamName d)"
    using add_step [OF assms Some] by blast
  note g = goAppend_facts [OF st(2) assms(2) st(3)]
  have own: "uc_next u \<le> sl_arr s \<or> (\<exists>t0. uc_tms u (am_TeamName d) = Some t0 \<and> sl_cap (tm_Members t0) > 0 \<and> sl_arr (tm_Members t0) = sl_arr s)"
    using g(6) by (auto simp: st(1) noMembers_def split: option.splits)
  have fr: "h a = uc_heap u a" if "a \<noteq> sl_arr s \<or> sl_cap s = 0" for a using that g(4,5) by auto
  have "ownArrays (applyOp grow (OpAdd raw) u)" "absTeams (applyOp grow (OpAdd raw) u) = (absTeams u)(am_TeamName d \<mapsto> readSlice h s)"
    using update_team [where u = u and nx = nx and h = h and t = "t\<lparr>tm_Members := s\<rparr>" and k = "am_TeamName d", OF assms(1) g(2) _ _ _ refl] g(3) fr own
    unfolding st(4) by simp_all
  then show ?thesis unfolding g(1) st(5) by (simp add: Some)
qed

lemma remove_refines:
  assumes "ownArrays u"
  shows "ownArrays (applyOp grow (OpRemove raw) u) \<and> absTeams (applyOp grow (OpRemove raw) u) = specOp (OpRemove raw) (absTeams u)"
proof (cases "unmarshalRemoved raw")
  case None
  then show ?thesis using assms by (simp add: RemoveMemberHandler_def)
next
  case (Some d)
  show ?thesis
  proof (cases "uc_tms u (rm_TeamName d)")
    case None
    then show ?thesis using assms Some by (simp add: RemoveMemberHandler_def absTeams_def)
  next
    case t: (Some t)
    obtain f h where st: "sl_arr f = sl_arr (tm_Members t)" "sl_cap f = sl_cap (tm_Members t)"
      "okSlice \<lparr>uc_tms = (uc_tms u)(rm_TeamName d \<mapsto> t\<lparr>tm_Members := f\<rparr>), uc_heap = h, uc_next = uc_next u\<rparr> f"
      "\<And>a. a \<noteq> sl_arr f \<or> sl_cap f = 0 \<Longrightarrow> h a = uc_heap u a"
      "applyOp grow (OpRemove raw) u = \<lparr>uc_tms = (uc_tms u)(rm_TeamName d \<mapsto> t\<lparr>tm_Members := f\<rparr>), uc_heap = h, uc_next = uc_next u\<rparr>"
      "readSlice h f = filter (\<lambda>m. mb_Username m \<noteq> rm_Username d) (readSlice (uc_heap u) (tm_Members t))"
      using remove_step [where grow = grow, OF assms Some t] by blast
    have "ownArrays (applyOp grow (OpRemove raw) u)" "absTeams (applyOp grow (OpRemove raw) u) = (absTeams u)(rm_TeamName d \<mapsto> readSlice h f)"
      using update_team [where u = u and nx = "uc_next u" and h = h and t = "t\<lparr>tm_Members := f\<rparr>" and k = "rm_TeamName d", OF assms order_refl _ _ _ refl]
        st(1-4) t unfolding st(5) by simp_all
    then show ?thesis unfolding st(6) using t by (simp add: Some absTeams_def)
  qed
qed

lemma op_refines:
  assumes "ownArrays u" and "\<And>n. n \<le> grow n"
  shows "ownArrays (applyOp grow op u) \<and> absTeams (applyOp grow op u) = specOp op (absTeams u)"
proof (cases op)
  case (OpAdd raw)
  then show ?thesis using add_refines [OF assms] by blast
next
  case (OpRemove raw)
  then show ?thesis using remove_refines [OF assms(1)] by blast
next
  case OpReset
  then show ?thesis by (simp add: ResetHandler_def ownArrays_def absTeams_def)
qed

text \<open>A slice that was handed out for the team \<open>k\<close>: only that team can share its array, and then is no shorter.\<close>

definition pinned :: "gostring \<Rightarrow> slice \<Rightarrow> UseCase \<Rightarrow> bool" where
  "pinned k s u \<longleftrightarrow> sl_len s = 0 \<or>
     sl_arr s < uc_next u \<and> (\<forall>k' t. uc_tms u k' = Some t \<longrightarrow> sl_cap (tm_Members t) > 0 \<longrightarrow> sl_arr (tm_Members t) = sl_arr s \<longrightarrow>
       k' = k \<and> sl_len s \<le> sl_len (tm_Members t))"

definition removesFrom :: "gostring \<Rightarrow> teamOp \<Rightarrow> bool" where
  "removesFrom k op = (case op of OpRemove raw \<Rightarrow> (case unmarshalRemoved raw of None \<Rightarrow> False | Some d \<Rightarrow> rm_TeamName d = k) | _ \<Rightarrow> False)"

lemma pinned_add:
  assumes "ownArrays u" and "\<And>n. n \<le> grow n"
    and pin: "sl_arr s < uc_next u"
      "\<And>k' t. uc_tms u k' = Some t \<Longrightarrow> sl_cap (tm_Members t) > 0 \<Longrightarrow> sl_arr (tm_Members t) = sl_arr s \<Longrightarrow> k' = k \<and> sl_len s \<le> sl_len (tm_Members t)"
  shows "pinned k s (applyOp grow (OpAdd raw) u) \<and> readSlice (uc_heap (applyOp grow (OpAdd raw) u)) s = readSlice (uc_heap u) s"
proof (cases "unmarshalAdd raw")
  case None
  then show ?thesis using pin by (simp add: AddMemberHandler_def pinned_def)
next
  case (Some d)
  obtain t s' h nx where st: "t = (case uc_tms u (am_TeamName d) of Some t \<Rightarrow> t | None \<Rightarrow> \<lparr>tm_Name = am_TeamName d, tm_Members = noMembers\<rparr>)"
    "okSlice u (tm_Members t)" "goAppend grow (am_Member d) (tm_Members t, uc_heap u, uc_next u) = (s', h, nx)"
    "applyOp grow (OpAdd raw) u = \<lparr>uc_tms = (uc_tms u)(am_TeamName d \<mapsto> t\<lparr>tm_Members := s'\<rparr>), uc_heap = h, uc_next = nx\<rparr>"
    "readSlice (uc_heap u) (tm_Members t) = membersOf (absTeams u) (am_TeamName d)"
    using add_step [OF assms(1,2) Some] by blast
  note g = goAppend_facts [OF st(2) assms(2) st(3)]
  have len: "sl_len (tm_Members t) \<le> sl_len s'" using st(3) by (auto simp: goAppend_def Let_def split: if_splits)
  have shared: "am_TeamName d = k \<and> sl_len s \<le> sl_len (tm_Members t) \<and> sl_cap (tm_Members t) > 0 \<and> sl_arr (tm_Members t) = sl_arr s"
    if "sl_arr s' = sl_arr s"
  proof -
    have c: "sl_cap (tm_Members t) > 0" "sl_arr (tm_Members t) = sl_arr s" using g(6) that pin(1) by auto
    then have "uc_tms u (am_TeamName d) = Some t" by (auto simp: st(1) noMembers_def split: option.splits)
    from pin(2) [OF this c] c show ?thesis by blast
  qed
  have "readSlice h s = readSlice (uc_heap u) s"
    using shared g(4) [of "sl_arr s"] g(7) [of "sl_len s"] by (cases "sl_arr s' = sl_arr s") (auto simp: readSlice_def)
  moreover have "k' = k \<and> sl_len s \<le> sl_len (tm_Members t')"
    if "((uc_tms u)(am_TeamName d \<mapsto> t\<lparr>tm_Members := s'\<rparr>)) k' = Some t'" "sl_cap (tm_Members t') > 0" "sl_arr (tm_Members t') = sl_arr s" for k' t'
  proof (cases "k' = am_TeamName d")
    case True
    then show ?thesis using that shared len by auto
  next
    case False
    then show ?thesis using pin(2) that by auto
  qed
  moreover have "sl_arr s < nx" using pin(1) g(2) by simp
  ultimately have "pinned k s (applyOp grow (OpAdd raw) u)" "readSlice h s = readSlice (uc_heap u) s"
    unfolding st(4) by (simp_all add: pinned_def)
  then show ?thesis unfolding st(4) by simp
qed

lemma pinned_remove:
  assumes "ownArrays u"
    and pin: "sl_arr s < uc_next u"
      "\<And>k' t. uc_tms u k' = Some t \<Longrightarrow> sl_cap (tm_Members t) > 0 \<Longrightarrow> sl_arr (tm_Members t) = sl_arr s \<Longrightarrow> k' = k \<and> sl_len s \<le> sl_len (tm_Members t)"
    and keep: "\<not> removesFrom k (OpRemove raw)"
  shows "pinned k s (applyOp grow (OpRemove raw) u) \<and> readSlice (uc_heap (applyOp grow (OpRemove raw) u)) s = readSlice (uc_heap u) s"
proof (cases "\<exists>d t. unmarshalRemoved raw = Some d \<and> uc_tms u (rm_TeamName d) = Some t")
  case False
  then show ?thesis using pin by (auto simp: RemoveMemberHandler_def pinned_def split: option.split)
next
  case True
  then obtain d t where d: "unmarshalRemoved raw = Some d" "uc_tms u (rm_TeamName d) = Some t" by blast
  obtain f h where st: "sl_arr f = sl_arr (tm_Members t)" "sl_cap f = sl_cap (tm_Members t)"
    "okSlice \<lparr>uc_tms = (uc_tms u)(rm_TeamName d \<mapsto> t\<lparr>tm_Members := f\<rparr>), uc_heap = h, uc_next = uc_next u\<rparr> f"
    "\<And>a. a \<noteq> sl_arr f \<or> sl_cap f = 0 \<Longrightarrow> h a = uc_heap u a"
    "applyOp grow (OpRemove raw) u = \<lparr>uc_tms = (uc_tms u)(rm_TeamName d \<mapsto> t\<lparr>tm_Members := f\<rparr>), uc_heap = h, uc_next = uc_next u\<rparr>"
    "readSlice h f = filter (\<lambda>m. mb_Username m \<noteq> rm_Username d) (readSlice (uc_heap u) (tm_Members t))"
    using remove_step [where grow = grow, OF assms(1) d] by blast
  have other: "sl_arr f \<noteq> sl_arr s \<or> sl_cap f = 0" using pin(2) [OF d(2)] st(1,2) keep by (auto simp: removesFrom_def d(1))
  then have "readSlice h s = readSlice (uc_heap u) s" using st(4) [of "sl_arr s"] by (auto simp: readSlice_def)
  moreover have "pinned k s (applyOp grow (OpRemove raw) u)" using pin other unfolding st(5) by (auto simp: pinned_def)
  ultimately show ?thesis unfolding st(5) by simp
qed

lemma pinned_step:
  assumes "ownArrays u" and "\<And>n. n \<le> grow n" and "pinned k s u" and "\<not> removesFrom k op"
  shows "pinned k s (applyOp grow op u) \<and> readSlice (uc_heap (applyOp grow op u)) s = readSlice (uc_heap u) s"
proof (cases "sl_len s = 0")
  case False
  then have pin: "sl_arr s < uc_next u"
    "\<And>k' t. uc_tms u k' = Some t \<Longrightarrow> sl_cap (tm_Members t) > 0 \<Longrightarrow> sl_arr (tm_Members t) = sl_arr s \<Longrightarrow> k' = k \<and> sl_len s \<le> sl_len (tm_Members t)"
    using assms(3) by (auto simp: pinned_def)
  show ?thesis
  proof (cases op)
    case (OpAdd raw)
    then show ?thesis using pinned_add [OF assms(1,2) pin] by blast
  next
    case (OpRemove raw)
    then show ?thesis using pinned_remove [OF assms(1) pin] assms(4) by blast
  next
    case OpReset
    then show ?thesis using pin by (simp add: ResetHandler_def pinned_def)
  qed
qed (simp add: pinned_def readSlice_def)

lemma run_refines:
  "ownArrays u \<Longrightarrow> (\<And>n. n \<le> grow n) \<Longrightarrow>
     ownArrays (fold (applyOp grow) ops u) \<and> absTeams (fold (applyOp grow) ops u) = fold specOp ops (absTeams u)"
  by (induction ops arbitrary: u) (simp_all add: op_refines)

lemma pinned_run:
  "ownArrays u \<Longrightarrow> (\<And>n. n \<le> grow n) \<Longrightarrow> pinned k s u \<Longrightarrow> (\<forall>op \<in> set ops. \<not> removesFrom k op) \<Longrightarrow>
     readSlice (uc_heap (fold (applyOp grow) ops u)) s = readSlice (uc_heap u) s"
  by (induction ops arbitrary: u) (simp_all add: op_refines pinned_step)

lemma pinned_team:
  assumes "ownArrays u" and "uc_tms u k = Some t"
  shows "pinned k (tm_Members t) u"
proof (cases "sl_cap (tm_Members t) = 0")
  case True
  then show ?thesis using own_ok [OF assms] by (simp add: pinned_def okSlice_def)
next
  case False
  have "k' = k \<and> sl_len (tm_Members t) \<le> sl_len (tm_Members t')"
    if "uc_tms u k' = Some t'" "sl_cap (tm_Members t') > 0" "sl_arr (tm_Members t') = sl_arr (tm_Members t)" for k' t'
  proof -
    have "k' = k" using own_apart [OF assms(1) that(1) assms(2)] that(2,3) False by blast
    then show ?thesis using that(1) assms(2) by simp
  qed
  then show ?thesis using own_ok [OF assms] False by (auto simp: pinned_def okSlice_def)
qed

section \<open>Payloads\<close>

text \<open>The payloads as a sender encodes them.\<close>

definition marshalMember :: "Member \<Rightarrow> bytes" where
  "marshalMember m = marshalObject [(''username'', quoteJSON (mb_Username m)), (''name'', quoteJSON (mb_Name m))]"

definition marshalAdd :: "AddMemberCommand \<Rightarrow> bytes" where
  "marshalAdd d = marshalObject [(''teamName'', quoteJSON (am_TeamName d)), (''member'', marshalMember (am_Member d))]"

definition marshalRemoved :: "RemovedMemberEvent \<Rightarrow> bytes" where
  "marshalRemoved d = marshalObject [(''teamName'', quoteJSON (rm_TeamName d)), (''username'', quoteJSON (rm_Username d))]"

lemma team_fields:
  "isField ''username'' ''username''" "\<not> isField ''username'' ''name''" "isField ''teamName'' ''teamName''" "\<not> isField ''teamName'' ''member''"
  "isField ''member'' ''member''" "\<not> isField ''teamName'' ''username''"
  by (simp_all add: isField_def folded_names foldName_ascii upperByte_def inRange_def char_of_eq_iff)

lemma isValue_member: "isValue (marshalMember m)"
  unfolding marshalMember_def isValue_def using skipValue_object [where d = "maxNestingDepth - 2"]
  by (simp add: skipValue_quote maxNestingDepth_def)

lemma member_decodes:
  "validUTF8 (mb_Username m) \<Longrightarrow> validUTF8 (mb_Name m) \<Longrightarrow> Option.bind (topMembers (marshalMember m)) (\<lambda>kvs. setFields setMember kvs x) = Some m"
  by (simp add: marshalMember_def topMembers_marshal decode_fields setMember_def team_fields)

lemma add_decodes:
  "validUTF8 (am_TeamName d) \<Longrightarrow> validUTF8 (mb_Username (am_Member d)) \<Longrightarrow> validUTF8 (mb_Name (am_Member d)) \<Longrightarrow> unmarshalAdd (marshalAdd d) = Some d"
  by (simp add: marshalAdd_def unmarshalAdd_def topMembers_marshal decode_fields setAdd_def team_fields isValue_member member_decodes)

lemma removed_decodes:
  "validUTF8 (rm_TeamName d) \<Longrightarrow> validUTF8 (rm_Username d) \<Longrightarrow> unmarshalRemoved (marshalRemoved d) = Some d"
  by (simp add: marshalRemoved_def unmarshalRemoved_def topMembers_marshal decode_fields setRemoved_def team_fields)

lemma text_decodes: "validUTF8 k \<Longrightarrow> unmarshalText (quoteJSON k) = Some k"
  using skipString_escape [of k "[]"] by (simp add: unmarshalText_def quoteJSON_def skipWs_def isSpace_def upto_def unquote_escape)

section \<open>Registration\<close>

lemma handlers_registered:
  "RegisterHandlers newHandlerRegistry = Inr (newHandlerRegistry\<lparr>
     eventHandlers := [''member-removed'' \<mapsto> RemoveMemberH, ''animals.#'' \<mapsto> AnimalEventH], cmdHandlers := [''add-member'' \<mapsto> AddMemberH],
     queryHandlers := [''get-teams'' \<mapsto> GetTeamsH, ''get-team-members'' \<mapsto> GetTeamH], notifHandlers := [''data-reset'' \<mapsto> ResetH]\<rparr>)"
  by (simp add: RegisterHandlers_def ifOk_def ServeQuery_def ListenCommand_def ListenEvent_def ListenNotification_def newHandlerRegistry_def
      HasWildcard_def)

section \<open>Properties\<close>

text \<open>The team service behaves like one that keeps its teams as plain lists, whatever commands, events and
  notifications it has handled and in whichever order their critical sections ran: a payload that cannot
  be decoded is reported and changes nothing, a member sent as JSON is added at the end of the named
  team, and a query gets the members of the team. The slice a query was answered with is read after
  the mutex was released; it keeps reading those members through every later command,
  notification and removal from another team.\<close>

theorem teams_refine:
  assumes grow: "\<And>n. n \<le> grow n"
    and valid: "validUTF8 k" "validUTF8 (mb_Username m)" "validUTF8 (mb_Name m)"
    and later: "\<forall>op \<in> set later. \<not> removesFrom k op"
    and u_def: "u = fold (applyOp grow) ops NewUseCase" and T_def: "T = fold specOp ops Map.empty"
  shows "absTeams u = T \<and>
    (fst (AddMemberHandler grow err raw u) = None \<longleftrightarrow> unmarshalAdd raw \<noteq> None) \<and>
    (fst (AddMemberHandler grow err raw u) \<noteq> None \<longrightarrow> snd (AddMemberHandler grow err raw u) = u) \<and>
    (fst (RemoveMemberHandler grow err raw u) = None \<longleftrightarrow> unmarshalRemoved raw \<noteq> None) \<and>
    (fst (RemoveMemberHandler grow err raw u) \<noteq> None \<longrightarrow> snd (RemoveMemberHandler grow err raw u) = u) \<and>
    absTeams (snd (AddMemberHandler grow err (marshalAdd \<lparr>am_TeamName = k, am_Member = m\<rparr>) u)) = T(k \<mapsto> membersOf T k @ [m]) \<and>
    (\<exists>s. GetTeamHandler err (quoteJSON k) u = Inr s \<and> readSlice (uc_heap u) s = membersOf T k \<and>
       readSlice (uc_heap (fold (applyOp grow) later u)) s = membersOf T k)"
proof -
  have "ownArrays NewUseCase" "absTeams NewUseCase = Map.empty" by (simp_all add: NewUseCase_def ownArrays_def absTeams_def)
  with run_refines [of NewUseCase grow ops] grow have u: "ownArrays u" "absTeams u = T" by (simp_all add: u_def T_def)
  let ?d = "\<lparr>am_TeamName = k, am_Member = m\<rparr>"
  have same: "snd (AddMemberHandler grow err (marshalAdd ?d) u) = applyOp grow (OpAdd (marshalAdd ?d)) u"
    using add_decodes [of ?d] valid by (simp add: AddMemberHandler_def Let_def)
  have add: "absTeams (snd (AddMemberHandler grow err (marshalAdd ?d) u)) = T(k \<mapsto> membersOf T k @ [m])"
    using op_refines [of u grow "OpAdd (marshalAdd ?d)"] u grow add_decodes [of ?d] valid unfolding same by simp
  have query: "\<exists>s. GetTeamHandler err (quoteJSON k) u = Inr s \<and> readSlice (uc_heap u) s = membersOf T k \<and> pinned k s u"
  proof (cases "uc_tms u k")
    case None
    then show ?thesis using text_decodes [OF valid(1)]
      by (simp add: GetTeamHandler_def pinned_def noMembers_def readSlice_def membersOf_def absTeams_def flip: u(2))
  next
    case (Some t)
    then show ?thesis using text_decodes [OF valid(1)] pinned_team [OF u(1) Some]
      by (simp add: GetTeamHandler_def membersOf_def absTeams_def flip: u(2))
  qed
  then obtain s where s: "GetTeamHandler err (quoteJSON k) u = Inr s" "readSlice (uc_heap u) s = membersOf T k" "pinned k s u" by blast
  have "readSlice (uc_heap (fold (applyOp grow) later u)) s = membersOf T k"
    using pinned_run [OF u(1) grow s(3) later] s(2) by simp
  then show ?thesis
    using u add s(1,2)
    by (simp add: AddMemberHandler_def RemoveMemberHandler_def Let_def split: option.split prod.split)
qed

definition exampleMember :: "gostring \<Rightarrow> Member" where
  "exampleMember n = \<lparr>mb_Username = n, mb_Name = n\<rparr>"

definition exampleAdds :: "teamOp list" where
  "exampleAdds = map (\<lambda>n. OpAdd (marshalAdd \<lparr>am_TeamName = ''t'', am_Member = exampleMember n\<rparr>)) [''a'', ''b'', ''c'']"

lemma exampleAdds_decode:
  "unmarshalAdd (marshalAdd \<lparr>am_TeamName = ''t'', am_Member = exampleMember [c]\<rparr>) = Some \<lparr>am_TeamName = ''t'', am_Member = exampleMember [c]\<rparr>"
  if "code c < 128"
  using that by (intro add_decodes) (simp_all add: exampleMember_def ascii_valid)

theorem teams_refine_witness:
  "absTeams (fold (applyOp (\<lambda>n. 2 * n)) exampleAdds NewUseCase) ''t'' = Some (map exampleMember [''a'', ''b'', ''c'']) \<and>
   (\<exists>s. GetTeamHandler id (quoteJSON ''t'') (fold (applyOp (\<lambda>n. 2 * n)) exampleAdds NewUseCase) = Inr s \<and>
      readSlice (uc_heap (fold (applyOp (\<lambda>n. 2 * n)) (exampleAdds @ OpReset # exampleAdds) (fold (applyOp (\<lambda>n. 2 * n)) exampleAdds NewUseCase))) s =
        map exampleMember [''a'', ''b'', ''c''])"
proof -
  have valid: "validUTF8 ''t''" "validUTF8 (mb_Username (exampleMember ''a''))" "validUTF8 (mb_Name (exampleMember ''a''))"
    by (simp_all add: exampleMember_def ascii_valid)
  have later: "\<forall>op \<in> set (exampleAdds @ OpReset # exampleAdds). \<not> removesFrom ''t'' op" by (auto simp: exampleAdds_def removesFrom_def)
  have "fold specOp exampleAdds Map.empty ''t'' = Some (map exampleMember [''a'', ''b'', ''c''])"
    by (simp add: exampleAdds_def exampleAdds_decode membersOf_def)
  then show ?thesis
    using teams_refine [where grow = "\<lambda>n. 2 * n" and ops = exampleAdds and err = id and raw = "[]", OF _ valid later refl refl] by (auto simp: membersOf_def)
qed

text \<open>Without that restriction the reply of a query can be a list that the team never had: removing a member
  overwrites the array that the query handed out before it is encoded.\<close>

theorem query_reply_torn:
  "let u = fold (applyOp (\<lambda>n. 2 * n)) exampleAdds NewUseCase;
       v = applyOp (\<lambda>n. 2 * n) (OpRemove (marshalRemoved \<lparr>rm_TeamName = ''t'', rm_Username = ''a''\<rparr>)) u
   in \<exists>s. GetTeamHandler id (quoteJSON ''t'') u = Inr s \<and>
        membersOf (absTeams u) ''t'' = map exampleMember [''a'', ''b'', ''c''] \<and>
        membersOf (absTeams v) ''t'' = map exampleMember [''b'', ''c''] \<and>
        readSlice (uc_heap v) s = map exampleMember [''b'', ''c'', ''c'']"
proof -
  have r: "unmarshalRemoved (marshalRemoved \<lparr>rm_TeamName = ''t'', rm_Username = ''a''\<rparr>) = Some \<lparr>rm_TeamName = ''t'', rm_Username = ''a''\<rparr>"
    by (intro removed_decodes) (simp_all add: ascii_valid)
  have t: "unmarshalText (quoteJSON ''t'') = Some ''t''" by (intro text_decodes) (simp add: ascii_valid)
  have u: "fold (applyOp (\<lambda>n. 2 * n)) exampleAdds NewUseCase =
      \<lparr>uc_tms = [''t'' \<mapsto> \<lparr>tm_Name = ''t'', tm_Members = \<lparr>sl_arr = 1, sl_len = 3, sl_cap = 6\<rparr>\<rparr>],
       uc_heap = (\<lambda>_. [])(0 := map exampleMember [''a'', ''b''], 1 := map exampleMember [''a'', ''b'', ''c''] @ replicate 3 zeroMember), uc_next = 2\<rparr>"
    by (simp add: exampleAdds_def AddMemberHandler_def exampleAdds_decode goAppend_def NewUseCase_def noMembers_def readSlice_def Let_def
        numeral_eq_Suc)
  have v: "applyOp (\<lambda>n. 2 * n) (OpRemove (marshalRemoved \<lparr>rm_TeamName = ''t'', rm_Username = ''a''\<rparr>)) (fold (applyOp (\<lambda>n. 2 * n)) exampleAdds NewUseCase) =
      \<lparr>uc_tms = [''t'' \<mapsto> \<lparr>tm_Name = ''t'', tm_Members = \<lparr>sl_arr = 1, sl_len = 2, sl_cap = 6\<rparr>\<rparr>],
       uc_heap = (\<lambda>_. [])(0 := map exampleMember [''a'', ''b''], 1 := map exampleMember [''b'', ''c'', ''c''] @ replicate 3 zeroMember), uc_next = 2\<rparr>"
    unfolding u by (simp add: RemoveMemberHandler_def r goAppend_def exampleMember_def upt_conv_Cons Let_def numeral_eq_Suc)
  show ?thesis
    unfolding Let_def v unfolding u by (simp add: GetTeamHandler_def t membersOf_def absTeams_def readSlice_def numeral_eq_Suc)
qed

end
