(* ===== verification/Example_Rest.thy ===== *)
theory Example_Rest
  imports Example_Teams Rabbit_Gateway RC_Array Rabbit_App "HOL-Library.Char_ord" "HOL-Library.List_Lexorder"
begin

text \<open>
  The REST client of \<^verbatim>\<open>examples/rabbitmq/async-sender-client\<close>: the routes of its HTTP server, the handlers, which
  turn a request into a message and the outcome into a response, and the decoding of the replies.
  \<open>err\<close> is the text of the JSON library's error for a text it rejects.
\<close>

section \<open>Replies\<close>

text \<open>
  A decoded slice of members: \<open>None\<close> is nil; the second list is what the array still holds beyond the
  length, since decoding into a slice again reuses its array.
\<close>

type_synonym memberSlice = "(Member list \<times> Member list) option"

fun decodeElems :: "bytes list \<Rightarrow> Member list \<Rightarrow> Member list option" where
  "decodeElems [] old = Some []"
| "decodeElems (v # vs) old =
     Option.bind (Option.bind (topMembers v) (\<lambda>kvs. setFields setMember kvs (case old of [] \<Rightarrow> zeroMember | m # _ \<Rightarrow> m)))
       (\<lambda>m. map_option ((#) m) (decodeElems vs (tl old)))"

definition decodeMembers :: "bytes \<Rightarrow> memberSlice \<Rightarrow> memberSlice option" where
  "decodeMembers v cur =
     (case topElements v of
        None \<Rightarrow> None
      | Some None \<Rightarrow> Some None
      | Some (Some []) \<Rightarrow> Some (Some ([], []))
      | Some (Some vs) \<Rightarrow>
          (let old = (case cur of None \<Rightarrow> [] | Some (ms, rest) \<Rightarrow> ms @ rest)
           in map_option (\<lambda>ms. Some (ms, drop (length ms) old)) (decodeElems vs old)))"

record TeamDoc =
  td_Name :: gostring
  td_Members :: memberSlice

definition setTeam :: "bytes \<times> bytes \<Rightarrow> TeamDoc \<Rightarrow> TeamDoc option" where
  "setTeam kv x =
     (case unquoteJSON (fst kv) of
        None \<Rightarrow> None
      | Some key \<Rightarrow>
          if isField ''name'' key then map_option (\<lambda>v. x\<lparr>td_Name := v\<rparr>) (storeString (snd kv) (td_Name x))
          else if isField ''members'' key then map_option (\<lambda>v. x\<lparr>td_Members := v\<rparr>) (decodeMembers (snd kv) (td_Members x))
          else Some x)"

text \<open>An entry of a map is decoded into a new value.\<close>

definition setEntry :: "bytes \<times> bytes \<Rightarrow> (gostring \<rightharpoonup> TeamDoc) \<Rightarrow> (gostring \<rightharpoonup> TeamDoc) option" where
  "setEntry kv m =
     (case unquoteJSON (fst kv) of
        None \<Rightarrow> None
      | Some key \<Rightarrow>
          map_option (\<lambda>t. m(key \<mapsto> t))
            (Option.bind (topMembers (snd kv)) (\<lambda>kvs. setFields setTeam kvs \<lparr>td_Name = [], td_Members = None\<rparr>)))"

definition isNull :: "bytes \<Rightarrow> bool" where
  "isNull body = (case skipWord ''null'' (skipWs body) of None \<Rightarrow> False | Some t \<Rightarrow> skipWs t = [])"

text \<open>\<^verbatim>\<open>json.Unmarshal\<close> into \<^verbatim>\<open>Teams\<close>, \<^verbatim>\<open>Members\<close> and \<^verbatim>\<open>Member\<close>; \<open>Some None\<close> is the nil map.\<close>

definition unmarshalTeams :: "bytes \<Rightarrow> (gostring \<rightharpoonup> TeamDoc) option option" where
  "unmarshalTeams body =
     (if isNull body then Some None
      else map_option Some (Option.bind (topMembers body) (\<lambda>kvs. setFields setEntry kvs Map.empty)))"

definition unmarshalMembers :: "bytes \<Rightarrow> memberSlice option" where
  "unmarshalMembers body = decodeMembers body None"

definition unmarshalMember :: "bytes \<Rightarrow> Member option" where
  "unmarshalMember body = Option.bind (topMembers body) (\<lambda>kvs. setFields setMember kvs zeroMember)"

text \<open>The encodings; the encoder sorts the keys of a map.\<close>

definition marshalMembers :: "Member list option \<Rightarrow> bytes" where
  "marshalMembers ms = (case ms of None \<Rightarrow> ''null'' | Some xs \<Rightarrow> marshalArray (map marshalMember xs))"

definition marshalTeam :: "gostring \<Rightarrow> Member list option \<Rightarrow> bytes" where
  "marshalTeam name ms = marshalObject [(''name'', quoteJSON name), (''members'', marshalMembers ms)]"

definition marshalTeams :: "gostring list \<Rightarrow> (gostring \<rightharpoonup> gostring \<times> Member list option) \<Rightarrow> bytes" where
  "marshalTeams ks m =
     marshalObject (map (\<lambda>k. (k, case m k of None \<Rightarrow> [] | Some (name, ms) \<Rightarrow> marshalTeam name ms)) (sort (rangeKeys m ks)))"

definition marshalAnimal :: "AnimalEvent \<Rightarrow> bytes" where
  "marshalAnimal a = marshalObject [(''name'', quoteJSON (ae_Name a)), (''type'', quoteJSON (ae_Type a))]"

text \<open>The payloads the client sends as \<^verbatim>\<open>any\<close>.\<close>

datatype payload = PText gostring | PAdd AddMemberCommand | PRemoved RemovedMemberEvent | PAnimal AnimalEvent

fun encPayload :: "payload \<Rightarrow> gostring + bytes" where
  "encPayload (PText s) = Inr (quoteJSON s)"
| "encPayload (PAdd d) = Inr (marshalAdd d)"
| "encPayload (PRemoved d) = Inr (marshalRemoved d)"
| "encPayload (PAnimal d) = Inr (marshalAnimal d)"

section \<open>HTTP\<close>

text \<open>
  A request with the unescaped segments of its cleaned path, the bytes of its body that arrive and the
  error that ends them, if any, and its context.
\<close>

record request =
  rq_Method :: gostring
  rq_Path :: "gostring list"
  rq_Body :: bytes
  rq_BodyErr :: "goerror option"
  rq_Ctx :: ctx

record response =
  rs_Status :: nat
  rs_Body :: bytes

text \<open>\<^verbatim>\<open>writeJSON\<close>: \<open>None\<close> is a nil body; the encoder ends the text with a newline and writes nothing when it fails.\<close>

definition writeJSON :: "nat \<Rightarrow> (gostring + bytes) option \<Rightarrow> response" where
  "writeJSON status body =
     \<lparr>rs_Status = status, rs_Body = (case body of Some (Inr b) \<Rightarrow> b @ [CHR 0x0A] | _ \<Rightarrow> [])\<rparr>"

text \<open>\<^verbatim>\<open>errors.Is\<close> against a sentinel follows wrapping and joining.\<close>

fun errorIs :: "(goerror \<Rightarrow> bool) \<Rightarrow> goerror \<Rightarrow> bool" where
  "errorIs p (Wrapped t e) = errorIs p e"
| "errorIs p (Joined es) = list_ex (errorIs p) es"
| "errorIs p e = p e"

fun isUnavailable :: "goerror \<Rightarrow> bool" where
  "isUnavailable (ErrBrokerUnavailable d) = True"
| "isUnavailable _ = False"

definition writeError :: "gostring \<Rightarrow> goerror \<Rightarrow> response" where
  "writeError op e =
     (let status = (if errorIs (\<lambda>x. x = CtxDeadlineExceeded) e \<or> errorIs (\<lambda>x. x = ErrQueryTimeout) e then 504
                    else if errorIs isUnavailable e then 503 else 500)
      in writeJSON status (Some (Inr (marshalObject [(''error'', quoteJSON (errorText e)), (''op'', quoteJSON op)]))))"

text \<open>\<^verbatim>\<open>io.ReadAll(http.MaxBytesReader(w, r.Body, 1<<20))\<close>.\<close>

definition readBody :: "request \<Rightarrow> goerror + bytes" where
  "readBody rq =
     (if length (rq_Body rq) > 2 ^ 20 then Inl (ErrOther ''http: request body too large'')
      else case rq_BodyErr rq of Some e \<Rightarrow> Inl e | None \<Rightarrow> Inr (rq_Body rq))"

section \<open>Handlers\<close>

text \<open>
  What a handler meets: the UUIDs it draws, the clock, the publisher, what happens to the reply router while
  a query waits (with the correlation id of the query), and the order in which the encoder visits a map.
\<close>

record surroundings =
  hx_uuid :: gostring
  hx_uuid2 :: gostring
  hx_correlation :: gostring
  hx_now :: int
  hx_send :: sendFn
  hx_meanwhile :: "publishing \<Rightarrow> routerSys \<Rightarrow> routerSys"
  hx_order :: "(gostring \<rightharpoonup> gostring \<times> Member list option) \<Rightarrow> gostring list"

definition requestTimeout :: duration where
  "requestTimeout = 10 * goSecond"

definition TargetAppName :: gostring where
  "TargetAppName = ''receiver''"

definition httpCtx :: "surroundings \<Rightarrow> request \<Rightarrow> ctx" where
  "httpCtx x rq = withTimeout (hx_now x) (rq_Ctx rq) requestTimeout"

type_synonym served = "response \<times> publishing list \<times> routerSys"

definition health :: "(Health \<Rightarrow> gostring + bytes) \<Rightarrow> Health \<Rightarrow> routerSys \<Rightarrow> served" where
  "health encHealth h rs = (writeJSON (if hl_Healthy h then 200 else 503) (Some (encHealth h)), [], rs)"

definition resetData :: "surroundings \<Rightarrow> gateway \<Rightarrow> request \<Rightarrow> routerSys \<Rightarrow> served" where
  "resetData x g rq rs =
     (let notification = \<lparr>n_Name = ''data-reset'', n_EventID = hx_uuid x, n_Data = PText []\<rparr>;
          (e, sent) = EmitNotification (marshalNotification encPayload) (hx_send x) (gw_cfg g) (httpCtx x rq) notification
      in case e of
           Some e' \<Rightarrow> (writeError ''emit data-reset notification'' e', sent, rs)
         | None \<Rightarrow> (writeJSON 200 (Some (marshalNotification encPayload notification)), sent, rs))"

text \<open>A query of the client; a nil reply is decoded like an empty text.\<close>

definition ask :: "surroundings \<Rightarrow> gateway \<Rightarrow> request \<Rightarrow> gostring \<Rightarrow> gostring \<Rightarrow> routerSys \<Rightarrow> (goerror + bytes) \<times> publishing list \<times> routerSys" where
  "ask x g rq resource data rs =
     (let (r, sent, rs') = RequestReply (marshalQuery encPayload) unmarshalError (hx_send x) (hx_meanwhile x) (hx_now x) (hx_correlation x) g
            (httpCtx x rq) \<lparr>q_Resource = resource, q_QueryData = PText data\<rparr> TargetAppName rs
      in (map_sum id (\<lambda>raw. case raw of None \<Rightarrow> [] | Some b \<Rightarrow> b) r, sent, rs'))"

definition getTeams :: "(bytes \<Rightarrow> gostring) \<Rightarrow> surroundings \<Rightarrow> gateway \<Rightarrow> request \<Rightarrow> routerSys \<Rightarrow> served" where
  "getTeams err x g rq rs =
     (let (r, sent, rs') = ask x g rq ''get-teams'' [] rs
      in (case r of
            Inl e \<Rightarrow> writeError ''query get-teams'' e
          | Inr raw \<Rightarrow>
              (case unmarshalTeams raw of
                 None \<Rightarrow> writeError ''decode get-teams reply'' (ErrOther (err raw))
               | Some None \<Rightarrow> writeJSON 200 (Some (Inr ''null''))
               | Some (Some teams) \<Rightarrow>
                   (let m = (\<lambda>k. map_option (\<lambda>t. (td_Name t, map_option fst (td_Members t))) (teams k))
                    in writeJSON 200 (Some (Inr (marshalTeams (hx_order x m) m))))), sent, rs'))"

definition getTeamMembers :: "(bytes \<Rightarrow> gostring) \<Rightarrow> surroundings \<Rightarrow> gateway \<Rightarrow> request \<Rightarrow> gostring \<Rightarrow> routerSys \<Rightarrow> served" where
  "getTeamMembers err x g rq team rs =
     (let (r, sent, rs') = ask x g rq ''get-team-members'' team rs
      in (case r of
            Inl e \<Rightarrow> writeError ''query get-team-members'' e
          | Inr raw \<Rightarrow>
              (case unmarshalMembers raw of
                 None \<Rightarrow> writeError ''decode get-team-members reply'' (ErrOther (err raw))
               | Some ms \<Rightarrow> writeJSON 200 (Some (Inr (marshalMembers (map_option fst ms))))), sent, rs'))"

definition addMember :: "(bytes \<Rightarrow> gostring) \<Rightarrow> surroundings \<Rightarrow> gateway \<Rightarrow> request \<Rightarrow> gostring \<Rightarrow> routerSys \<Rightarrow> served" where
  "addMember err x g rq team rs =
     (case readBody rq of
        Inl e \<Rightarrow> (writeError ''read request body'' e, [], rs)
      | Inr body \<Rightarrow>
          (case unmarshalMember body of
             None \<Rightarrow> (writeError ''decode member'' (ErrOther (err body)), [], rs)
           | Some member \<Rightarrow>
               (let cmd = \<lparr>cmd_Name = ''add-member'', cmd_CommandID = hx_uuid x, cmd_Data = PAdd \<lparr>am_TeamName = team, am_Member = member\<rparr>\<rparr>;
                    (e, sent) = SendCommand (marshalCommand encPayload) (hx_send x) g (httpCtx x rq) cmd TargetAppName
                in case e of
                     Some e' \<Rightarrow> (writeError ''send add-member command'' e', sent, rs)
                   | None \<Rightarrow> (writeJSON 200 (Some (marshalCommand encPayload cmd)), sent, rs))))"

definition removeMember :: "surroundings \<Rightarrow> gateway \<Rightarrow> request \<Rightarrow> gostring \<Rightarrow> gostring \<Rightarrow> routerSys \<Rightarrow> served" where
  "removeMember x g rq team member rs =
     (let event = \<lparr>ev_Name = ''member-removed'', ev_EventID = hx_uuid x, ev_Data = PRemoved \<lparr>rm_TeamName = team, rm_Username = member\<rparr>\<rparr>;
          (e, sent) = Emit (marshalEvent encPayload) (hx_send x) (gw_cfg g) (httpCtx x rq) event
      in case e of
           Some e' \<Rightarrow> (writeError ''emit member-removed event'' e', sent, rs)
         | None \<Rightarrow> (writeJSON 200 (Some (marshalEvent encPayload event)), sent, rs))"

definition wildCardEvent :: "surroundings \<Rightarrow> gateway \<Rightarrow> request \<Rightarrow> gostring \<Rightarrow> routerSys \<Rightarrow> served" where
  "wildCardEvent x g rq suffix rs =
     (let event = \<lparr>ev_Name = ''animals.'' @ suffix, ev_EventID = hx_uuid x, ev_Data = PAnimal \<lparr>ae_Name = hx_uuid2 x, ae_Type = ''dog''\<rparr>\<rparr>;
          (e, sent) = Emit (marshalEvent encPayload) (hx_send x) (gw_cfg g) (httpCtx x rq) event
      in case e of
           Some e' \<Rightarrow> (writeError ''emit animal event'' e', sent, rs)
         | None \<Rightarrow> (writeJSON 200 (Some (marshalEvent encPayload event)), sent, rs))"

section \<open>Routes\<close>

datatype segment = Lit gostring | Wild gostring

datatype endpoint = ResetData | GetTeams | GetTeamMembers | AddMember | RemoveMember | WildCardEvent | HealthCheck

text \<open>\<^verbatim>\<open>register\<close>. No two patterns match the same method and path.\<close>

definition routes :: "(gostring \<times> segment list \<times> endpoint) list" where
  "routes =
     [(''DELETE'', [Lit ''api'', Lit ''teams''], ResetData),
      (''GET'', [Lit ''api'', Lit ''teams''], GetTeams),
      (''GET'', [Lit ''api'', Lit ''teams'', Wild ''team''], GetTeamMembers),
      (''POST'', [Lit ''api'', Lit ''teams'', Wild ''team'', Lit ''members''], AddMember),
      (''DELETE'', [Lit ''api'', Lit ''teams'', Wild ''team'', Lit ''members'', Wild ''member''], RemoveMember),
      (''GET'', [Lit ''api'', Lit ''animals'', Wild ''event''], WildCardEvent),
      (''GET'', [Lit ''health''], HealthCheck)]"

fun segMatches :: "segment \<Rightarrow> gostring \<Rightarrow> bool" where
  "segMatches (Lit x) s = (x = s)"
| "segMatches (Wild n) s = (s \<noteq> [])"

text \<open>\<^verbatim>\<open>http.ServeMux\<close>: a pattern for GET also matches HEAD; a path that only other methods serve is a 405.\<close>

definition methodMatches :: "gostring \<Rightarrow> gostring \<Rightarrow> bool" where
  "methodMatches p m = (p = m \<or> p = ''GET'' \<and> m = ''HEAD'')"

fun pathValues :: "segment list \<Rightarrow> gostring list \<Rightarrow> (gostring \<times> gostring) list" where
  "pathValues (Wild n # ps) (s # ss) = (n, s) # pathValues ps ss"
| "pathValues (Lit x # ps) (s # ss) = pathValues ps ss"
| "pathValues _ _ = []"

definition PathValue :: "(gostring \<times> gostring) list \<Rightarrow> gostring \<Rightarrow> gostring" where
  "PathValue vals n = (case map_of vals n of None \<Rightarrow> [] | Some v \<Rightarrow> v)"

definition serveMux :: "request \<Rightarrow> response + endpoint \<times> (gostring \<times> gostring) list" where
  "serveMux rq =
     (case filter (\<lambda>(m, ps, e). list_all2 segMatches ps (rq_Path rq)) routes of
        [] \<Rightarrow> Inl \<lparr>rs_Status = 404, rs_Body = ''404 page not found'' @ [CHR 0x0A]\<rparr>
      | here \<Rightarrow>
          (case find (\<lambda>(m, ps, e). methodMatches m (rq_Method rq)) here of
             None \<Rightarrow> Inl \<lparr>rs_Status = 405, rs_Body = ''Method Not Allowed'' @ [CHR 0x0A]\<rparr>
           | Some (m, ps, e) \<Rightarrow> Inr (e, pathValues ps (rq_Path rq))))"

definition serveRequest :: "(bytes \<Rightarrow> gostring) \<Rightarrow> (Health \<Rightarrow> gostring + bytes) \<Rightarrow> Health \<Rightarrow> surroundings \<Rightarrow> gateway \<Rightarrow> request \<Rightarrow> routerSys \<Rightarrow> served" where
  "serveRequest err encHealth h x g rq rs =
     (case serveMux rq of
        Inl r \<Rightarrow> (r, [], rs)
      | Inr (e, vals) \<Rightarrow>
          (case e of
             ResetData \<Rightarrow> resetData x g rq rs
           | GetTeams \<Rightarrow> getTeams err x g rq rs
           | GetTeamMembers \<Rightarrow> getTeamMembers err x g rq (PathValue vals ''team'') rs
           | AddMember \<Rightarrow> addMember err x g rq (PathValue vals ''team'') rs
           | RemoveMember \<Rightarrow> removeMember x g rq (PathValue vals ''team'') (PathValue vals ''member'') rs
           | WildCardEvent \<Rightarrow> wildCardEvent x g rq (PathValue vals ''event'') rs
           | HealthCheck \<Rightarrow> health encHealth h rs))"

section \<open>Replies survive the round trip\<close>

lemma skipValue_member: "skipValue (Suc d) (marshalMember m) = Some []"
  unfolding marshalMember_def by (rule skipValue_object) (simp_all add: skipValue_quote)

lemma skipValue_members: "skipValue (Suc (Suc d)) (marshalMembers (Some ms)) = Some []"
  unfolding marshalMembers_def option.case by (rule skipValue_array) (auto simp: skipValue_member)

lemma isValue_team: "isValue (marshalTeam name (Some ms))"
proof -
  have "skipValue (Suc (Suc (Suc (maxNestingDepth - 4)))) (marshalTeam name (Some ms)) = Some []"
    unfolding marshalTeam_def by (rule skipValue_object) (simp_all add: skipValue_quote skipValue_members)
  then show ?thesis by (simp add: isValue_def maxNestingDepth_def)
qed

definition validMember :: "Member \<Rightarrow> bool" where
  "validMember m \<longleftrightarrow> validUTF8 (mb_Username m) \<and> validUTF8 (mb_Name m)"

lemma elems_decode: "list_all validMember ms \<Longrightarrow> decodeElems (map marshalMember ms) [] = Some ms"
  by (induction ms) (simp_all add: member_decodes validMember_def)

lemma members_decode: "list_all validMember ms \<Longrightarrow> decodeMembers (marshalMembers (Some ms)) None = Some (Some (ms, []))"
  using elems_decode [of ms] topElements_marshal [of "map marshalMember ms"]
  by (cases ms) (simp_all add: decodeMembers_def marshalMembers_def isValue_member)

lemma isValue_members: "isValue (marshalMembers (Some ms))"
  using skipValue_members [of "maxNestingDepth - 3"] by (simp add: isValue_def maxNestingDepth_def)

lemma team_decode:
  assumes "validUTF8 name" and "list_all validMember ms"
  shows "Option.bind (topMembers (marshalTeam name (Some ms))) (\<lambda>kvs. setFields setTeam kvs \<lparr>td_Name = [], td_Members = None\<rparr>) =
    Some \<lparr>td_Name = name, td_Members = Some (ms, [])\<rparr>"
proof -
  have f: "isField ''members'' ''members''" "\<not> isField ''name'' ''members''"
    by (simp_all add: isField_def folded_names foldName_ascii upperByte_def inRange_def char_of_eq_iff)
  show ?thesis
    using assms members_decode [OF assms(2)]
    by (simp add: marshalTeam_def topMembers_marshal decode_fields isValue_members setTeam_def f)
qed

lemma entries_decode:
  assumes "\<forall>k \<in> set ks. validUTF8 k \<and>
    Option.bind (topMembers (f k)) (\<lambda>kvs. setFields setTeam kvs \<lparr>td_Name = [], td_Members = None\<rparr>) = Some (t k)"
  shows "setFields setEntry (map (\<lambda>k. (escapeJSON k, f k)) ks) m = Some (\<lambda>k. if k \<in> set ks then Some (t k) else m k)"
  using assms
proof (induction ks arbitrary: m)
  case (Cons k ks)
  then show ?case by (auto simp: setEntry_def unquote_escape fun_eq_iff)
qed simp

text \<open>A map of teams as the decoder gives it back.\<close>

definition docOf :: "gostring \<times> Member list \<Rightarrow> TeamDoc" where
  "docOf t = \<lparr>td_Name = fst t, td_Members = Some (snd t, [])\<rparr>"

lemma teams_decode:
  assumes "keyOrder m ks" and "\<And>k t. m k = Some t \<Longrightarrow> validUTF8 k \<and> validUTF8 (fst t) \<and> list_all validMember (snd t)"
  shows "unmarshalTeams (marshalTeams ks (\<lambda>k. map_option (\<lambda>t. (fst t, Some (snd t))) (m k))) = Some (Some (\<lambda>k. map_option docOf (m k)))"
proof -
  let ?n = "\<lambda>k. map_option (\<lambda>t. (fst t, Some (snd t))) (m k)"
  let ?ks = "sort (rangeKeys ?n ks)" and ?f = "\<lambda>k. case ?n k of None \<Rightarrow> [] | Some (name, ms) \<Rightarrow> marshalTeam name ms"
  have ks: "set ?ks = dom m" using assms(1) by (auto simp: keyOrder_def rangeKeys_def)
  have notnull: "\<not> isNull (marshalObject kvs)" for kvs
    by (simp add: isNull_def marshalObject_def skipWs_def isSpace_def skipWord_def)
  have each: "validUTF8 k \<and> isValue (?f k) \<and>
      Option.bind (topMembers (?f k)) (\<lambda>kvs. setFields setTeam kvs \<lparr>td_Name = [], td_Members = None\<rparr>) = Some (docOf (the (m k)))"
    if k: "k \<in> set ?ks" for k
  proof -
    obtain t where t: "m k = Some t" using k ks by auto
    with assms(2) [OF t] show ?thesis by (simp add: isValue_team team_decode docOf_def)
  qed
  have "Option.bind (topMembers (marshalObject (map (\<lambda>k. (k, ?f k)) ?ks))) (\<lambda>kvs. setFields setEntry kvs Map.empty) =
      Some (\<lambda>k. if k \<in> set ?ks then Some (docOf (the (m k))) else None)"
  proof (cases "?ks = []")
    case True
    then show ?thesis by (simp add: topMembers_def marshalObject_def skipWs_def isSpace_def)
  next
    case False
    then have "topMembers (marshalObject (map (\<lambda>k. (k, ?f k)) ?ks)) = Some (map (\<lambda>k. (escapeJSON k, ?f k)) ?ks)"
      using topMembers_marshal [of "map (\<lambda>k. (k, ?f k)) ?ks"] each by (simp add: comp_def)
    then show ?thesis using entries_decode [of ?ks ?f "\<lambda>k. docOf (the (m k))" Map.empty] each by simp
  qed
  moreover have "(\<lambda>k. if k \<in> set ?ks then Some (docOf (the (m k))) else None) = (\<lambda>k. map_option docOf (m k))"
  proof
    show "(if k \<in> set ?ks then Some (docOf (the (m k))) else None) = map_option docOf (m k)" for k unfolding ks by (cases "m k") auto
  qed
  ultimately show ?thesis unfolding unmarshalTeams_def marshalTeams_def using notnull by simp
qed

end
