(* ===== verification/Example_Deployment.thy ===== *)
theory Example_Deployment
  imports Example_Rest Rabbit_Queries Rabbit_Notifications
begin

text \<open>
  The two example programs together: the REST client of \<^verbatim>\<open>examples/rabbitmq/async-sender-client\<close> and the team service of
  \<^verbatim>\<open>examples/rabbitmq/async-receiver-responder\<close> on one RabbitMQ broker, each request followed by the
  delivery of its message. The broker routes by the bindings that the two applications declare.
\<close>

section \<open>The two programs\<close>

text \<open>The configuration both \<^verbatim>\<open>main\<close> functions build, with their names.\<close>

definition mainConfig :: "objref \<Rightarrow> gostring \<Rightarrow> RabbitConfig" where
  "mainConfig logger name =
     (NewConfigWithDefaults logger)\<lparr>rc_AppName := name, rc_Logger := Some logger, rc_WithDLQRetry := True, rc_QueueType := ''quorum''\<rparr>"

definition receiverRegistry :: teamRegistry where
  "receiverRegistry = (case RegisterHandlers newHandlerRegistry of Inl e \<Rightarrow> newHandlerRegistry | Inr r \<Rightarrow> r)"

text \<open>
  A deployment: what the running service and the running client declared, the orders in which maps are
  visited, the growth of slices, the error texts of the JSON library and the health of the client.
\<close>

record deployment =
  dp_logger :: objref
  dp_receiver :: "(teamHandler, teamHandler, teamHandler, teamHandler) instance_"
  dp_events :: "gostring list"
  dp_commands :: "gostring list"
  dp_sender :: appNames
  dp_teamOrder :: "(gostring \<rightharpoonup> Team) \<Rightarrow> gostring list"
  dp_docOrder :: "(gostring \<rightharpoonup> gostring \<times> Member list option) \<Rightarrow> gostring list"
  dp_grow :: "nat \<Rightarrow> nat"
  dp_err :: "bytes \<Rightarrow> gostring"
  dp_health :: Health
  dp_encHealth :: "Health \<Rightarrow> gostring + bytes"

definition receiverPlan :: "deployment \<Rightarrow> amqpCall set" where
  "receiverPlan D = set (topologyPlan (in_app (dp_receiver D)))"

definition receiverCfg :: "deployment \<Rightarrow> Config" where
  "receiverCfg D = an_cfg (in_app (dp_receiver D))"

definition senderGateway :: "deployment \<Rightarrow> gateway" where
  "senderGateway D = withReplySupport (an_replyQueueName (dp_sender D)) (newGateway (an_cfg (dp_sender D)))"

section \<open>The service as a consumer\<close>

text \<open>A handler of a message without an answer; the two query handlers are not among them.\<close>

fun runHandler :: "deployment \<Rightarrow> teamHandler \<Rightarrow> bytes \<Rightarrow> UseCase \<Rightarrow> goerror option \<times> UseCase" where
  "runHandler D AddMemberH raw u = AddMemberHandler (dp_grow D) (dp_err D) raw u"
| "runHandler D RemoveMemberH raw u = RemoveMemberHandler (dp_grow D) (dp_err D) raw u"
| "runHandler D AnimalEventH raw u = (AnimalEventHandler (dp_err D) raw, u)"
| "runHandler D ResetH raw u = (None, ResetHandler u)"
| "runHandler D GetTeamsH raw u = (None, u)"
| "runHandler D GetTeamH raw u = (None, u)"

definition resultOf :: "goerror option \<Rightarrow> unit hresult" where
  "resultOf e = (case e of None \<Rightarrow> HOk () | Some e' \<Rightarrow> HErr e')"

definition eventLookup :: "deployment \<Rightarrow> gostring \<Rightarrow> teamHandler option" where
  "eventLookup D name = fst (EventHandler receiverRegistry (dp_events D) name)"

definition commandLookup :: "deployment \<Rightarrow> gostring \<Rightarrow> teamHandler option" where
  "commandLookup D name = fst (CommandHandler receiverRegistry (dp_commands D) name)"

definition notificationLookup :: "deployment \<Rightarrow> gostring \<Rightarrow> teamHandler option" where
  "notificationLookup D name = notifHandler (dp_receiver D) name"

text \<open>What the handler that a delivery is dispatched to makes of the state.\<close>

definition consume :: "deployment \<Rightarrow> (gostring \<Rightarrow> teamHandler option) \<Rightarrow> delivery \<Rightarrow> UseCase \<Rightarrow> UseCase" where
  "consume D lookup d u =
     (case jsonEnvelope (dp_err D) (d_Body d) of
        Inl e \<Rightarrow> u
      | Inr env \<Rightarrow> (case lookup (env_Name env) of None \<Rightarrow> u | Some h \<Rightarrow> snd (runHandler D h (env_Data env) u)))"

text \<open>The three consumers: the settlements of the delivery and the state after it.\<close>

definition onEvent :: "deployment \<Rightarrow> delivery \<Rightarrow> UseCase \<Rightarrow> settlement list \<times> UseCase" where
  "onEvent D d u =
     (eventDispatch (jsonEnvelope (dp_err D)) (receiverCfg D)
        (\<lambda>n. map_option (\<lambda>h ev. resultOf (fst (runHandler D h (ev_Data ev) u))) (eventLookup D n)) d,
      consume D (eventLookup D) d u)"

definition onCommand :: "deployment \<Rightarrow> delivery \<Rightarrow> UseCase \<Rightarrow> settlement list \<times> UseCase" where
  "onCommand D d u =
     (commandDispatch (jsonEnvelope (dp_err D)) (receiverCfg D)
        (\<lambda>n. map_option (\<lambda>h c. resultOf (fst (runHandler D h (cmd_Data c) u))) (commandLookup D n)) d,
      consume D (commandLookup D) d u)"

definition onNotification :: "deployment \<Rightarrow> delivery \<Rightarrow> UseCase \<Rightarrow> settlement list \<times> UseCase" where
  "onNotification D d u =
     (notificationDispatch (jsonEnvelope (dp_err D))
        (\<lambda>n. map_option (\<lambda>h m. resultOf (fst (runHandler D h (n_Data m) u))) (notificationLookup D n)) d,
      consume D (notificationLookup D) d u)"

text \<open>Every queue a message is routed to is consumed.\<close>

definition whenRouted :: "bool \<Rightarrow> (UseCase \<Rightarrow> settlement list \<times> UseCase) \<Rightarrow> settlement list \<times> UseCase \<Rightarrow> settlement list \<times> UseCase" where
  "whenRouted reaches f lu = (if reaches then (fst lu @ fst (f (snd lu)), snd (f (snd lu))) else lu)"

definition receive :: "deployment \<Rightarrow> publishing \<Rightarrow> settlement list \<times> UseCase \<Rightarrow> settlement list \<times> UseCase" where
  "receive D pb lu =
     whenRouted (directRouted (receiverPlan D) (commandsQueue (receiverCfg D)) pb) (onCommand D (toDelivery pb))
       (whenRouted (topicRouted (receiverPlan D) (an_notificationQueueName (in_app (dp_receiver D))) pb) (onNotification D (toDelivery pb))
          (whenRouted (topicRouted (receiverPlan D) (eventsQueue (receiverCfg D)) pb) (onEvent D (toDelivery pb)) lu))"

text \<open>The query handlers and the encoding of their answers, which are read when the reply is encoded.\<close>

datatype teamAnswer = TeamsA "gostring \<rightharpoonup> Team" | MembersA slice

definition runQuery :: "deployment \<Rightarrow> UseCase \<Rightarrow> teamHandler \<Rightarrow> teamAnswer option queryHandler" where
  "runQuery D u h q fr =
     (case h of
        GetTeamsH \<Rightarrow> HOk (Some (TeamsA (GetTeamsHandler (dp_teamOrder D (uc_tms u)) u)))
      | GetTeamH \<Rightarrow> (case GetTeamHandler (dp_err D) (q_QueryData q) u of Inl e \<Rightarrow> HErr e | Inr s \<Rightarrow> HOk (Some (MembersA s)))
      | _ \<Rightarrow> HOk None)"

definition teamDocs :: "heap \<Rightarrow> (gostring \<rightharpoonup> Team) \<Rightarrow> (gostring \<rightharpoonup> gostring \<times> Member list option)" where
  "teamDocs h m = (\<lambda>k. map_option (\<lambda>t. (tm_Name t, Some (readSlice h (tm_Members t)))) (m k))"

definition encAnswer :: "deployment \<Rightarrow> UseCase \<Rightarrow> teamAnswer \<Rightarrow> bytes" where
  "encAnswer D u a =
     (case a of
        TeamsA m \<Rightarrow> marshalTeams (dp_teamOrder D m) (teamDocs (uc_heap u) m)
      | MembersA s \<Rightarrow> marshalMembers (Some (readSlice (uc_heap u) s)))"

definition serveQuery :: "deployment \<Rightarrow> int \<Rightarrow> UseCase \<Rightarrow> delivery \<Rightarrow> settlement list \<times> publishing list" where
  "serveQuery D now u =
     queryDispatch (jsonEnvelope (dp_err D)) (\<lambda>a. Inr (encAnswer D u a)) (\<lambda>t. Inr (marshalError t)) (\<lambda>_. None)
       (newGateway (receiverCfg D)) now None (\<lambda>n. map_option (runQuery D u) (QueryHandler receiverRegistry n))"

definition answer :: "deployment \<Rightarrow> int \<Rightarrow> UseCase \<Rightarrow> publishing \<Rightarrow> settlement list \<times> publishing list" where
  "answer D now u pb =
     (if directRouted (receiverPlan D) (queriesQueue (receiverCfg D)) pb then serveQuery D now u (toDelivery pb) else ([], []))"

section \<open>A request and what follows\<close>

text \<open>
  The client serves the request while the service answers its query, and the service consumes the message
  it published. The result is the response, the settlements of the service and the two states.
\<close>

definition replyRouted :: "deployment \<Rightarrow> publishing \<Rightarrow> bool" where
  "replyRouted D r = directRouted (set (topologyPlan (dp_sender D))) (an_replyQueueName (dp_sender D)) r"

definition atWork :: "deployment \<Rightarrow> UseCase \<Rightarrow> surroundings \<Rightarrow> surroundings" where
  "atWork D u x =
     x\<lparr>hx_send := \<lambda>_. None, hx_order := dp_docOrder D,
       hx_meanwhile := \<lambda>pb rs. fold replyRoute (map toDelivery (filter (replyRouted D) (snd (answer D (hx_now x) u pb)))) rs\<rparr>"

definition httpStep :: "deployment \<Rightarrow> surroundings \<times> request \<Rightarrow> UseCase \<times> routerSys \<Rightarrow>
    (response \<times> settlement list) \<times> UseCase \<times> routerSys" where
  "httpStep D xr st =
     (case (xr, st) of ((x, rq), (u, rs)) \<Rightarrow>
        (let (resp, sent, rs') = serveRequest (dp_err D) (dp_encHealth D) (dp_health D) (atWork D u x) (senderGateway D) rq rs;
             (log, u') = fold (receive D) sent (concat (map (\<lambda>pb. fst (answer D (hx_now x) u pb)) sent), u)
         in ((resp, log), u', rs')))"

fun httpRun :: "deployment \<Rightarrow> (surroundings \<times> request) list \<Rightarrow> UseCase \<times> routerSys \<Rightarrow> (response \<times> settlement list) list \<times> UseCase \<times> routerSys" where
  "httpRun D [] st = ([], st)"
| "httpRun D (xr # xrs) st = (let (out, st') = httpStep D xr st; (outs, st'') = httpRun D xrs st' in (out # outs, st''))"

section \<open>The specification\<close>

text \<open>A web service that keeps the teams as plain lists and does what each endpoint says at once.\<close>

definition specTeams :: "teams \<Rightarrow> bytes" where
  "specTeams T = marshalTeams (sorted_list_of_set (dom T)) (\<lambda>k. map_option (\<lambda>ms. (k, Some ms)) (T k))"

definition specStep :: "deployment \<Rightarrow> surroundings \<times> request \<Rightarrow> teams \<Rightarrow> (response \<times> settlement list) \<times> teams" where
  "specStep D xr T =
     (case xr of (x, rq) \<Rightarrow>
       (case serveMux rq of
          Inl r \<Rightarrow> ((r, []), T)
        | Inr (e, vals) \<Rightarrow>
            (let team = PathValue vals ''team'' in
             case e of
               ResetData \<Rightarrow>
                 ((writeJSON 200 (Some (marshalNotification encPayload \<lparr>n_Name = ''data-reset'', n_EventID = hx_uuid x, n_Data = PText []\<rparr>)), []), Map.empty)
             | GetTeams \<Rightarrow> ((writeJSON 200 (Some (Inr (specTeams T))), [Ack]), T)
             | GetTeamMembers \<Rightarrow> ((writeJSON 200 (Some (Inr (marshalMembers (Some (membersOf T team))))), [Ack]), T)
             | AddMember \<Rightarrow>
                 (case readBody rq of
                    Inl e \<Rightarrow> ((writeError ''read request body'' e, []), T)
                  | Inr body \<Rightarrow>
                      (case unmarshalMember body of
                         None \<Rightarrow> ((writeError ''decode member'' (ErrOther (dp_err D body)), []), T)
                       | Some m \<Rightarrow>
                           ((writeJSON 200 (Some (marshalCommand encPayload \<lparr>cmd_Name = ''add-member'', cmd_CommandID = hx_uuid x,
                               cmd_Data = PAdd \<lparr>am_TeamName = team, am_Member = m\<rparr>\<rparr>)), [Ack]), T(team \<mapsto> membersOf T team @ [m]))))
             | RemoveMember \<Rightarrow>
                 ((writeJSON 200 (Some (marshalEvent encPayload \<lparr>ev_Name = ''member-removed'', ev_EventID = hx_uuid x,
                     ev_Data = PRemoved \<lparr>rm_TeamName = team, rm_Username = PathValue vals ''member''\<rparr>\<rparr>)), [Ack]),
                  (case T team of None \<Rightarrow> T | Some ms \<Rightarrow> T(team \<mapsto> filter (\<lambda>m. mb_Username m \<noteq> PathValue vals ''member'') ms)))
             | WildCardEvent \<Rightarrow>
                 ((writeJSON 200 (Some (marshalEvent encPayload \<lparr>ev_Name = ''animals.'' @ PathValue vals ''event'', ev_EventID = hx_uuid x,
                     ev_Data = PAnimal \<lparr>ae_Name = hx_uuid2 x, ae_Type = ''dog''\<rparr>\<rparr>)), [Nack False]), T)
             | HealthCheck \<Rightarrow> ((writeJSON (if hl_Healthy (dp_health D) then 200 else 503) (Some (dp_encHealth D (dp_health D))), []), T))))"

fun specRun :: "deployment \<Rightarrow> (surroundings \<times> request) list \<Rightarrow> teams \<Rightarrow> (response \<times> settlement list) list \<times> teams" where
  "specRun D [] T = ([], T)"
| "specRun D (xr # xrs) T = (let (out, T') = specStep D xr T; (outs, T'') = specRun D xrs T' in (out # outs, T''))"

section \<open>What the theorem relies on\<close>

text \<open>Both programs run: they were created with their configurations and declared what \<^verbatim>\<open>Start\<close> declares.\<close>

definition deployed :: "deployment \<Rightarrow> bool" where
  "deployed D \<longleftrightarrow>
     runs (dp_receiver D) \<and> in_reg (dp_receiver D) = receiverRegistry \<and>
     NewApplication (dp_logger D) (mainConfig (dp_logger D) ''receiver'') = Inr (receiverCfg D) \<and>
     NewApplication (dp_logger D) (mainConfig (dp_logger D) ''sender'') = Inr (an_cfg (dp_sender D)) \<and>
     (let a = in_app (dp_receiver D)
      in set (an_EventNames a) = dom (eventHandlers receiverRegistry) \<and> set (an_CommandNames a) = dom (cmdHandlers receiverRegistry) \<and>
         set (an_QueryNames a) = dom (queryHandlers receiverRegistry)) \<and>
     keyOrder (eventHandlers receiverRegistry) (dp_events D) \<and> keyOrder (cmdHandlers receiverRegistry) (dp_commands D) \<and>
     an_replyQueueName (dp_sender D) \<noteq> [] \<and>
     (\<forall>m. finite (dom m) \<longrightarrow> keyOrder m (dp_teamOrder D m)) \<and> (\<forall>m. finite (dom m) \<longrightarrow> keyOrder m (dp_docOrder D m)) \<and>
     (\<forall>n. n \<le> dp_grow D n)"

text \<open>A request with text that is valid UTF-8, and UUIDs as the library makes them.\<close>

definition wellFormed :: "surroundings \<times> request \<Rightarrow> bool" where
  "wellFormed xr \<longleftrightarrow> list_all validUTF8 (rq_Path (snd xr)) \<and> validUTF8 (hx_uuid (fst xr)) \<and> validUTF8 (hx_uuid2 (fst xr)) \<and> hx_correlation (fst xr) \<noteq> []"

section \<open>The deployment\<close>

lemma deployed_configs:
  assumes "deployed D"
  shows "AppName (receiverCfg D) = ''receiver''" "DomainEventsExchange (receiverCfg D) = ''domainEvents''"
    "DirectMessagesExchange (receiverCfg D) = ''directMessages''" "GlobalReplyExchange (receiverCfg D) = ''globalReply''" "WithDLQRetry (receiverCfg D)"
    "DomainEventsExchange (an_cfg (dp_sender D)) = ''domainEvents''"
    "DirectMessagesExchange (an_cfg (dp_sender D)) = ''directMessages''" "GlobalReplyExchange (an_cfg (dp_sender D)) = ''globalReply''"
  using assms
  by (auto simp: deployed_def NewApplication_def mainConfig_def NewConfigWithDefaults_def WithDefaults_def Validate_def orDefault_def
      toInternalConfig_def Let_def dest!: sym [where t = "receiverCfg D"] sym [where t = "an_cfg (dp_sender D)"] split: if_splits)

lemma registered_reach: "registryReach r \<Longrightarrow> RegisterHandlers r = Inr r' \<Longrightarrow> registryReach r'"
  by (simp add: RegisterHandlers_def ifOk_def split: sum.splits) (meson reach_step registryStep.intros)

lemma receiverRegistry_reach: "registryReach receiverRegistry"
  using registered_reach [OF reach_init handlers_registered] by (simp add: receiverRegistry_def handlers_registered)

lemma receiver_handlers:
  "eventHandlers receiverRegistry = [''member-removed'' \<mapsto> RemoveMemberH, ''animals.#'' \<mapsto> AnimalEventH]"
  "cmdHandlers receiverRegistry = [''add-member'' \<mapsto> AddMemberH]"
  "queryHandlers receiverRegistry = [''get-teams'' \<mapsto> GetTeamsH, ''get-team-members'' \<mapsto> GetTeamH]"
  "notifHandlers receiverRegistry = [''data-reset'' \<mapsto> ResetH]"
  by (simp_all add: receiverRegistry_def handlers_registered)

lemma matches_animals: "Matches (''animals.'' @ s) ''animals.#''"
  by (simp add: Matches_def HasWildcard_def separator_def wildcards)

lemma lookups:
  assumes "deployed D"
  shows "eventLookup D ''member-removed'' = Some RemoveMemberH" "eventLookup D (''animals.'' @ s) = Some AnimalEventH" "eventLookup D ''data-reset'' = None"
    "commandLookup D ''add-member'' = Some AddMemberH"
    "notificationLookup D ''data-reset'' = Some ResetH" "notificationLookup D ''member-removed'' = None" "notificationLookup D (''animals.'' @ s) = None"
proof -
  have D: "keyOrder (eventHandlers receiverRegistry) (dp_events D)" "keyOrder (cmdHandlers receiverRegistry) (dp_commands D)"
    "keyOrder (notifHandlers receiverRegistry) (in_order (dp_receiver D))" "in_reg (dp_receiver D) = receiverRegistry"
    using assms by (auto simp: deployed_def runs_def Let_def)
  note inv = rabbitRegistry.reach_inv [OF receiverRegistry_reach]
  have e: "resolves (eventHandlers receiverRegistry) n (eventLookup D n)" for n
    unfolding eventLookup_def by (rule rabbitEventLookup.lookup_resolves [OF inv D(1)])
  have c: "resolves (cmdHandlers receiverRegistry) n (commandLookup D n)" for n
    unfolding commandLookup_def by (rule rabbitCommandLookup.lookup_resolves [OF inv D(2)])
  have n: "resolves (notifHandlers receiverRegistry) n (notificationLookup D n)" for n
    unfolding notificationLookup_def notifHandler_def D(4) by (rule rabbitNotificationLookup.lookup_resolves [OF inv D(3)])
  show "eventLookup D ''member-removed'' = Some RemoveMemberH" "commandLookup D ''add-member'' = Some AddMemberH"
    "notificationLookup D ''data-reset'' = Some ResetH"
    using e [of "''member-removed''"] c [of "''add-member''"] n [of "''data-reset''"] by (simp_all add: receiver_handlers resolves_exact)
  have "\<not> Matches ''data-reset'' ''animals.#''" "\<not> Matches x ''member-removed''" "\<not> Matches x ''data-reset''" for x
    by (code_simp, simp_all add: Matches_def HasWildcard_def)
  then show "eventLookup D ''data-reset'' = None" "notificationLookup D ''member-removed'' = None" "notificationLookup D (''animals.'' @ s) = None"
    using resolves_None_iff [OF e] resolves_None_iff [OF n] by (auto simp: receiver_handlers)
  have "eventLookup D (''animals.'' @ s) \<noteq> None"
    using resolves_None_iff [OF e] matches_animals [of s] by (auto simp: receiver_handlers)
  then obtain h where h: "eventLookup D (''animals.'' @ s) = Some h" by blast
  from resolves_SomeD [of "eventHandlers receiverRegistry" "''animals.'' @ s" h] e [of "''animals.'' @ s"] h
  show "eventLookup D (''animals.'' @ s) = Some AnimalEventH"
    by (auto simp: receiver_handlers Matches_def HasWildcard_def split: if_splits)
qed

text \<open>Who is bound to the two exchanges the client publishes to.\<close>

lemma receiver_binds:
  assumes "deployed D"
  shows "QueueBind q k ''domainEvents'' \<in> receiverPlan D \<Longrightarrow> q = eventsQueue (receiverCfg D) \<or> q = an_notificationQueueName (in_app (dp_receiver D))"
    and "QueueBind q k ''directMessages'' \<in> receiverPlan D \<longleftrightarrow>
      q = commandsQueue (receiverCfg D) \<and> k = ''receiver'' \<or> q = queriesQueue (receiverCfg D) \<and> k = ''receiver.query''"
proof -
  let ?a = "in_app (dp_receiver D)"
  note cfg = deployed_configs(1-5) [OF assms, unfolded receiverCfg_def]
  have "set (an_CommandNames ?a) = dom (cmdHandlers receiverRegistry)" "set (an_QueryNames ?a) = dom (queryHandlers receiverRegistry)"
    using assms unfolding deployed_def Let_def by blast+
  moreover have "dom (cmdHandlers receiverRegistry) \<noteq> {}" "dom (queryHandlers receiverRegistry) \<noteq> {}" unfolding receiver_handlers by simp_all
  ultimately have names: "an_CommandNames ?a \<noteq> []" "an_QueryNames ?a \<noteq> []" by fastforce+
  have other: "EventsDLQExchange (an_cfg ?a) \<notin> {''domainEvents'', ''directMessages''}" "EventsRetryExchange (an_cfg ?a) \<notin> {''domainEvents'', ''directMessages''}"
    "DirectDLQExchange (an_cfg ?a) \<notin> {''domainEvents'', ''directMessages''}"
    by (simp_all add: EventsDLQExchange_def EventsRetryExchange_def DirectDLQExchange_def cfg)
  show "QueueBind q k ''domainEvents'' \<in> receiverPlan D \<Longrightarrow> q = eventsQueue (receiverCfg D) \<or> q = an_notificationQueueName ?a"
    using other by (auto simp: receiverPlan_def receiverCfg_def plan_bindings cfg Let_def)
  show "QueueBind q k ''directMessages'' \<in> receiverPlan D \<longleftrightarrow>
      q = commandsQueue (receiverCfg D) \<and> k = ''receiver'' \<or> q = queriesQueue (receiverCfg D) \<and> k = ''receiver.query''"
    using other by (auto simp: receiverPlan_def receiverCfg_def plan_bindings cfg names queriesQueue_def Let_def)
qed

lemma routed_domain:
  assumes "deployed D" and "pb_Exchange pb = ''domainEvents''"
  shows "topicRouted (receiverPlan D) (eventsQueue (receiverCfg D)) pb \<longleftrightarrow> eventLookup D (pb_RoutingKey pb) \<noteq> None"
    "topicRouted (receiverPlan D) (an_notificationQueueName (in_app (dp_receiver D))) pb \<longleftrightarrow> notificationLookup D (pb_RoutingKey pb) \<noteq> None"
    "\<not> directRouted (receiverPlan D) (commandsQueue (receiverCfg D)) pb" "\<not> directRouted (receiverPlan D) (queriesQueue (receiverCfg D)) pb"
proof -
  let ?a = "in_app (dp_receiver D)"
  have D: "runs (dp_receiver D)" "set (an_EventNames ?a) = dom (eventHandlers receiverRegistry)" "keyOrder (eventHandlers receiverRegistry) (dp_events D)"
    using assms(1) by (auto simp: deployed_def Let_def)
  note cfg = deployed_configs(1,2) [OF assms(1), unfolded receiverCfg_def]
  have q: "an_notificationQueueName ?a \<noteq> eventsQueue (an_cfg ?a)" "an_replyQueueName ?a \<noteq> eventsQueue (an_cfg ?a)"
    "an_notificationQueueName ?a \<noteq> commandsQueue (an_cfg ?a)" "an_notificationQueueName ?a \<noteq> queriesQueue (an_cfg ?a)"
    using D(1) by (auto simp: runs_def Let_def GenerateTempName_def eventsQueue_def commandsQueue_def queriesQueue_def)
  show "topicRouted (receiverPlan D) (eventsQueue (receiverCfg D)) pb \<longleftrightarrow> eventLookup D (pb_RoutingKey pb) \<noteq> None"
    unfolding receiverPlan_def receiverCfg_def eventLookup_def
    by (rule event_routed [OF receiverRegistry_reach D(3,2) q(1,2)]) (simp add: assms(2) cfg)
  show "topicRouted (receiverPlan D) (an_notificationQueueName ?a) pb \<longleftrightarrow> notificationLookup D (pb_RoutingKey pb) \<noteq> None"
    unfolding receiverPlan_def notificationLookup_def by (rule notification_routed [OF D(1)]) (simp add: assms(2) cfg)
  show "\<not> directRouted (receiverPlan D) (commandsQueue (receiverCfg D)) pb" "\<not> directRouted (receiverPlan D) (queriesQueue (receiverCfg D)) pb"
    using receiver_binds(1) [OF assms(1), of "commandsQueue (receiverCfg D)" "pb_RoutingKey pb"]
      receiver_binds(1) [OF assms(1), of "queriesQueue (receiverCfg D)" "pb_RoutingKey pb"] q(3,4)
    unfolding directRouted_def assms(2) by (auto simp: receiverCfg_def commandsQueue_def queriesQueue_def eventsQueue_def)
qed

lemma routed_direct:
  assumes "deployed D" and "pb_Exchange pb = ''directMessages''"
  shows "\<not> topicRouted (receiverPlan D) (eventsQueue (receiverCfg D)) pb"
    "\<not> topicRouted (receiverPlan D) (an_notificationQueueName (in_app (dp_receiver D))) pb"
    "directRouted (receiverPlan D) (commandsQueue (receiverCfg D)) pb \<longleftrightarrow> pb_RoutingKey pb = ''receiver''"
    "directRouted (receiverPlan D) (queriesQueue (receiverCfg D)) pb \<longleftrightarrow> pb_RoutingKey pb = ''receiver.query''"
proof -
  have q: "an_notificationQueueName (in_app (dp_receiver D)) \<noteq> commandsQueue (receiverCfg D)"
    "an_notificationQueueName (in_app (dp_receiver D)) \<noteq> queriesQueue (receiverCfg D)"
    using assms(1) by (auto simp: deployed_def runs_def Let_def GenerateTempName_def commandsQueue_def queriesQueue_def receiverCfg_def)
  show "\<not> topicRouted (receiverPlan D) (eventsQueue (receiverCfg D)) pb"
    using receiver_binds(2) [OF assms(1)] assms(2) by (auto simp: topicRouted_def commandsQueue_def queriesQueue_def eventsQueue_def)
  show "\<not> topicRouted (receiverPlan D) (an_notificationQueueName (in_app (dp_receiver D))) pb"
    using receiver_binds(2) [OF assms(1)] assms(2) q by (auto simp: topicRouted_def)
  show "directRouted (receiverPlan D) (commandsQueue (receiverCfg D)) pb \<longleftrightarrow> pb_RoutingKey pb = ''receiver''"
    "directRouted (receiverPlan D) (queriesQueue (receiverCfg D)) pb \<longleftrightarrow> pb_RoutingKey pb = ''receiver.query''"
    unfolding directRouted_def assms(2) receiver_binds(2) [OF assms(1)] by (auto simp: commandsQueue_def queriesQueue_def)
qed

section \<open>Deliveries\<close>

text \<open>A delivered body that decodes to the envelope of a named message.\<close>

definition carries :: "deployment \<Rightarrow> publishing \<Rightarrow> RawEnvelope \<Rightarrow> bool" where
  "carries D pb env \<longleftrightarrow> jsonEnvelope (dp_err D) (pb_Body pb) = Inr env"

lemmas consumers = onEvent_def onCommand_def onNotification_def consume_def eventDispatch_def commandDispatch_def notificationDispatch_def
  notificationOutcome_def dispatchEnvelope_def runEnvelopeHandler_def toDelivery_def resultOf_def settlementOf_def

lemma receive_event:
  assumes "deployed D" and "pb_Exchange pb = ''domainEvents''" and "carries D pb env" and "env_Name env = pb_RoutingKey pb"
    and "eventLookup D (pb_RoutingKey pb) = Some h" and "notificationLookup D (pb_RoutingKey pb) = None"
  shows "receive D pb (log, u) = (log @ [settlementOf (receiverCfg D) (resultOf (fst (runHandler D h (env_Data env) u)))], snd (runHandler D h (env_Data env) u))"
  using assms(3-6) by (simp add: receive_def whenRouted_def routed_domain [OF assms(1,2)] carries_def consumers Let_def split: option.split)

lemma receive_notification:
  assumes "deployed D" and "pb_Exchange pb = ''domainEvents''" and "carries D pb env" and "env_Name env = pb_RoutingKey pb"
    and "eventLookup D (pb_RoutingKey pb) = None" and "notificationLookup D (pb_RoutingKey pb) = Some h"
  shows "receive D pb (log, u) = (log, snd (runHandler D h (env_Data env) u))"
  using assms(3-6) by (simp add: receive_def whenRouted_def routed_domain [OF assms(1,2)] carries_def consumers Let_def split: option.split)

lemma receive_command:
  assumes "deployed D" and "pb_Exchange pb = ''directMessages''" and "pb_RoutingKey pb = ''receiver''" and "carries D pb env"
    and "commandLookup D (env_Name env) = Some h"
  shows "receive D pb (log, u) = (log @ [settlementOf (receiverCfg D) (resultOf (fst (runHandler D h (env_Data env) u)))], snd (runHandler D h (env_Data env) u))"
  using assms(3-5) by (simp add: receive_def whenRouted_def routed_direct [OF assms(1,2)] carries_def consumers Let_def split: option.split)

lemma receive_query:
  assumes "deployed D" and "pb_Exchange pb = ''directMessages''" and "pb_RoutingKey pb = ''receiver.query''"
  shows "receive D pb (log, u) = (log, u)"
  using assms(3) by (simp add: receive_def whenRouted_def routed_direct [OF assms(1,2)])

lemma no_answer:
  "deployed D \<Longrightarrow> pb_Exchange pb = ''domainEvents'' \<Longrightarrow> answer D now u pb = ([], [])"
  "deployed D \<Longrightarrow> pb_Exchange pb = ''directMessages'' \<Longrightarrow> pb_RoutingKey pb = ''receiver'' \<Longrightarrow> answer D now u pb = ([], [])"
  by (simp_all add: answer_def routed_domain routed_direct)

text \<open>What the client waits with matters only for the message it published.\<close>

lemma RequestReply_cong:
  assumes "RequestReply marshal em send mw now uuid g ctx query target rs = (r, [pb], rs')" and "\<And>rs. mw' pb rs = mw pb rs"
  shows "RequestReply marshal em send mw' now uuid g ctx query target rs = (r, [pb], rs')"
  using assms by (auto simp: RequestReply_def Let_def split: if_splits sum.splits option.splits prod.splits)

text \<open>A query of the client that the service answers: first the transport, then the handler's view of it.\<close>

lemma query_answered:
  assumes D: "deployed D" and x: "hx_correlation x \<noteq> []" "\<And>pb. hx_send x pb = None"
    and query: "validUTF8 resource" "QueryHandler receiverRegistry resource = Some h"
    and res: "\<And>fr. runQuery D u h \<lparr>q_Resource = resource, q_QueryData = quoteJSON data\<rparr> fr = HOk (Some a)"
  shows "\<exists>pb rs'. RequestReply (marshalQuery encPayload) unmarshalError (hx_send x)
        (\<lambda>pb rs. fold replyRoute (map toDelivery (snd (serveQuery D (hx_now x) u (toDelivery pb)))) rs) (hx_now x) (hx_correlation x) (senderGateway D)
        ctx \<lparr>q_Resource = resource, q_QueryData = PText data\<rparr> TargetAppName rs =
        (rabbitResult (encAnswer D u) (HOk (Some a)), [pb], rs') \<and>
      fst (serveQuery D (hx_now x) u (toDelivery pb)) = [Ack] \<and>
      (\<forall>r \<in> set (snd (serveQuery D (hx_now x) u (toDelivery pb))). replyRouted D r)"
proof -
  let ?g = "senderGateway D" and ?sg = "newGateway (receiverCfg D)" and ?q = "\<lparr>q_Resource = resource, q_QueryData = PText data\<rparr>" and
    ?lookup = "\<lambda>n. map_option (runQuery D u) (QueryHandler receiverRegistry n)" and
    ?env = "emptyEnvelope\<lparr>env_Resource := resource, env_QueryData := quoteJSON data\<rparr>" and
    ?serve = "serveQuery D (hx_now x) u" and ?res = "HOk (Some a) :: teamAnswer option hresult"
  obtain body where body: "marshalQuery encPayload ?q = Inr body" "unmarshalEnvelope body = Some ?env"
    using query_decodes [where enc = encPayload and q = ?q and v = "quoteJSON data"] query(1) by auto
  have wire: "jsonEnvelope (dp_err D) body = Inr ?env" "?lookup (env_Resource ?env) = Some (runQuery D u h)"
    using body(2) query(2) by (simp_all add: jsonEnvelope_def)
  have "set (an_QueryNames (in_app (dp_receiver D))) = dom (queryHandlers receiverRegistry)" using D unfolding deployed_def Let_def by blast
  then have names: "an_QueryNames (in_app (dp_receiver D)) \<noteq> []" using query(2) by (auto simp: QueryHandler_def)
  have g: "gw_replyQueue ?g \<noteq> []" "gw_hasRouter ?g" "an_cfg (dp_sender D) = gw_cfg ?g" "an_replyQueueName (dp_sender D) = gw_replyQueue ?g"
    using D by (simp_all add: deployed_def senderGateway_def withReplySupport_def newGateway_def)
  have sg: "an_cfg (in_app (dp_receiver D)) = gw_cfg ?sg" "gw_cfg ?sg = receiverCfg D" by (simp_all add: newGateway_def receiverCfg_def)
  have target: "AppName (gw_cfg ?sg) = TargetAppName" "DirectMessagesExchange (gw_cfg ?sg) = DirectMessagesExchange (gw_cfg ?g)"
    "GlobalReplyExchange (gw_cfg ?sg) = GlobalReplyExchange (gw_cfg ?g)"
    using deployed_configs [OF D] g(3) sg(2) by (simp_all add: TargetAppName_def)
  have codec: "unmarshalError (marshalError (errorText e)) = Some (errorText e)" if "?res = HErr e" for e using that by simp
  have res': "?res = runQuery D u h \<lparr>q_Resource = env_Resource ?env, q_QueryData = env_QueryData ?env\<rparr>
      \<lparr>CorrelationID = hx_correlation x, ReplyID = gw_replyQueue ?g\<rparr>" using res by simp
  have "\<exists>pb rs'. RequestReply (marshalQuery encPayload) unmarshalError (hx_send x)
        (\<lambda>pb rs. fold replyRoute (map toDelivery (snd (?serve (toDelivery pb)))) rs) (hx_now x) (hx_correlation x) ?g ctx ?q TargetAppName rs =
        (rabbitResult (encAnswer D u) ?res, [pb], rs') \<and> channels rs' (hx_correlation x) = None \<and>
      QueueBind (queriesQueue (gw_cfg ?sg)) (pb_RoutingKey pb) (pb_Exchange pb) \<in> set (topologyPlan (in_app (dp_receiver D))) \<and>
      fst (?serve (toDelivery pb)) = [case ?res of HPanic p \<Rightarrow> Nack (\<not> WithDLQRetry (gw_cfg ?sg)) | _ \<Rightarrow> Ack] \<and>
      (\<forall>r \<in> set (snd (?serve (toDelivery pb))). QueueBind (gw_replyQueue ?g) (pb_RoutingKey r) (pb_Exchange r) \<in> set (topologyPlan (dp_sender D)))"
    by (rule rabbit_query_transport [where marshal = "marshalQuery encPayload" and errorMessage = unmarshalError and encError = marshalError and
          unmarshal = "jsonEnvelope (dp_err D)" and lookup = ?lookup and h = "runQuery D u h" and env = ?env and body = body and send = "hx_send x" and
          enc = "encAnswer D u" and res = ?res and serve = ?serve])
      (fact g(1,2) x body(1) wire codec serveQuery_def res' g(3,4) sg(1) target names)+
  then show ?thesis unfolding replyRouted_def directRouted_def g(4) by auto
qed

lemma asked:
  assumes D: "deployed D" and x: "hx_correlation x \<noteq> []" "\<And>pb. hx_send x pb = None"
    "hx_meanwhile x = (\<lambda>pb rs. fold replyRoute (map toDelivery (filter (replyRouted D) (snd (answer D (hx_now x) u pb)))) rs)"
    and query: "validUTF8 resource" "QueryHandler receiverRegistry resource = Some h"
    and res: "\<And>fr. runQuery D u h \<lparr>q_Resource = resource, q_QueryData = quoteJSON data\<rparr> fr = HOk (Some a)"
  shows "\<exists>pb rs'. ask x (senderGateway D) rq resource data rs = (Inr (encAnswer D u a), [pb], rs') \<and>
    fst (answer D (hx_now x) u pb) = [Ack] \<and> receive D pb (log, u) = (log, u)"
proof -
  let ?g = "senderGateway D" and ?serve = "serveQuery D (hx_now x) u" and ?q = "\<lparr>q_Resource = resource, q_QueryData = PText data\<rparr>" and
    ?r = "rabbitResult (encAnswer D u) (HOk (Some a))"
  obtain pb rs' where pb: "RequestReply (marshalQuery encPayload) unmarshalError (hx_send x)
        (\<lambda>pb rs. fold replyRoute (map toDelivery (snd (?serve (toDelivery pb)))) rs) (hx_now x) (hx_correlation x) ?g (httpCtx x rq) ?q TargetAppName rs =
        (?r, [pb], rs')"
      "fst (?serve (toDelivery pb)) = [Ack]" "\<forall>r \<in> set (snd (?serve (toDelivery pb))). replyRouted D r"
    using query_answered [OF D x(1,2) query res] by blast
  have "pb_Exchange pb = DirectMessagesExchange (gw_cfg ?g) \<and> pb_RoutingKey pb = TargetAppName @ ''.query''"
    using pb(1) by (auto simp: RequestReply_def SendWithConfirm_def ToMessage_def x(2) Let_def split: if_splits prod.splits sum.splits)
  then have direct: "pb_Exchange pb = ''directMessages''" "pb_RoutingKey pb = ''receiver.query''"
    using deployed_configs [OF D] by (simp_all add: senderGateway_def withReplySupport_def newGateway_def TargetAppName_def)
  have ans: "answer D (hx_now x) u pb = ?serve (toDelivery pb)"
    by (simp add: answer_def routed_direct(4) [OF D direct(1)] direct(2))
  have "RequestReply (marshalQuery encPayload) unmarshalError (hx_send x) (hx_meanwhile x) (hx_now x) (hx_correlation x) ?g (httpCtx x rq) ?q TargetAppName rs =
        (?r, [pb], rs')"
    by (rule RequestReply_cong [OF pb(1)]) (use pb(3) in \<open>simp add: x(3) ans filter_id_conv\<close>)
  then have "ask x ?g rq resource data rs = (Inr (encAnswer D u a), [pb], rs')"
    by (simp add: ask_def rabbitResult_def)
  moreover have "fst (answer D (hx_now x) u pb) = [Ack]" using pb(2) ans by simp
  ultimately show ?thesis using receive_query [OF D direct] by blast
qed

section \<open>The state of the service\<close>

definition represents :: "UseCase \<Rightarrow> teams \<Rightarrow> bool" where
  "represents u T \<longleftrightarrow> ownArrays u \<and> absTeams u = T \<and> (\<forall>k t. uc_tms u k = Some t \<longrightarrow> tm_Name t = k) \<and> finite (dom T) \<and>
     (\<forall>k ms. T k = Some ms \<longrightarrow> validUTF8 k \<and> list_all validMember ms)"

lemma represents_empty: "represents NewUseCase Map.empty"
  by (simp add: represents_def NewUseCase_def ownArrays_def absTeams_def)

lemma decoded_member:
  assumes "unmarshalMember body = Some m"
  shows "validMember m"
proof -
  have field: "validMember y" if "setMember kv x = Some y" "validMember x" for kv x y
    using that by (auto simp: setMember_def validMember_def storeString_def split: option.splits if_splits list.splits dest: unquote_valid)
  have "validMember y" if "setFields setMember kvs x = Some y" "validMember x" for kvs x y
    using that by (induction kvs arbitrary: x) (auto split: option.splits dest: field)
  moreover have "validMember zeroMember" by (simp add: validMember_def zeroMember_def validUTF8.simps)
  ultimately show ?thesis using assms by (auto simp: unmarshalMember_def bind_eq_Some_conv)
qed

lemma named_step:
  "(\<forall>k t. uc_tms u k = Some t \<longrightarrow> tm_Name t = k) \<Longrightarrow> uc_tms (applyOp grow op u) k = Some t \<Longrightarrow> tm_Name t = k"
  by (cases op) (auto simp: AddMemberHandler_def RemoveMemberHandler_def ResetHandler_def Let_def split: option.splits prod.splits if_splits)

lemma represents_step:
  assumes "represents u T" and "\<And>n. n \<le> grow n" and "finite (dom (specOp op T))"
    and "\<And>k ms. specOp op T k = Some ms \<Longrightarrow> validUTF8 k \<and> list_all validMember ms"
  shows "represents (applyOp grow op u) (specOp op T)"
proof -
  have own: "ownArrays u" and abs: "absTeams u = T" and named: "\<forall>k t. uc_tms u k = Some t \<longrightarrow> tm_Name t = k"
    using assms(1) by (simp_all add: represents_def)
  show ?thesis
    using op_refines [OF own assms(2), of op] named_step [OF named, of grow op] assms(3,4) unfolding abs represents_def by blast
qed

text \<open>The handlers as operations; the text of an error does not touch the state.\<close>

lemma handler_ops:
  "snd (AddMemberHandler grow err raw u) = applyOp grow (OpAdd raw) u"
  "snd (RemoveMemberHandler grow err raw u) = applyOp grow (OpRemove raw) u"
  "fst (AddMemberHandler grow err raw u) = None \<longleftrightarrow> unmarshalAdd raw \<noteq> None"
  "fst (RemoveMemberHandler grow err raw u) = None \<longleftrightarrow> unmarshalRemoved raw \<noteq> None"
  by (simp_all add: AddMemberHandler_def RemoveMemberHandler_def Let_def split: option.split prod.split)

lemma add_represents:
  assumes "represents u T" and "\<And>n. n \<le> dp_grow D n" and "validUTF8 team" and "validMember m"
  shows "fst (runHandler D AddMemberH (marshalAdd \<lparr>am_TeamName = team, am_Member = m\<rparr>) u) = None"
    "represents (snd (runHandler D AddMemberH (marshalAdd \<lparr>am_TeamName = team, am_Member = m\<rparr>) u)) (T(team \<mapsto> membersOf T team @ [m]))"
proof -
  let ?d = "\<lparr>am_TeamName = team, am_Member = m\<rparr>"
  have d: "unmarshalAdd (marshalAdd ?d) = Some ?d" using assms(3,4) by (intro add_decodes) (simp_all add: validMember_def)
  have T: "finite (dom T)" "\<And>k ms. T k = Some ms \<Longrightarrow> validUTF8 k \<and> list_all validMember ms"
    using assms(1) by (simp_all add: represents_def)
  have spec: "specOp (OpAdd (marshalAdd ?d)) T = T(team \<mapsto> membersOf T team @ [m])" by (simp add: d)
  show "fst (runHandler D AddMemberH (marshalAdd ?d) u) = None" by (simp add: handler_ops d)
  have "validUTF8 k \<and> list_all validMember ms" if "(T(team \<mapsto> membersOf T team @ [m])) k = Some ms" for k ms
    using that T(2) assms(3,4) by (auto simp: membersOf_def split: if_splits option.splits)
  then show "represents (snd (runHandler D AddMemberH (marshalAdd ?d) u)) (T(team \<mapsto> membersOf T team @ [m]))"
    using represents_step [OF assms(1,2), of "OpAdd (marshalAdd ?d)"] T(1) unfolding spec by (simp add: handler_ops del: applyOp.simps)
qed

lemma remove_represents:
  assumes "represents u T" and "\<And>n. n \<le> dp_grow D n" and "validUTF8 team" and "validUTF8 name"
  shows "fst (runHandler D RemoveMemberH (marshalRemoved \<lparr>rm_TeamName = team, rm_Username = name\<rparr>) u) = None"
    "represents (snd (runHandler D RemoveMemberH (marshalRemoved \<lparr>rm_TeamName = team, rm_Username = name\<rparr>) u))
       (case T team of None \<Rightarrow> T | Some ms \<Rightarrow> T(team \<mapsto> filter (\<lambda>m. mb_Username m \<noteq> name) ms))"
proof -
  let ?d = "\<lparr>rm_TeamName = team, rm_Username = name\<rparr>" and ?T = "case T team of None \<Rightarrow> T | Some ms \<Rightarrow> T(team \<mapsto> filter (\<lambda>m. mb_Username m \<noteq> name) ms)"
  have d: "unmarshalRemoved (marshalRemoved ?d) = Some ?d" using assms(3,4) by (intro removed_decodes) simp_all
  have T: "finite (dom T)" "\<And>k ms. T k = Some ms \<Longrightarrow> validUTF8 k \<and> list_all validMember ms"
    using assms(1) by (simp_all add: represents_def)
  have spec: "specOp (OpRemove (marshalRemoved ?d)) T = ?T" by (simp add: d split: option.split)
  show "fst (runHandler D RemoveMemberH (marshalRemoved ?d) u) = None" by (simp add: handler_ops d)
  have "validUTF8 k \<and> list_all validMember ms" if "?T k = Some ms" for k ms
    using that T(2) assms(3,4) by (auto simp: list_all_iff split: if_splits option.splits)
  moreover have "finite (dom ?T)" using T(1) by (simp split: option.split)
  ultimately show "represents (snd (runHandler D RemoveMemberH (marshalRemoved ?d) u)) ?T"
    using represents_step [OF assms(1,2), of "OpRemove (marshalRemoved ?d)"] unfolding spec by (simp add: handler_ops del: applyOp.simps)
qed

lemma reset_represents: "represents u T \<Longrightarrow> represents (snd (runHandler D ResetH raw u)) Map.empty"
  using represents_step [of u T "\<lambda>n. n" OpReset] by simp

section \<open>Answers\<close>

lemma keyOrder_sorted:
  assumes "keyOrder m ks"
  shows "sort (rangeKeys m ks) = sorted_list_of_set (dom m)"
proof -
  have "set (rangeKeys m ks) = dom m" "distinct (rangeKeys m ks)" using assms by (auto simp: keyOrder_def rangeKeys_def)
  then show ?thesis using sorted_list_of_set_sort_remdups [of "rangeKeys m ks"] by (simp add: distinct_remdups_id)
qed

lemma marshalTeams_order: "keyOrder m ks \<Longrightarrow> finite (dom m) \<Longrightarrow> marshalTeams ks m = marshalTeams (sorted_list_of_set (dom m)) m"
  using keyOrder_sorted [of m ks] keyOrder_sorted [of m "sorted_list_of_set (dom m)"] by (simp add: marshalTeams_def keyOrder_def)

lemma docs_of_teams:
  assumes "represents u T"
  shows "teamDocs (uc_heap u) (uc_tms u) = (\<lambda>k. map_option (\<lambda>ms. (k, Some ms)) (T k))" "dom (uc_tms u) = dom T"
proof -
  have T: "T = absTeams u" and named: "\<And>k t. uc_tms u k = Some t \<Longrightarrow> tm_Name t = k" using assms by (auto simp: represents_def)
  show "teamDocs (uc_heap u) (uc_tms u) = (\<lambda>k. map_option (\<lambda>ms. (k, Some ms)) (T k))"
  proof
    show "teamDocs (uc_heap u) (uc_tms u) k = map_option (\<lambda>ms. (k, Some ms)) (T k)" for k
      using named [of k] by (cases "uc_tms u k") (simp_all add: teamDocs_def T absTeams_def)
  qed
  show "dom (uc_tms u) = dom T" by (auto simp: T absTeams_def dom_def)
qed

section \<open>Requests\<close>

text \<open>A request does what the specification says.\<close>

definition refinesAt :: "deployment \<Rightarrow> surroundings \<Rightarrow> request \<Rightarrow> UseCase \<Rightarrow> routerSys \<Rightarrow> teams \<Rightarrow> bool" where
  "refinesAt D x rq u rs T \<longleftrightarrow>
     (\<exists>u' rs'. httpStep D (x, rq) (u, rs) = (fst (specStep D (x, rq) T), u', rs') \<and> represents u' (snd (specStep D (x, rq) T)))"

lemma atWork_fields [simp]:
  "hx_uuid (atWork D u x) = hx_uuid x" "hx_uuid2 (atWork D u x) = hx_uuid2 x" "hx_correlation (atWork D u x) = hx_correlation x"
  "hx_now (atWork D u x) = hx_now x" "hx_send (atWork D u x) = (\<lambda>_. None)" "hx_order (atWork D u x) = dp_docOrder D"
  by (simp_all add: atWork_def)

text \<open>A handler that published nothing, or one message.\<close>

lemma quiet_step:
  assumes "serveRequest (dp_err D) (dp_encHealth D) (dp_health D) (atWork D u x) (senderGateway D) rq rs = (resp, [], rs)"
    and "specStep D (x, rq) T = ((resp, []), T)" and "represents u T"
  shows "refinesAt D x rq u rs T"
  using assms by (simp add: refinesAt_def httpStep_def)

lemma message_step:
  assumes "serveRequest (dp_err D) (dp_encHealth D) (dp_health D) (atWork D u x) (senderGateway D) rq rs = (resp, [pb], rs')"
    and "receive D pb (fst (answer D (hx_now x) u pb), u) = (log, u')"
    and "specStep D (x, rq) T = ((resp, log), T')" and "represents u' T'"
  shows "refinesAt D x rq u rs T"
  using assms by (simp add: refinesAt_def httpStep_def)

lemma step_reset:
  assumes D: "deployed D" and mux: "serveMux rq = Inr (ResetData, vals)" and valid: "validUTF8 (hx_uuid x)" and rep: "represents u T"
  shows "refinesAt D x rq u rs T"
proof -
  let ?n = "\<lparr>n_Name = ''data-reset'', n_EventID = hx_uuid x, n_Data = PText []\<rparr>" and ?x = "atWork D u x" and ?g = "senderGateway D"
  let ?env = "emptyEnvelope\<lparr>env_Name := ''data-reset'', env_EventID := hx_uuid x, env_Data := quoteJSON []\<rparr>"
  obtain body where body: "marshalNotification encPayload ?n = Inr body" "unmarshalEnvelope body = Some ?env"
    using notification_decodes [where enc = encPayload and n = ?n and v = "quoteJSON []"] valid by (auto simp: ascii_valid)
  let ?pb = "SendNoConfirm (httpCtx ?x rq) body (DomainEventsExchange (gw_cfg ?g)) ''data-reset'' [hdr_SourceApplication \<mapsto> HString (AppName (gw_cfg ?g))] False"
  have served: "serveRequest (dp_err D) (dp_encHealth D) (dp_health D) ?x ?g rq rs = (writeJSON 200 (Some (marshalNotification encPayload ?n)), [?pb], rs)"
    using mux body(1) by (simp add: serveRequest_def resetData_def EmitNotification_def ToMessage_def)
  have pb: "pb_Exchange ?pb = ''domainEvents''" "pb_RoutingKey ?pb = ''data-reset''" "carries D ?pb ?env"
    using deployed_configs [OF D] body(2)
    by (simp_all add: SendNoConfirm_def senderGateway_def withReplySupport_def newGateway_def carries_def jsonEnvelope_def)
  have "receive D ?pb (fst (answer D (hx_now x) u ?pb), u) = ([], snd (runHandler D ResetH (quoteJSON []) u))"
    using receive_notification [OF D pb(1) pb(3), of ResetH] lookups [OF D] pb(2) no_answer(1) [OF D pb(1)] by simp
  then show ?thesis
    using message_step [OF served, where T' = Map.empty] reset_represents [OF rep] mux by (simp add: specStep_def del: runHandler.simps)
qed

lemma isValue_add: "isValue (marshalAdd d)"
proof -
  have "skipValue (Suc (Suc (maxNestingDepth - 3))) (marshalAdd d) = Some []"
    unfolding marshalAdd_def by (rule skipValue_object) (simp_all add: skipValue_quote skipValue_member)
  then show ?thesis by (simp add: isValue_def maxNestingDepth_def)
qed

lemma isValue_flat: "isValue (marshalRemoved d)" "isValue (marshalAnimal a)"
  unfolding marshalRemoved_def marshalAnimal_def isValue_def using skipValue_object [where d = "maxNestingDepth - 2"]
  by (simp_all add: skipValue_quote maxNestingDepth_def)

lemma step_add:
  assumes D: "deployed D" and mux: "serveMux rq = Inr (AddMember, vals)" and valid: "validUTF8 (hx_uuid x)" "validUTF8 (PathValue vals ''team'')"
    and rep: "represents u T"
  shows "refinesAt D x rq u rs T"
proof (cases "\<exists>body m. readBody rq = Inr body \<and> unmarshalMember body = Some m")
  case False
  let ?resp = "case readBody rq of Inl e \<Rightarrow> writeError ''read request body'' e | Inr b \<Rightarrow> writeError ''decode member'' (ErrOther (dp_err D b))"
  from False show ?thesis
    using mux by (intro quiet_step [OF _ _ rep, where resp = ?resp])
      (auto simp: serveRequest_def addMember_def specStep_def Let_def split: sum.split option.split)
next
  case True
  then obtain raw m where m: "readBody rq = Inr raw" "unmarshalMember raw = Some m" by blast
  let ?d = "\<lparr>am_TeamName = PathValue vals ''team'', am_Member = m\<rparr>"
  let ?c = "\<lparr>cmd_Name = ''add-member'', cmd_CommandID = hx_uuid x, cmd_Data = PAdd ?d\<rparr>" and ?x = "atWork D u x" and ?g = "senderGateway D"
  let ?env = "emptyEnvelope\<lparr>env_Name := ''add-member'', env_CommandID := hx_uuid x, env_Data := marshalAdd ?d\<rparr>"
  obtain body where body: "marshalCommand encPayload ?c = Inr body" "unmarshalEnvelope body = Some ?env"
    using command_decodes [where enc = encPayload and cmd = ?c and v = "marshalAdd ?d"] valid by (auto simp: ascii_valid isValue_add)
  let ?pb = "SendWithConfirm (httpCtx ?x rq) body (DirectMessagesExchange (gw_cfg ?g)) TargetAppName [hdr_SourceApplication \<mapsto> HString (AppName (gw_cfg ?g))]
    (PersistentCommands (gw_cfg ?g))"
  have served: "serveRequest (dp_err D) (dp_encHealth D) (dp_health D) ?x ?g rq rs = (writeJSON 200 (Some (marshalCommand encPayload ?c)), [?pb], rs)"
    using mux m body(1) by (simp add: serveRequest_def addMember_def SendCommand_def ToMessage_def)
  have pb: "pb_Exchange ?pb = ''directMessages''" "pb_RoutingKey ?pb = ''receiver''" "carries D ?pb ?env"
    using deployed_configs [OF D] body(2)
    by (simp_all add: SendWithConfirm_def senderGateway_def withReplySupport_def newGateway_def carries_def jsonEnvelope_def TargetAppName_def)
  have grow: "\<And>n. n \<le> dp_grow D n" using D by (simp add: deployed_def)
  note add = add_represents [OF rep grow valid(2) decoded_member [OF m(2)]]
  have "receive D ?pb (fst (answer D (hx_now x) u ?pb), u) = ([Ack], snd (runHandler D AddMemberH (marshalAdd ?d) u))"
    using receive_command [OF D pb, of AddMemberH] lookups [OF D] no_answer(2) [OF D pb(1,2)] add(1)
    by (simp add: settlementOf_def resultOf_def del: runHandler.simps)
  then show ?thesis
    using message_step [OF served] add(2) mux m by (simp add: specStep_def Let_def del: runHandler.simps)
qed

text \<open>An event of the client, whose handler is \<open>h\<close>.\<close>

lemma event_step:
  assumes D: "deployed D"
    and served: "\<And>e sent. Emit (marshalEvent encPayload) (\<lambda>_. None) (gw_cfg (senderGateway D)) (httpCtx (atWork D u x) rq) ev = (e, sent) \<Longrightarrow> e = None \<Longrightarrow>
      serveRequest (dp_err D) (dp_encHealth D) (dp_health D) (atWork D u x) (senderGateway D) rq rs = (resp, sent, rs)"
    and event: "validUTF8 (ev_Name ev)" "validUTF8 (ev_EventID ev)" "encPayload (ev_Data ev) = Inr v" "isValue v"
    and found: "eventLookup D (ev_Name ev) = Some h" "notificationLookup D (ev_Name ev) = None"
    and spec: "specStep D (x, rq) T = ((resp, [settlementOf (receiverCfg D) (resultOf (fst (runHandler D h v u)))]), T')"
      "represents (snd (runHandler D h v u)) T'"
  shows "refinesAt D x rq u rs T"
proof -
  let ?g = "senderGateway D"
  let ?env = "emptyEnvelope\<lparr>env_Name := ev_Name ev, env_EventID := ev_EventID ev, env_Data := v\<rparr>"
  obtain body where body: "marshalEvent encPayload ev = Inr body" "unmarshalEnvelope body = Some ?env"
    using event_decodes [where enc = encPayload and ev = ev and v = v, OF event] by blast
  let ?pb = "SendWithConfirm (httpCtx (atWork D u x) rq) body (DomainEventsExchange (gw_cfg ?g)) (ev_Name ev) [hdr_SourceApplication \<mapsto> HString (AppName (gw_cfg ?g))]
    (PersistentEvents (gw_cfg ?g))"
  have req: "serveRequest (dp_err D) (dp_encHealth D) (dp_health D) (atWork D u x) ?g rq rs = (resp, [?pb], rs)"
    by (rule served [of None]) (simp_all add: Emit_def ToMessage_def body(1))
  have pb: "pb_Exchange ?pb = ''domainEvents''" "pb_RoutingKey ?pb = ev_Name ev" "carries D ?pb ?env"
    using deployed_configs [OF D] body(2)
    by (simp_all add: SendWithConfirm_def senderGateway_def withReplySupport_def newGateway_def carries_def jsonEnvelope_def)
  have "receive D ?pb (fst (answer D (hx_now x) u ?pb), u) =
      ([settlementOf (receiverCfg D) (resultOf (fst (runHandler D h v u)))], snd (runHandler D h v u))"
    using receive_event [OF D pb(1) pb(3), of h] found pb(2) no_answer(1) [OF D pb(1)] by (simp del: runHandler.simps)
  then show ?thesis using message_step [OF req] spec by blast
qed

lemma step_remove:
  assumes D: "deployed D" and mux: "serveMux rq = Inr (RemoveMember, vals)"
    and valid: "validUTF8 (hx_uuid x)" "validUTF8 (PathValue vals ''team'')" "validUTF8 (PathValue vals ''member'')" and rep: "represents u T"
  shows "refinesAt D x rq u rs T"
proof -
  let ?d = "\<lparr>rm_TeamName = PathValue vals ''team'', rm_Username = PathValue vals ''member''\<rparr>"
  let ?ev = "\<lparr>ev_Name = ''member-removed'', ev_EventID = hx_uuid x, ev_Data = PRemoved ?d\<rparr>"
  have grow: "\<And>n. n \<le> dp_grow D n" using D by (simp add: deployed_def)
  note rem = remove_represents [OF rep grow valid(2,3)]
  show ?thesis
  proof (rule event_step [OF D, where ev = ?ev and v = "marshalRemoved ?d" and h = RemoveMemberH and resp = "writeJSON 200 (Some (marshalEvent encPayload ?ev))"])
    show "specStep D (x, rq) T = ((writeJSON 200 (Some (marshalEvent encPayload ?ev)),
        [settlementOf (receiverCfg D) (resultOf (fst (runHandler D RemoveMemberH (marshalRemoved ?d) u)))]),
        case T (PathValue vals ''team'') of None \<Rightarrow> T
        | Some ms \<Rightarrow> T(PathValue vals ''team'' \<mapsto> filter (\<lambda>m. mb_Username m \<noteq> PathValue vals ''member'') ms))"
      using mux rem(1) by (simp add: specStep_def settlementOf_def resultOf_def Let_def del: runHandler.simps)
    show "represents (snd (runHandler D RemoveMemberH (marshalRemoved ?d) u)) (case T (PathValue vals ''team'') of None \<Rightarrow> T
        | Some ms \<Rightarrow> T(PathValue vals ''team'' \<mapsto> filter (\<lambda>m. mb_Username m \<noteq> PathValue vals ''member'') ms))" by (fact rem(2))
  qed (use mux valid lookups [OF D] isValue_flat in \<open>simp_all add: serveRequest_def removeMember_def ascii_valid\<close>)
qed

lemma step_animal:
  assumes D: "deployed D" and mux: "serveMux rq = Inr (WildCardEvent, vals)"
    and valid: "validUTF8 (hx_uuid x)" "validUTF8 (PathValue vals ''event'')" and rep: "represents u T"
  shows "refinesAt D x rq u rs T"
proof -
  let ?d = "\<lparr>ae_Name = hx_uuid2 x, ae_Type = ''dog''\<rparr>" and ?name = "''animals.'' @ PathValue vals ''event''"
  let ?ev = "\<lparr>ev_Name = ?name, ev_EventID = hx_uuid x, ev_Data = PAnimal ?d\<rparr>"
  have nack: "settlementOf (receiverCfg D) (resultOf (AnimalEventHandler (dp_err D) raw)) = Nack False" for raw
    using deployed_configs [OF D] by (simp add: settlementOf_def resultOf_def AnimalEventHandler_def split: option.split)
  show ?thesis
  proof (rule event_step [OF D, where ev = ?ev and v = "marshalAnimal ?d" and h = AnimalEventH and resp = "writeJSON 200 (Some (marshalEvent encPayload ?ev))"])
    show "validUTF8 (ev_Name ?ev)" using valid(2) by (simp add: ascii_Cons_valid)
    show "eventLookup D (ev_Name ?ev) = Some AnimalEventH" "notificationLookup D (ev_Name ?ev) = None"
      using lookups(2,7) [OF D, of "PathValue vals ''event''"] by simp_all
  qed (use mux valid rep nack isValue_flat in \<open>simp_all add: serveRequest_def wildCardEvent_def specStep_def Let_def\<close>)
qed

lemma step_members:
  assumes D: "deployed D" and mux: "serveMux rq = Inr (GetTeamMembers, vals)"
    and valid: "hx_correlation x \<noteq> []" "validUTF8 (PathValue vals ''team'')" and rep: "represents u T"
  shows "refinesAt D x rq u rs T"
proof -
  let ?team = "PathValue vals ''team''"
  have T: "absTeams u = T" "\<And>k ms. T k = Some ms \<Longrightarrow> list_all validMember ms" using rep by (auto simp: represents_def)
  obtain s where s: "GetTeamHandler (dp_err D) (quoteJSON ?team) u = Inr s" "readSlice (uc_heap u) s = membersOf T ?team"
    using text_decodes [OF valid(2)]
    by (cases "uc_tms u ?team") (auto simp: GetTeamHandler_def noMembers_def readSlice_def membersOf_def absTeams_def simp flip: T(1))
  have ms: "list_all validMember (membersOf T ?team)" using T(2) by (auto simp: membersOf_def split: option.split)
  obtain pb rs' where ask: "ask (atWork D u x) (senderGateway D) rq ''get-team-members'' ?team rs = (Inr (encAnswer D u (MembersA s)), [pb], rs')"
    "fst (answer D (hx_now x) u pb) = [Ack]" "receive D pb ([Ack], u) = ([Ack], u)"
    using asked [OF D, where x = "atWork D u x" and u = u and resource = "''get-team-members''" and h = GetTeamH and data = ?team and a = "MembersA s" and
        rq = rq and rs = rs and log = "[Ack]"] valid(1) s(1)
    by (auto simp: atWork_def ascii_valid QueryHandler_def receiver_handlers runQuery_def)
  have "serveRequest (dp_err D) (dp_encHealth D) (dp_health D) (atWork D u x) (senderGateway D) rq rs =
      (writeJSON 200 (Some (Inr (marshalMembers (Some (membersOf T ?team))))), [pb], rs')"
    using mux ask(1) members_decode [OF ms] s(2) by (simp add: serveRequest_def getTeamMembers_def encAnswer_def unmarshalMembers_def)
  from message_step [OF this] ask(2,3) mux rep show ?thesis by (simp add: specStep_def Let_def)
qed

lemma step_teams:
  assumes D: "deployed D" and mux: "serveMux rq = Inr (GetTeams, vals)" and valid: "hx_correlation x \<noteq> []" and rep: "represents u T"
  shows "refinesAt D x rq u rs T"
proof -
  let ?m = "\<lambda>k. map_option (\<lambda>ms. (k, ms)) (T k)" and ?n = "\<lambda>k. map_option (\<lambda>ms. (k, Some ms)) (T k)"
  have T: "finite (dom T)" "\<And>k ms. T k = Some ms \<Longrightarrow> validUTF8 k \<and> list_all validMember ms" using rep by (auto simp: represents_def)
  have dom: "dom ?m = dom T" "dom ?n = dom T" by (auto simp: dom_def)
  have order: "keyOrder (uc_tms u) (dp_teamOrder D (uc_tms u))" "keyOrder ?n (dp_docOrder D ?n)"
    using D T(1) dom docs_of_teams(2) [OF rep] by (auto simp: deployed_def)
  have copy: "GetTeamsHandler (dp_teamOrder D (uc_tms u)) u = uc_tms u"
    using order(1) by (auto simp: GetTeamsHandler_def foldl_upd keyOrder_def fun_eq_iff)
  have body: "encAnswer D u (TeamsA (uc_tms u)) = marshalTeams (dp_teamOrder D (uc_tms u)) ?n"
    by (simp add: encAnswer_def docs_of_teams(1) [OF rep])
  have "keyOrder ?m (dp_teamOrder D (uc_tms u))" "keyOrder ?n (dp_teamOrder D (uc_tms u))"
    using order(1) dom docs_of_teams(2) [OF rep] by (simp_all add: keyOrder_def)
  moreover have "?n = (\<lambda>k. map_option (\<lambda>t. (fst t, Some (snd t))) (?m k))" by (simp add: option.map_comp comp_def)
  ultimately have dec: "unmarshalTeams (encAnswer D u (TeamsA (uc_tms u))) = Some (Some (\<lambda>k. map_option docOf (?m k)))"
    using teams_decode [of ?m "dp_teamOrder D (uc_tms u)"] T(2) unfolding body by auto
  have docs: "(\<lambda>k. map_option (\<lambda>t. (td_Name t, map_option fst (td_Members t))) (map_option docOf (?m k))) = ?n"
    by (simp add: option.map_comp comp_def docOf_def)
  have spec: "marshalTeams (dp_docOrder D ?n) ?n = specTeams T"
    using marshalTeams_order [OF order(2)] T(1) by (simp add: specTeams_def dom(2))
  obtain pb rs' where ask: "ask (atWork D u x) (senderGateway D) rq ''get-teams'' [] rs = (Inr (encAnswer D u (TeamsA (uc_tms u))), [pb], rs')"
    "fst (answer D (hx_now x) u pb) = [Ack]" "receive D pb ([Ack], u) = ([Ack], u)"
    using asked [OF D, where x = "atWork D u x" and u = u and resource = "''get-teams''" and h = GetTeamsH and data = "[]" and a = "TeamsA (uc_tms u)" and
        rq = rq and rs = rs and log = "[Ack]"] valid copy
    by (auto simp: atWork_def ascii_valid QueryHandler_def receiver_handlers runQuery_def)
  have "serveRequest (dp_err D) (dp_encHealth D) (dp_health D) (atWork D u x) (senderGateway D) rq rs =
      (writeJSON 200 (Some (Inr (specTeams T))), [pb], rs')"
    using mux ask(1) dec by (simp add: serveRequest_def getTeams_def docs spec del: option.map_comp)
  from message_step [OF this] ask(2,3) mux rep show ?thesis by (simp add: specStep_def Let_def)
qed

lemma path_value_valid:
  assumes "list_all validUTF8 (rq_Path rq)" and "serveMux rq = Inr (e, vals)"
  shows "validUTF8 (PathValue vals n)"
proof -
  have "list_all validUTF8 ss \<Longrightarrow> \<forall>v \<in> set (pathValues ps ss). validUTF8 (snd v)" for ps ss
    by (induction ps ss rule: pathValues.induct) auto
  moreover obtain ps where "vals = pathValues ps (rq_Path rq)"
    using assms(2) by (auto simp: serveMux_def split: list.splits option.splits)
  ultimately have "\<forall>v \<in> set vals. validUTF8 (snd v)" using assms(1) by blast
  then show ?thesis by (fastforce simp: PathValue_def validUTF8.simps [of "[]"] split: option.split dest: map_of_SomeD)
qed

lemma step_refines:
  assumes "deployed D" and "wellFormed (x, rq)" and rep: "represents u T"
  shows "refinesAt D x rq u rs T"
proof (cases "serveMux rq")
  case (Inl r)
  then show ?thesis by (intro quiet_step [OF _ _ rep]) (simp_all add: serveRequest_def specStep_def)
next
  case (Inr p)
  then obtain e vals where mux: "serveMux rq = Inr (e, vals)" by (cases p) simp
  have valid: "validUTF8 (hx_uuid x)" "hx_correlation x \<noteq> []" "validUTF8 (PathValue vals n)" for n
    using assms(2) path_value_valid [OF _ mux] by (simp_all add: wellFormed_def)
  show ?thesis
  proof (cases e)
    case HealthCheck
    then show ?thesis using mux by (intro quiet_step [OF _ _ rep]) (simp_all add: serveRequest_def specStep_def health_def Let_def)
  next
    case ResetData
    with mux show ?thesis using step_reset [OF assms(1) _ valid(1) rep] by simp
  next
    case GetTeams
    with mux show ?thesis using step_teams [OF assms(1) _ valid(2) rep] by simp
  next
    case GetTeamMembers
    with mux show ?thesis using step_members [OF assms(1) _ valid(2,3) rep] by simp
  next
    case AddMember
    with mux show ?thesis using step_add [OF assms(1) _ valid(1,3) rep] by simp
  next
    case RemoveMember
    with mux show ?thesis using step_remove [OF assms(1) _ valid(1,3,3) rep] by simp
  next
    case WildCardEvent
    with mux show ?thesis using step_animal [OF assms(1) _ valid(1,3) rep] by simp
  qed
qed

section \<open>Properties\<close>

text \<open>C38: The REST client and the team service on one broker behave like a web service that keeps its teams as plain
  lists: whatever requests are made, each followed by the delivery of its message, every response has the
  status and the JSON text of the plain service (404 and 405 for the other paths and methods, 500 for a
  body that is too large or not a member), every message of the client is routed to the consumer it is
  meant for and settled once (the animal events, whose handler always fails, are dead-lettered; notifications
  are not settled), a GET returns the teams and members that the requests before it
  left, and the service holds the same teams at the end.\<close>

theorem teams_over_http:
  assumes "deployed D" and "\<forall>xr \<in> set xrs. wellFormed xr"
  shows "case httpRun D xrs (NewUseCase, rs) of (outs, u, rs') \<Rightarrow> specRun D xrs Map.empty = (outs, absTeams u)"
proof -
  have "\<exists>outs u' rs'. httpRun D xrs (u, rs) = (outs, u', rs') \<and> specRun D xrs T = (outs, absTeams u')"
    if "represents u T" "\<forall>xr \<in> set xrs. wellFormed xr" for u T rs
    using that
  proof (induction xrs arbitrary: u T rs)
    case Nil
    then show ?case by (simp add: represents_def)
  next
    case (Cons xr xrs)
    obtain x rq where xr: "xr = (x, rq)" by fastforce
    have "refinesAt D x rq u rs T" using step_refines [OF assms(1) _ Cons.prems(1)] Cons.prems(2) xr by simp
    then obtain u' rs' where "httpStep D xr (u, rs) = (fst (specStep D xr T), u', rs')" "represents u' (snd (specStep D xr T))"
      by (auto simp: refinesAt_def xr)
    with Cons.IH [of u' "snd (specStep D xr T)" rs'] Cons.prems(2) show ?case by (auto simp: case_prod_beta Let_def)
  qed
  from this [OF represents_empty assms(2), of rs] show ?thesis by auto
qed

text \<open>A deployment, and two requests: add a member, then ask for the team.\<close>

definition exampleReceiver :: "(teamHandler, teamHandler, teamHandler, teamHandler) instance_" where
  "exampleReceiver =
     \<lparr>in_app = \<lparr>an_cfg = toInternalConfig 0 (WithDefaults 0 (mainConfig 0 ''receiver'')), an_EventNames = [''animals.#'', ''member-removed''],
        an_CommandNames = [''add-member''], an_QueryNames = [''get-teams'', ''get-team-members''], an_NotificationNames = [''data-reset''],
        an_notificationQueueName = GenerateTempName [1] ''receiver'' ''notification'', an_replyQueueName = GenerateTempName [2] ''receiver'' ''replies''\<rparr>,
      in_reg = receiverRegistry, in_order = [''data-reset''], in_uuid = [1], in_replyUuid = [2]\<rparr>"

definition exampleDeployment :: deployment where
  "exampleDeployment =
     \<lparr>dp_logger = 0, dp_receiver = exampleReceiver, dp_events = [''member-removed'', ''animals.#''], dp_commands = [''add-member''],
      dp_sender = \<lparr>an_cfg = toInternalConfig 0 (WithDefaults 0 (mainConfig 0 ''sender'')), an_EventNames = [], an_CommandNames = [], an_QueryNames = [],
        an_NotificationNames = [], an_notificationQueueName = [], an_replyQueueName = GenerateTempName [3] ''sender'' ''replies''\<rparr>,
      dp_teamOrder = (\<lambda>m. sorted_list_of_set (dom m)), dp_docOrder = (\<lambda>m. sorted_list_of_set (dom m)), dp_grow = (\<lambda>n. 2 * n),
      dp_err = (\<lambda>_. ''syntax error''), dp_health = Health_of True None [], dp_encHealth = (\<lambda>_. Inr ''{}'')\<rparr>"

lemma exampleDeployment_deployed: "deployed exampleDeployment"
proof -
  have "runs exampleReceiver"
    using receiverRegistry_reach
    by (auto simp: runs_def exampleReceiver_def receiver_handlers keyOrder_def toInternalConfig_def WithDefaults_def mainConfig_def
        NewConfigWithDefaults_def Let_def)
  moreover have "NewApplication 0 (mainConfig 0 n) = Inr (toInternalConfig 0 (WithDefaults 0 (mainConfig 0 n)))" if "n \<noteq> []" for n
    using that by (simp add: NewApplication_def Validate_def WithDefaults_def mainConfig_def NewConfigWithDefaults_def orDefault_def Let_def)
  ultimately show ?thesis
    by (auto simp: deployed_def exampleDeployment_def exampleReceiver_def receiverCfg_def receiver_handlers keyOrder_def GenerateTempName_def Let_def)
qed

definition exampleRequest :: "gostring \<Rightarrow> gostring list \<Rightarrow> bytes \<Rightarrow> surroundings \<times> request" where
  "exampleRequest m path body =
     (\<lparr>hx_uuid = ''u-1'', hx_uuid2 = ''u-2'', hx_correlation = ''c-1'', hx_now = 0, hx_send = (\<lambda>_. None), hx_meanwhile = (\<lambda>_ rs. rs), hx_order = (\<lambda>_. [])\<rparr>,
      \<lparr>rq_Method = m, rq_Path = path, rq_Body = body, rq_BodyErr = None, rq_Ctx = None\<rparr>)"

theorem teams_over_http_witness:
  "case httpRun exampleDeployment
      [exampleRequest ''POST'' [''api'', ''teams'', ''t'', ''members''] (marshalMember (exampleMember ''a'')), exampleRequest ''GET'' [''api'', ''teams'', ''t''] []]
      (NewUseCase, NewReplyRouter) of
     (outs, u, rs') \<Rightarrow> outs ! 1 = (\<lparr>rs_Status = 200, rs_Body = marshalMembers (Some [exampleMember ''a'']) @ [CHR 0x0A]\<rparr>, [Ack]) \<and>
       absTeams u = [''t'' \<mapsto> [exampleMember ''a'']]"
proof -
  let ?post = "exampleRequest ''POST'' [''api'', ''teams'', ''t'', ''members''] (marshalMember (exampleMember ''a''))" and
    ?get = "exampleRequest ''GET'' [''api'', ''teams'', ''t''] []"
  have wf: "\<forall>xr \<in> set [?post, ?get]. wellFormed xr"
    by (simp add: wellFormed_def exampleRequest_def ascii_valid)
  have mux: "serveMux (snd ?post) = Inr (AddMember, [(''team'', ''t'')])" "serveMux (snd ?get) = Inr (GetTeamMembers, [(''team'', ''t'')])"
    by (simp_all add: serveMux_def exampleRequest_def routes_def methodMatches_def)
  have "length (marshalMember (exampleMember ''a'')) = 27" by code_simp
  then have read: "readBody (snd ?post) = Inr (marshalMember (exampleMember ''a''))"
    by (simp add: readBody_def exampleRequest_def)
  have dec: "unmarshalMember (marshalMember (exampleMember ''a'')) = Some (exampleMember ''a'')"
    unfolding unmarshalMember_def by (rule member_decodes) (simp_all add: exampleMember_def ascii_valid)
  have spec: "fst (specRun exampleDeployment [?post, ?get] Map.empty) ! 1 =
      (\<lparr>rs_Status = 200, rs_Body = marshalMembers (Some [exampleMember ''a'']) @ [CHR 0x0A]\<rparr>, [Ack])"
    "snd (specRun exampleDeployment [?post, ?get] Map.empty) = [''t'' \<mapsto> [exampleMember ''a'']]"
    using mux read dec
    by (simp_all add: specStep_def case_prod_beta PathValue_def membersOf_def writeJSON_def Let_def)
  show ?thesis
    using teams_over_http [OF exampleDeployment_deployed wf, of NewReplyRouter] spec by (auto split: prod.splits)
qed

end
