(* ===== verification/Example_Programs.thy ===== *)
theory Example_Programs
  imports Example_Deployment
begin

text \<open>
  The main functions of the example programs for RabbitMQ that decide something: the REST client
  (\<^verbatim>\<open>async-sender-client/main.go\<close>) and the two throughput benchmarks with their settings
  (\<^verbatim>\<open>benchmark-emit-event\<close>, \<^verbatim>\<open>benchmark-listen-event\<close>, \<^verbatim>\<open>internal/bench\<close>). A program is a function of what its
  select statements met; its value is the exit status, or \<open>None\<close> when it waits forever.
\<close>

section \<open>Waiting for the application\<close>

text \<open>
  The channel \<^verbatim>\<open>appErrCh\<close> gets one value, what \<^verbatim>\<open>Start\<close> returned; it is its contents, oldest first. Receiving
  from it when nothing is left blocks forever.
\<close>

type_synonym errChan = "goerror option list"

definition receiveErr :: "errChan \<Rightarrow> (goerror option \<times> errChan) option" where
  "receiveErr ch = (case ch of [] \<Rightarrow> None | e # rest \<Rightarrow> Some (e, rest))"

text \<open>The select of all three programs before they begin to work.\<close>

datatype startSelect = BecameReady | StoppedBeforeReady | InterruptedBeforeReady

section \<open>The REST client\<close>

datatype serveSelect = SignalReceived | HttpEnded "goerror option" | AppExited

definition senderMain :: "objref \<Rightarrow> startSelect \<Rightarrow> serveSelect \<Rightarrow> goerror option \<Rightarrow> nat option" where
  "senderMain logger start serve appErr =
     (case NewApplication logger (mainConfig logger ''sender'') of
        Inl e \<Rightarrow> Some 1
      | Inr cfg \<Rightarrow>
          (case start of
             StoppedBeforeReady \<Rightarrow> Some 1
           | InterruptedBeforeReady \<Rightarrow> map_option (\<lambda>_. 0) (receiveErr [appErr])
           | BecameReady \<Rightarrow>
               (let (appExited, ch) = (case serve of AppExited \<Rightarrow> (True, []) | _ \<Rightarrow> (False, [appErr]))
                in if appExited then Some 0
                   else map_option (\<lambda>(e, _). if e \<noteq> None then 1 else 0) (receiveErr ch))))"

section \<open>Settings of the benchmarks\<close>

text \<open>
  \<open>env\<close> is \<^verbatim>\<open>os.Getenv\<close>, empty for a variable that is not set; \<open>numErr\<close> the text of a \<^verbatim>\<open>strconv\<close> error. \<^verbatim>\<open>time.ParseDuration\<close>
  computes with floating point numbers and is the argument \<open>parseDuration\<close>.
\<close>

type_synonym environment = "gostring \<Rightarrow> gostring"

definition EnvString :: "environment \<Rightarrow> gostring \<Rightarrow> gostring \<Rightarrow> gostring" where
  "EnvString env key def = (if env key \<noteq> [] then env key else def)"

text \<open>The three parsers share the treatment of an unset variable and of an error.\<close>

definition envParse :: "(gostring \<Rightarrow> goerror + 'v) \<Rightarrow> environment \<Rightarrow> gostring \<Rightarrow> 'v \<Rightarrow> goerror + 'v" where
  "envParse parse env key def =
     (let raw = env key
      in if raw = [] then Inr def
         else case parse raw of Inl e \<Rightarrow> Inl (Wrapped (key @ ''='' @ goQuote raw) e) | Inr v \<Rightarrow> Inr v)"

definition EnvInt :: "(gostring \<Rightarrow> gostring) \<Rightarrow> environment \<Rightarrow> gostring \<Rightarrow> int \<Rightarrow> goerror + int" where
  "EnvInt numErr = envParse (\<lambda>raw. case parseInt64 raw of None \<Rightarrow> Inl (ErrOther (numErr raw)) | Some v \<Rightarrow> Inr v)"

definition ParseBool :: "gostring \<Rightarrow> bool option" where
  "ParseBool s =
     (if s \<in> {''1'', ''t'', ''T'', ''true'', ''TRUE'', ''True''} then Some True
      else if s \<in> {''0'', ''f'', ''F'', ''false'', ''FALSE'', ''False''} then Some False
      else None)"

definition EnvBool :: "(gostring \<Rightarrow> gostring) \<Rightarrow> environment \<Rightarrow> gostring \<Rightarrow> bool \<Rightarrow> goerror + bool" where
  "EnvBool numErr = envParse (\<lambda>raw. case ParseBool raw of None \<Rightarrow> Inl (ErrOther (numErr raw)) | Some v \<Rightarrow> Inr v)"

definition EnvDuration :: "(gostring \<Rightarrow> goerror + duration) \<Rightarrow> environment \<Rightarrow> gostring \<Rightarrow> duration \<Rightarrow> goerror + duration" where
  "EnvDuration parseDuration = envParse parseDuration"

definition bench_RabbitConfig :: "(gostring \<Rightarrow> gostring) \<Rightarrow> environment \<Rightarrow> objref \<Rightarrow> gostring \<Rightarrow> goerror + RabbitConfig" where
  "bench_RabbitConfig numErr env slogDefault appName =
     (let d = NewConfigWithDefaults slogDefault;
          cfg = d\<lparr>rc_AppName := appName, rc_Host := EnvString env ''RABBITMQ_HOST'' (rc_Host d),
                   rc_Username := EnvString env ''RABBITMQ_USERNAME'' (rc_Username d),
                   rc_Password := EnvString env ''RABBITMQ_PASSWORD'' (rc_Password d),
                   rc_VirtualHost := EnvString env ''RABBITMQ_VHOST'' (rc_VirtualHost d)\<rparr>
      in case EnvInt numErr env ''RABBITMQ_PORT'' (rc_Port cfg) of
           Inl e \<Rightarrow> Inl e
         | Inr port \<Rightarrow> Inr (cfg\<lparr>rc_Port := port\<rparr>))"

definition ValidateEventName :: "gostring \<Rightarrow> goerror option" where
  "ValidateEventName name =
     (if name = [] then Some (ErrOther ''event name must not be empty'')
      else if HasWildcard name then Some (ErrOther (''event name '' @ goQuote name @ '' must not contain wildcards (* or #)''))
      else None)"

text \<open>\<open>nanos\<close> is \<^verbatim>\<open>time.Now().UnixNano()\<close>.\<close>

definition AppNameWithRunSuffix :: "int \<Rightarrow> gostring \<Rightarrow> gostring" where
  "AppNameWithRunSuffix nanos base = base @ ''-'' @ formatInt nanos"

section \<open>The emitter\<close>

record emitSettings =
  es_duration :: duration
  es_publishers :: int
  es_sendTimeout :: duration
  es_event :: gostring
  es_cfg :: Config

definition goMinute :: duration where
  "goMinute = 60 * goSecond"

definition accepted :: "('v \<Rightarrow> bool) \<Rightarrow> goerror + 'v \<Rightarrow> 'v option" where
  "accepted ok r = (case r of Inl e \<Rightarrow> None | Inr v \<Rightarrow> if ok v then Some v else None)"

text \<open>The checks of \<^verbatim>\<open>run\<close> up to the application; \<open>None\<close> when one fails, which ends the program with status 1.\<close>

definition emitSetup :: "(gostring \<Rightarrow> gostring) \<Rightarrow> (gostring \<Rightarrow> goerror + duration) \<Rightarrow> environment \<Rightarrow> objref \<Rightarrow> emitSettings option" where
  "emitSetup numErr parseDuration env logger =
     Option.bind (accepted (\<lambda>d. d > 0) (EnvDuration parseDuration env ''BENCH_DURATION'' (5 * goMinute))) (\<lambda>dur.
     Option.bind (accepted (\<lambda>n. n \<ge> 1) (EnvInt numErr env ''BENCH_PUBLISHERS'' 16)) (\<lambda>publishers.
     Option.bind (accepted (\<lambda>d. d > 0) (EnvDuration parseDuration env ''BENCH_SEND_TIMEOUT'' (10 * goSecond))) (\<lambda>sendTimeout.
     Option.bind (accepted (\<lambda>_. True) (EnvBool numErr env ''BENCH_PERSISTENT'' True)) (\<lambda>persistent.
     (let eventName = EnvString env ''BENCH_EVENT_NAME'' ''benchmark.event''
      in if ValidateEventName eventName \<noteq> None then None
         else
           Option.bind (accepted (\<lambda>_. True) (bench_RabbitConfig numErr env logger (EnvString env ''BENCH_APP_NAME'' ''bench-emitter''))) (\<lambda>cfg.
           map_option (\<lambda>c. \<lparr>es_duration = dur, es_publishers = publishers, es_sendTimeout = sendTimeout, es_event = eventName, es_cfg = c\<rparr>)
             (accepted (\<lambda>_. True) (NewApplication logger (cfg\<lparr>rc_PersistentEvents := persistent, rc_Logger := Some logger\<rparr>)))))))))"

text \<open>
  A round of a publishing goroutine: the run has ended; the event was sent; the send failed, and the run had ended
  by then, or ended during the pause that follows, or the pause was slept out. The counters are
  \<^verbatim>\<open>atomic.Uint64\<close> that all goroutines share.
\<close>

datatype sendRound = RunEnded | Sent | FailedAtEnd goerror | FailedThenEnded goerror | FailedThenPaused goerror

abbreviation incr64 :: "nat \<Rightarrow> nat" where
  "incr64 n \<equiv> (n + 1) mod 2 ^ 64"

fun publishLoop :: "sendRound list \<Rightarrow> nat \<times> nat \<Rightarrow> nat \<times> nat" where
  "publishLoop [] c = c"
| "publishLoop (RunEnded # rs) c = c"
| "publishLoop (Sent # rs) c = publishLoop rs (incr64 (fst c), snd c)"
| "publishLoop (FailedAtEnd e # rs) c = c"
| "publishLoop (FailedThenEnded e # rs) c = (fst c, incr64 (snd c))"
| "publishLoop (FailedThenPaused e # rs) c = publishLoop rs (fst c, incr64 (snd c))"

datatype waitSelect = WorkersDone | AppStopped

text \<open>An error of the application that is not the cancellation ends the program with status 1.\<close>

definition failedApp :: "goerror option \<Rightarrow> bool" where
  "failedApp e = (case e of None \<Rightarrow> False | Some e' \<Rightarrow> \<not> errorIs (\<lambda>x. x = CtxCanceled) e')"

text \<open>\<^verbatim>\<open>if startErr == nil { startErr = <-appErrCh }\<close>.\<close>

definition finalErr :: "goerror option \<Rightarrow> errChan \<Rightarrow> goerror option option" where
  "finalErr startErr ch = (if startErr = None then map_option fst (receiveErr ch) else Some startErr)"

definition emitRun :: "emitSettings option \<Rightarrow> startSelect \<Rightarrow> waitSelect \<Rightarrow> sendRound list list \<Rightarrow> goerror option \<Rightarrow> nat option" where
  "emitRun settings start wait workers appErr =
     (case settings of
        None \<Rightarrow> Some 1
      | Some es \<Rightarrow>
          (case start of
             StoppedBeforeReady \<Rightarrow> Some 1
           | InterruptedBeforeReady \<Rightarrow> map_option (\<lambda>_. 1) (receiveErr [appErr])
           | BecameReady \<Rightarrow>
               (let (startErr, ch) = (case wait of WorkersDone \<Rightarrow> (None, [appErr]) | AppStopped \<Rightarrow> (appErr, []));
                    (ok, failures) = fold publishLoop workers (0, 0)
                in map_option (\<lambda>e. if failedApp e then 1 else if ok = 0 then 1 else 0) (finalErr startErr ch))))"

section \<open>The listener\<close>

record listenSettings =
  ls_duration :: duration
  ls_startTimeout :: duration
  ls_event :: gostring
  ls_cfg :: Config

definition listenSetup :: "(gostring \<Rightarrow> gostring) \<Rightarrow> (gostring \<Rightarrow> goerror + duration) \<Rightarrow> environment \<Rightarrow> objref \<Rightarrow> int \<Rightarrow> listenSettings option" where
  "listenSetup numErr parseDuration env logger nanos =
     Option.bind (accepted (\<lambda>d. d > 0) (EnvDuration parseDuration env ''BENCH_DURATION'' (5 * goMinute))) (\<lambda>dur.
     Option.bind (accepted (\<lambda>n. n > 0) (EnvInt numErr env ''BENCH_PREFETCH'' 250)) (\<lambda>prefetch.
     Option.bind (accepted (\<lambda>d. d > 0) (EnvDuration parseDuration env ''BENCH_START_TIMEOUT'' (2 * goMinute))) (\<lambda>startTimeout.
     (let eventName = EnvString env ''BENCH_EVENT_NAME'' ''benchmark.event'';
          appName = AppNameWithRunSuffix nanos (EnvString env ''BENCH_APP_NAME'' ''bench-listener'')
      in if ValidateEventName eventName \<noteq> None then None
         else
           Option.bind (accepted (\<lambda>_. True) (bench_RabbitConfig numErr env logger appName)) (\<lambda>cfg.
           map_option (\<lambda>c. \<lparr>ls_duration = dur, ls_startTimeout = startTimeout, ls_event = eventName, ls_cfg = c\<rparr>)
             (accepted (\<lambda>_. True) (NewApplication logger (cfg\<lparr>rc_PrefetchCount := prefetch, rc_Logger := Some logger\<rparr>))))))))"

text \<open>The handler of the events, called at the times \<open>now\<close>: the counter and the channel of capacity one.\<close>

definition onBenchEvent :: "int \<Rightarrow> nat \<times> int option \<Rightarrow> nat \<times> int option" where
  "onBenchEvent now c = (incr64 (fst c), case snd c of None \<Rightarrow> Some now | Some t \<Rightarrow> Some t)"

datatype firstSelect = FirstEvent int | StartTimerFired | InterruptedWaiting | AppStoppedWaiting

datatype measureSelect = Measured | InterruptedMeasuring | AppStoppedMeasuring

text \<open>\<open>count\<close> is what the handler counted by the end; a zero time is the one of no event. The registration of the
  handler comes before: on the empty registry of a new application it succeeds (\<^const>\<open>ListenEvent\<close>).\<close>

definition listenRun :: "listenSettings option \<Rightarrow> startSelect \<Rightarrow> firstSelect \<Rightarrow> measureSelect \<Rightarrow> nat \<Rightarrow> goerror option \<Rightarrow> nat option" where
  "listenRun settings start first meas count appErr =
     (case settings of
        None \<Rightarrow> Some 1
      | Some s \<Rightarrow>
          (case start of
             StoppedBeforeReady \<Rightarrow> Some 1
           | InterruptedBeforeReady \<Rightarrow> map_option (\<lambda>_. 1) (receiveErr [appErr])
           | BecameReady \<Rightarrow>
               (case first of
                  StartTimerFired \<Rightarrow> map_option (\<lambda>_. 1) (receiveErr [appErr])
                | InterruptedWaiting \<Rightarrow> map_option (\<lambda>_. 1) (finalErr None [appErr])
                | AppStoppedWaiting \<Rightarrow> map_option (\<lambda>_. 1) (finalErr appErr [])
                | FirstEvent t0 \<Rightarrow>
                    (let (startErr, ch) = (case meas of AppStoppedMeasuring \<Rightarrow> (appErr, []) | _ \<Rightarrow> (None, [appErr]))
                     in map_option (\<lambda>e. if failedApp e \<or> count = 0 then 1 else 0) (finalErr startErr ch)))))"

section \<open>Properties\<close>

lemma accepted_Some: "accepted ok r = Some v \<longleftrightarrow> r = Inr v \<and> ok v"
  by (auto simp: accepted_def split: sum.splits)

lemma valid_name: "ValidateEventName name = None \<Longrightarrow> name \<noteq> [] \<and> (\<forall>k. \<not> Matches k name)"
  by (auto simp: ValidateEventName_def Matches_def split: if_splits)

lemma application_prefetch: "NewApplication logger cfg = Inr c \<Longrightarrow> rc_PrefetchCount cfg > 0 \<Longrightarrow> PrefetchCount c > 0"
  by (auto simp: NewApplication_def toInternalConfig_def WithDefaults_def orDefault_def Let_def split: option.splits)

text \<open>Settings that a benchmark runs with name one event and nothing else: the name has no wildcard, so that the
  only name it matches is itself; durations and the number of publishers are positive.\<close>

theorem benchmark_settings:
  "(\<forall>es. emitSetup numErr parseDuration env logger = Some es \<longrightarrow>
      es_event es \<noteq> [] \<and> (\<forall>k. \<not> Matches k (es_event es)) \<and> es_duration es > 0 \<and> es_sendTimeout es > 0 \<and> es_publishers es \<ge> 1) \<and>
   (\<forall>s. listenSetup numErr parseDuration env logger nanos = Some s \<longrightarrow>
      ls_event s \<noteq> [] \<and> (\<forall>k. \<not> Matches k (ls_event s)) \<and> ls_duration s > 0 \<and> ls_startTimeout s > 0 \<and> PrefetchCount (ls_cfg s) > 0)"
  by (auto simp: emitSetup_def listenSetup_def accepted_Some bind_eq_Some_conv Let_def dest!: valid_name application_prefetch split: if_splits)

text \<open>The benchmarks stop, except that they wait forever when the select that watches the application took the value
  of an application that ended without an error, since they then receive from the empty channel again;
  the REST client, which remembers that the application ended, always stops, but reports success
  when the application ended with an error while it served.\<close>

theorem programs_stop:
  "(emitRun (Some es) start wait workers appErr = None \<longleftrightarrow> start = BecameReady \<and> wait = AppStopped \<and> appErr = None) \<and>
   (listenRun (Some s) start first meas n appErr = None \<longleftrightarrow>
      start = BecameReady \<and> appErr = None \<and> (first = AppStoppedWaiting \<or> (\<exists>t. first = FirstEvent t) \<and> meas = AppStoppedMeasuring)) \<and>
   senderMain logger start serve appErr \<noteq> None \<and> senderMain logger BecameReady AppExited appErr = Some 0"
proof -
  have app: "\<exists>c. NewApplication logger (mainConfig logger ''sender'') = Inr c"
    by (simp add: NewApplication_def Validate_def WithDefaults_def mainConfig_def NewConfigWithDefaults_def orDefault_def Let_def)
  then show ?thesis
    by (auto simp: emitRun_def listenRun_def senderMain_def finalErr_def receiveErr_def Let_def case_prod_beta
        split: startSelect.splits waitSelect.splits firstSelect.splits measureSelect.splits serveSelect.splits)
qed

text \<open>A benchmark succeeds only when events were counted and the application did not fail.\<close>

theorem benchmark_success:
  "(emitRun settings start wait workers appErr = Some 0 \<longrightarrow> fst (fold publishLoop workers (0, 0)) \<noteq> 0 \<and> \<not> failedApp appErr) \<and>
   (listenRun settings' start first meas n appErr = Some 0 \<longrightarrow> n \<noteq> 0 \<and> \<not> failedApp appErr)"
proof
  show "emitRun settings start wait workers appErr = Some 0 \<longrightarrow> fst (fold publishLoop workers (0, 0)) \<noteq> 0 \<and> \<not> failedApp appErr"
    by (cases settings; cases start; cases wait) (auto simp: emitRun_def finalErr_def receiveErr_def case_prod_beta split: if_splits)
  show "listenRun settings' start first meas n appErr = Some 0 \<longrightarrow> n \<noteq> 0 \<and> \<not> failedApp appErr"
    by (cases settings'; cases start; cases first; cases meas) (auto simp: listenRun_def finalErr_def receiveErr_def split: if_splits)
qed

end
