(* ===== verification/Spec2Isabelle.thy ===== *)
theory Spec2Isabelle
  imports Rabbit_Loops Recovery_Refinement Rabbit_Queries Rabbit_Notifications Rabbit_Converter
    Rabbit_Socket Rabbit_Facade RC_Names RC_CloudEvent RC_Array Kafka_Messages Kafka_Facade Kafka_Runtime Example_Programs
begin

text \<open>
  \<^bold>\<open>Reactive Commons for Go, verified.\<close>

  Reactive Commons lets services exchange domain events, commands, asynchronous queries and
  notifications over RabbitMQ or Kafka behind one interface (\<^verbatim>\<open>pkg/async\<close>). This development models
  the library, transport by transport, in the order of its packages, and the larger example
  programs, and proves what their users rely on. Names follow the source; a name that both transports use carries
  the prefix \<^verbatim>\<open>k_\<close> on the Kafka side.

  \<^bold>\<open>Parts and their interaction.\<close> An application registers handlers in a handler registry, whose
  wildcard lookups go through the pattern matcher. On RabbitMQ, \<^verbatim>\<open>Start\<close> dials a supervised
  connection, opens a publisher with confirms, declares exchanges, queues and bindings, and starts
  one supervised consumer per kind of message; deliveries are decoded, dispatched to the registry's
  handler and acked or nacked. The gateway publishes commands and queries; replies come back through
  a temporary queue and the reply router, which hands each to the waiting call. When the connection
  is lost it is re-established, and the publisher and the consumers are rebuilt, each by a retry
  loop of its own. On Kafka, \<^verbatim>\<open>Start\<close> verifies the topics, opens one reader per event and notification
  name and per kind of message, and commits offsets by hand after a message was handled, retried or
  written to a dead-letter topic; queries use the same reply router.

  \<^bold>\<open>Theories.\<close>
  \<^item> \<^verbatim>\<open>RC_Prelude\<close>: Go strings, durations and 64-bit arithmetic, map iteration, number formatting, the
    reachability of event systems and the induction rule for invariants that the concurrent components share.
  \<^item> \<^verbatim>\<open>RC_Async\<close>: the messages, the raw envelope, the error values and header names of \<^verbatim>\<open>pkg/async\<close> and \<^verbatim>\<open>pkg/headers\<close>.
  \<^item> \<^verbatim>\<open>RC_JSON\<close>: the JSON text of the messages and error replies as \<^verbatim>\<open>encoding/json\<close> writes and reads it: UTF-8,
    escapes, the scanner with its nesting limit, the matching of field names; reading a written message gives it back.
  \<^item> \<^verbatim>\<open>RC_Array\<close>: JSON arrays of strings and of values, written and read back.
  \<^item> \<^verbatim>\<open>RC_CloudEvent\<close>: \<^verbatim>\<open>kafka/cloudevent.go\<close>; a CloudEvent inside an event reads back member by member.
  \<^item> \<^verbatim>\<open>RC_Names\<close>: \<^verbatim>\<open>internal/utils/namegen.go\<close>; names decode to the UUID they were made from.
  \<^item> \<^verbatim>\<open>Matcher\<close>: \<^verbatim>\<open>internal/matcher/keymatcher.go\<close>; matching is the documented relation on segments,
    resolution finds a match exactly when there is one and, without \<^verbatim>\<open>#\<close>, does not depend on map order.
  \<^item> \<^verbatim>\<open>Registry_Interface\<close>, \<^verbatim>\<open>Rabbit_Registry\<close>, \<^verbatim>\<open>Kafka_Registry\<close>: the contract of a handler table as a
    locale, and the two registries that meet it; the RabbitMQ lookup cache is transparent.
  \<^item> \<^verbatim>\<open>ReplyRouter\<close>: \<^verbatim>\<open>internal/replyrouter\<close> with register, route, deregister and receive interleaved.
  \<^item> \<^verbatim>\<open>Retry_Loops\<close>, \<^verbatim>\<open>Rabbit_Loops\<close>: the contract of a retry loop with a doubling, capped pause; the four
    loops of the RabbitMQ transport meet it, and return exactly when a round does not fail.
  \<^item> \<^verbatim>\<open>Rabbit_Config\<close>, \<^verbatim>\<open>Rabbit_Socket\<close>, \<^verbatim>\<open>Rabbit_Connection\<close>, \<^verbatim>\<open>Rabbit_Sender\<close>, \<^verbatim>\<open>Rabbit_Gateway\<close>,
    \<^verbatim>\<open>Rabbit_Converter\<close>, \<^verbatim>\<open>Rabbit_Dispatch\<close>, \<^verbatim>\<open>Rabbit_Topology\<close>, \<^verbatim>\<open>Rabbit_Consumer\<close>, \<^verbatim>\<open>Rabbit_App\<close>: the files
    of \<^verbatim>\<open>internal/rabbit\<close> and \<^verbatim>\<open>rabbit\<close> of the same names. Connection, publisher, consumers, socket and
    shutdown are concurrent systems: the state is the struct, the program points of the goroutines
    and the environment; a critical section or an atomic access is one step, and everything between
    two of them can be interleaved. Their theorems hold in every reachable state.
  \<^item> \<^verbatim>\<open>Rabbit_Recovery\<close>, \<^verbatim>\<open>Recovery_Refinement\<close>: the goroutines of \<^verbatim>\<open>sender.go\<close> that rebuild a dead publisher
    channel (\<^verbatim>\<open>NewSender\<close>, \<^verbatim>\<open>openChannel\<close>, \<^verbatim>\<open>rebuild\<close>, the watchers, the self-heal, the reconnect hook) with the
    connection going down and up. Somebody is always responsible for the channel, none leaks, and
    \<^verbatim>\<open>Rabbit_Sender\<close>, where these goroutines are free events, covers their control flow.
  \<^item> \<^verbatim>\<open>Rabbit_Facade\<close>: the AMQP dial configuration, the channels the five listeners consume on, and the
    application object; acknowledgement modes fit the settlement of deliveries.
  \<^item> \<^verbatim>\<open>Rabbit_Events\<close>: events and commands over RabbitMQ end to end: JSON, bindings, the documented routing of
    a topic exchange, dispatch and registry lookup.
  \<^item> \<^verbatim>\<open>Rabbit_Notifications\<close>: a notification reaches the temporary queue of every instance of a subscribed application once.
  \<^item> \<^verbatim>\<open>Rabbit_Queries\<close>: queries over RabbitMQ end to end, from \<^verbatim>\<open>RequestReply\<close> over the broker, the service's dispatch and
    its reply, back to the caller, in JSON text.
  \<^item> \<^verbatim>\<open>Kafka_Config\<close>, \<^verbatim>\<open>Kafka_Topology\<close>, \<^verbatim>\<open>Kafka_Wire\<close> (producer, dead letters, event bus, envelope codec),
    \<^verbatim>\<open>Kafka_Listeners\<close> (event, command and notification listeners and the consumer loop),
    \<^verbatim>\<open>Kafka_Gateway\<close> (gateway, query and reply listeners), \<^verbatim>\<open>Kafka_App\<close>: the files of \<^verbatim>\<open>internal/kafka\<close> and
    \<^verbatim>\<open>kafka\<close>. The listeners are sequential; a run is the list of their effects (sleeps, handler calls,
    dead letters, replies, commits) over the messages fetched.
  \<^item> \<^verbatim>\<open>Kafka_Events\<close>: events over Kafka from \<^verbatim>\<open>Emit\<close> to the handler's delivery contract.
  \<^item> \<^verbatim>\<open>Kafka_Messages\<close>: commands and notifications over Kafka: one instance of the target handles a command, every
    instance of a subscribed application handles a notification.
  \<^item> \<^verbatim>\<open>Kafka_Facade\<close>: the telemetry of \<^verbatim>\<open>observability.go\<close>, the writer's configuration and the application object
    with its accessors before and after \<^verbatim>\<open>Ready\<close>.
  \<^item> \<^verbatim>\<open>Kafka_Runtime\<close>: the listener structs with their constructors, \<^verbatim>\<open>open\<close>, \<^verbatim>\<open>close\<close> and \<^verbatim>\<open>run\<close>, and the
    goroutines of a running application interleaved with cancellation and shutdown; each refines the
    sequential loop of \<^verbatim>\<open>Kafka_Listeners\<close>, the main one the steps of \<^verbatim>\<open>Kafka_App\<close>.
  \<^item> \<^verbatim>\<open>Example_Teams\<close>: the team service of \<^verbatim>\<open>examples/rabbitmq/async-receiver-responder\<close>, with Go slices as references
    into a heap; it refines a service over plain lists, and its query replies can be torn.
  \<^item> \<^verbatim>\<open>Example_Rest\<close>, \<^verbatim>\<open>Example_Deployment\<close>: the REST client of \<^verbatim>\<open>examples/rabbitmq/async-sender-client\<close> (routes, handlers, codecs) and the
    team service behind it: an HTTP request has the effect and the answer of the service over plain lists.
  \<^item> \<^verbatim>\<open>Example_Programs\<close>: the main function of the REST client and the two benchmarks: settings, loops, exit status, and the
    paths on which a program does not stop.
  \<^item> This theory: queries over Kafka end to end, from \<^verbatim>\<open>RequestReply\<close> of the caller over the broker, the
    service's processing and its reply, back to the caller, in JSON text.

  \<^bold>\<open>Parameters.\<close> Code outside the repository is an argument of the definitions: the AMQP channel and
  connection (what a call answers, when a channel dies), the Kafka client and cluster (dial, metadata,
  write and fetch outcomes), the JSON encoding of an application's payloads (any JSON value), UUIDs,
  the clock, the order in which Go visits a map, and the application's handlers (a value, an error or
  a panic). The definitions of the single components take the JSON codec as an argument as well; the
  end-to-end theorems use the one of \<^verbatim>\<open>RC_JSON\<close>. Theorems name what they rely on: that names and texts
  are valid UTF-8, that a broker assigns delivery tags in order, that fetches of a partition are in
  order.

  \<^bold>\<open>Bounds.\<close> Loops over finite data are structural recursion. The retry loops exist twice: over the
  finite list of the outcomes their rounds met, which needs no fuel, and as loops without bound
  whose value is undefined when they never return. The Kafka consumer loop runs over the finite list
  of the fetches it made. Durations are integers with the 64-bit wrap-around written out where the
  code multiplies or converts them.

  \<^bold>\<open>Not modelled.\<close> The single-purpose example programs (main functions that wire a signal or a timer to calls of
  the library that are modelled), the printed reports of the benchmarks and log messages, the HTTP server of the
  REST client beyond its routing and responses, the durations that \<^verbatim>\<open>time.ParseDuration\<close> accepts (an argument), and
  the TLS, SASL and OpenTelemetry objects (opaque references). The public interfaces and the package
  comments have no behaviour of their own.
\<close>

section \<open>Queries over Kafka, end to end\<close>

text \<open>C4: A query on the Kafka transport makes the round trip: the caller publishes one message, to the
  target's query topic, keyed by its correlation id; the service that consumes it calls its handler
  once, commits, and writes one reply to the caller's reply topic; and when the caller's reply
  listener routes that reply, the call returns exactly what the handler answered (its value, nothing
  for a completion-only answer, its error text, or that it panicked) and leaves no registration
  behind.\<close>

theorem kafka_query_roundtrip:
  assumes gw: "kg_replyEnabled g" "target \<noteq> []" "uuid \<noteq> []" "topicForReply (kg_cfg g) \<noteq> []"
    and query: "validUTF8 (q_Resource query)" "q_Resource query \<noteq> []" "encQ (q_QueryData query) = Inr v" "isValue v"
    and size: "\<And>body. marshalQuery encQ query = Inr body \<Longrightarrow> \<not> exceeds body (kg_cfg g)" "\<And>m. wr m = None"
    and handler: "k_QueryHandler reg (q_Resource query) = Some h"
    and texts: "\<And>e. res = Inl e \<Longrightarrow> validUTF8 (errorText e)"
    and qorder: "keyOrder (k_queryHeaders g uuid (q_Resource query) (k_timeoutMs now ctx))
          (order (k_queryHeaders g uuid (q_Resource query) (k_timeoutMs now ctx)))"
    and rorder: "keyOrder (replyHeadersFor scfg uuid res) (r_order r (replyHeadersFor scfg uuid res))"
    and service: "serve = queryProcess (jsonEnvelope err) (\<lambda>r. Inr (enc r)) (\<lambda>t. Inr (marshalError t)) scfg reg r"
    and res: "res = invokeQuery (h (r_id r) \<lparr>q_Resource = q_Resource query, q_QueryData = v\<rparr>
          \<lparr>CorrelationID = uuid, ReplyID = topicForReply (kg_cfg g)\<rparr>)"
  shows "\<exists>m rs'. k_RequestReply (marshalQuery encQ) unmarshalError (publish wr order) True
        (\<lambda>sent rs. fold k_route (map (delivered 0 0) (concat (map (\<lambda>m. repliesOf (serve (delivered p off m))) sent))) rs)
        now uuid g ctx query target rs = (callerResult enc res, [m], rs') \<and>
      km_Topic m = topicForQuery (kg_cfg g) target \<and> km_Key m = uuid \<and> channels rs' uuid = None \<and>
      (\<exists>reply. serve (delivered p off m) = [KInvoke 0, KReply reply, KCommit] \<and>
        km_Topic reply = topicForReply (kg_cfg g))"
proof -
  let ?env = "emptyEnvelope\<lparr>env_Resource := q_Resource query, env_QueryData := v\<rparr>"
  obtain body where body: "marshalQuery encQ query = Inr body" "unmarshalEnvelope body = Some ?env"
    using query_decodes [where enc = encQ and q = query and v = v, OF query(1,3,4)] by blast
  have wire: "jsonEnvelope err body = Inr ?env" "env_Resource ?env \<noteq> []" "k_QueryHandler reg (env_Resource ?env) = Some h"
    using body(2) handler query(2) by (simp_all add: jsonEnvelope_def)
  have codec: "unmarshalError (marshalError (errorText e)) = Some (errorText e)" if "res = Inl e" for e
    using error_decodes texts [OF that] .
  have res': "res = invokeQuery (h (r_id r) \<lparr>q_Resource = env_Resource ?env, q_QueryData = env_QueryData ?env\<rparr>
      \<lparr>CorrelationID = uuid, ReplyID = topicForReply (kg_cfg g)\<rparr>)"
    by (simp add: res)
  show ?thesis
    by (rule kafka_query_transport [where marshal = "marshalQuery encQ" and errorMessage = unmarshalError and
          encError = marshalError and unmarshal = "jsonEnvelope err" and h = h and raw = ?env and body = body and
          wr = wr and order = order and enc = enc and res = res and serve = serve and reg = reg and r = r])
      (fact gw body(1) size(1) [OF body(1)] size(2) wire codec qorder rorder service res')+
qed

text \<open>A registry with one query handler.\<close>

definition exampleQueries :: "(unit, unit, unit, bytes kqueryHandler) kafkaRegistry" where
  "exampleQueries = k_newHandlerRegistry\<lparr>k_queryHandlers := [''balance'' \<mapsto> (\<lambda>i q fr. HOk (Some ''7''))]\<rparr>"

theorem kafka_query_roundtrip_witness:
  "\<exists>m rs'. k_RequestReply (marshalQuery (\<lambda>d. Inr d)) unmarshalError (publish (\<lambda>_. None) exampleOrder) True
      (\<lambda>sent rs. fold k_route (map (delivered 0 0) (concat (map (\<lambda>m. repliesOf (queryProcess (jsonEnvelope (\<lambda>_. ''syntax error''))
         (\<lambda>v. Inr v) (\<lambda>t. Inr (marshalError t)) exampleKafka exampleQueries (exampleRound 0 (\<lambda>_. None)) (delivered 2 5 m))) sent))) rs)
      0 ''id-1'' (k_newGateway exampleKafka True) None \<lparr>q_Resource = ''balance'', q_QueryData = ''{}''\<rparr> ''accounts'' NewReplyRouter
     = (Inr (Some ''7''), [m], rs') \<and> km_Topic m = ''accounts.queries'' \<and> channels rs' ''id-1'' = None"
proof -
  let ?g = "k_newGateway exampleKafka True" and ?r = "exampleRound 0 (\<lambda>_. None)"
  let ?q = "\<lparr>q_Resource = ''balance'', q_QueryData = ''{}''\<rparr>"
  let ?serve = "queryProcess (jsonEnvelope (\<lambda>_. ''syntax error'')) (\<lambda>v. Inr v) (\<lambda>t. Inr (marshalError t)) exampleKafka exampleQueries ?r"
  let ?qh = "k_queryHeaders ?g ''id-1'' ''balance'' (k_timeoutMs 0 None)"
  let ?rh = "replyHeadersFor exampleKafka ''id-1'' (Inr (Some ''7''))"
  have g: "kg_replyEnabled ?g" "''accounts'' \<noteq> []" "''id-1'' \<noteq> []" "topicForReply (kg_cfg ?g) \<noteq> []"
    "topicForQuery (kg_cfg ?g) ''accounts'' = ''accounts.queries''"
    by (simp_all add: k_newGateway_def exampleKafka_def k_NewConfigWithDefaults_def topicForReply_def topicForQuery_def)
  have json: "validUTF8 ''balance''" "isValue ''{}''"
    "marshalQuery (\<lambda>d. Inr d) ?q = Inr (concat [''{'', quoteJSON ''resource'', '':'', quoteJSON ''balance'', '','', quoteJSON ''queryData'', '':{}}''])"
    "length (quoteJSON ''resource'') = 10" "length (quoteJSON ''balance'') = 9" "length (quoteJSON ''queryData'') = 11"
    by (code_simp | simp add: marshalQuery_def marshalObject_def)+
  have small: "\<not> exceeds body (kg_cfg ?g)" if "marshalQuery (\<lambda>d. Inr d) ?q = Inr body" for body
    using that json(3-) by (auto simp: exceeds_def k_newGateway_def exampleKafka_def k_NewConfigWithDefaults_def)
  have h: "k_QueryHandler exampleQueries ''balance'' = Some (\<lambda>i q fr. HOk (Some ''7''))"
    by (simp add: exampleQueries_def k_QueryHandler_def)
  have ord: "keyOrder ?qh (exampleOrder ?qh)" "keyOrder ?rh (r_order ?r ?rh)"
    unfolding keyOrder_def
    by (auto simp: exampleOrder_def rangeKeys_def k_queryHeaders_def replyHeadersFor_def replyHeaders_def rcHeaders_def
        header_names exampleRound_def split: if_splits)
  have "\<exists>m rs'. k_RequestReply (marshalQuery (\<lambda>d. Inr d)) unmarshalError (publish (\<lambda>_. None) exampleOrder) True
      (\<lambda>sent rs. fold k_route (map (delivered 0 0) (concat (map (\<lambda>m. repliesOf (?serve (delivered 2 5 m))) sent))) rs)
      0 ''id-1'' ?g None ?q ''accounts'' NewReplyRouter = (callerResult (\<lambda>b. b) (Inr (Some ''7'')), [m], rs') \<and>
      km_Topic m = topicForQuery (kg_cfg ?g) ''accounts'' \<and> km_Key m = ''id-1'' \<and> channels rs' ''id-1'' = None \<and>
      (\<exists>reply. ?serve (delivered 2 5 m) = [KInvoke 0, KReply reply, KCommit] \<and> km_Topic reply = topicForReply (kg_cfg ?g))"
    by (rule kafka_query_roundtrip [where uuid = "''id-1''" and encQ = "\<lambda>d. Inr d" and v = "''{}''" and err = "\<lambda>_. ''syntax error''" and
          h = "\<lambda>i q fr. HOk (Some ''7'')" and scfg = exampleKafka and reg = exampleQueries and r = ?r and enc = "\<lambda>b. b" and
          res = "Inr (Some ''7'')" and serve = ?serve and wr = "\<lambda>_. None" and order = exampleOrder])
      (use g json(1,2) small h ord in \<open>simp_all add: invokeQuery_def\<close>)
  with g(5) show ?thesis by (auto simp: callerResult_def)
qed

end
